(* ===== verification/Blob_Prelude.thy ===== *)
theory Blob_Prelude
  imports Main "HOL-Library.Word" "HOL-Library.AList"
begin

text \<open>
  Shared vocabulary of the development: the machine integers of the Rust code as words, byte
  strings, big-endian encodings (\<^verbatim>\<open>to_be_bytes\<close> and \<^verbatim>\<open>from_be_bytes\<close> of the standard
  library), \<^verbatim>\<open>checked_add\<close>, and the generic facts on lists that several components use.
  Fallible code returns \<open>'e + 'a\<close>, with \<open>Inl\<close> for \<^verbatim>\<open>Err\<close> and \<open>Inr\<close> for \<^verbatim>\<open>Ok\<close>.
\<close>

section \<open>Machine integers and bytes\<close>

type_synonym u8 = "8 word"
type_synonym u16 = "16 word"
type_synonym u32 = "32 word"
type_synonym u64 = "64 word"
type_synonym bytes = "u8 list"

named_theorems be_simps \<open>big-endian encodings\<close>
named_theorems len_simps \<open>lengths of encoded sections\<close>

text \<open>\<^verbatim>\<open>uN::checked_add\<close>.\<close>

definition checked_add :: "'a::len word \<Rightarrow> 'a word \<Rightarrow> 'a word option" where
  "checked_add a b = (if unat a + unat b < 2 ^ LENGTH('a) then Some (a + b) else None)"

text \<open>\<^verbatim>\<open>u64::try_from(usize)\<close>.\<close>

definition u64_try_from :: "nat \<Rightarrow> u64 option" where
  "u64_try_from n = (if n < 2 ^ 64 then Some (of_nat n) else None)"

lemma checked_add_None_iff:
  "checked_add a b = None \<longleftrightarrow> 2 ^ LENGTH('a) \<le> unat a + unat (b :: 'a::len word)"
  by (simp add: checked_add_def not_less)

lemma checked_add_SomeD:
  "checked_add a b = Some c \<Longrightarrow> unat c = unat a + unat (b :: 'a::len word)"
  by (auto simp: checked_add_def unat_word_ariths split: if_splits)

lemma u64_try_from_Some_iff [simp]:
  "u64_try_from n = Some w \<longleftrightarrow> n < 2 ^ 64 \<and> w = of_nat n"
  by (auto simp: u64_try_from_def)

lemma u64_try_from_None_iff [simp]: "u64_try_from n = None \<longleftrightarrow> 2 ^ 64 \<le> n"
  by (simp add: u64_try_from_def not_less)

lemma unat_of_nat_u64 [simp]: "n < 2 ^ 64 \<Longrightarrow> unat (of_nat n :: u64) = n"
  by (simp add: unat_of_nat take_bit_eq_mod)

lemma unat_less_len: "unat (w :: 'a::len word) < 2 ^ LENGTH('a)"
  by (rule unsigned_less)

lemma unat_u64_less [simp]: "unat (w :: u64) < 2 ^ 64"
  using unat_less_len [of w] by simp

lemmas unat_u64_less_numeral [simp] = unat_u64_less [simplified]

section \<open>Big-endian encodings\<close>

text \<open>\<open>be_bytes n v\<close>: the \<open>n\<close> low bytes of \<open>v\<close>, most significant first.\<close>

fun be_bytes :: "nat \<Rightarrow> nat \<Rightarrow> bytes" where
  "be_bytes 0 v = []"
| "be_bytes (Suc n) v = be_bytes n (v div 256) @ [of_nat (v mod 256)]"

lemma be_bytes_numeral:
  "be_bytes (numeral k) v = be_bytes (pred_numeral k) (v div 256) @ [of_nat (v mod 256)]"
  by (simp only: numeral_eq_Suc be_bytes.simps)

definition be_value :: "bytes \<Rightarrow> nat" where
  "be_value bs = foldl (\<lambda>acc b. acc * 256 + unat b) 0 bs"

definition u16_to_be_bytes :: "u16 \<Rightarrow> bytes" where
  "u16_to_be_bytes w = be_bytes 2 (unat w)"

definition u32_to_be_bytes :: "u32 \<Rightarrow> bytes" where
  "u32_to_be_bytes w = be_bytes 4 (unat w)"

definition u64_to_be_bytes :: "u64 \<Rightarrow> bytes" where
  "u64_to_be_bytes w = be_bytes 8 (unat w)"

definition u16_from_be_bytes :: "bytes \<Rightarrow> u16" where
  "u16_from_be_bytes bs = of_nat (be_value bs)"

definition u32_from_be_bytes :: "bytes \<Rightarrow> u32" where
  "u32_from_be_bytes bs = of_nat (be_value bs)"

definition u64_from_be_bytes :: "bytes \<Rightarrow> u64" where
  "u64_from_be_bytes bs = of_nat (be_value bs)"

lemma length_be_bytes [simp, len_simps]: "length (be_bytes n v) = n"
  by (induction n arbitrary: v) auto

lemma be_value_Nil [simp]: "be_value [] = 0"
  by (simp add: be_value_def)

lemma be_value_snoc [simp]: "be_value (bs @ [b]) = be_value bs * 256 + unat b"
  by (simp add: be_value_def)

lemma unat_of_nat_u8 [simp]: "n < 256 \<Longrightarrow> unat (of_nat n :: u8) = n"
  by (simp add: unat_of_nat take_bit_eq_mod)

lemma be_value_be_bytes [be_simps]: "be_value (be_bytes n v) = v mod 256 ^ n"
proof (induction n arbitrary: v)
  case 0
  then show ?case by simp
next
  case (Suc n)
  have "be_value (be_bytes (Suc n) v) = (v div 256) mod 256 ^ n * 256 + v mod 256"
    by (simp add: Suc.IH)
  also have "\<dots> = v mod 256 ^ Suc n"
    by (simp add: mod_mult2_eq mult.commute)
  finally show ?case .
qed

lemma be_bytes_be_value [be_simps]: "length bs = n \<Longrightarrow> be_bytes n (be_value bs) = bs"
proof (induction n arbitrary: bs)
  case 0
  then show ?case by simp
next
  case (Suc n)
  then obtain xs b where bs: "bs = xs @ [b]" and len: "length xs = n"
    by (metis length_Suc_conv_rev)
  have b: "unat b < 256" using unat_less_len [of b] by simp
  then have "(be_value xs * 256 + unat b) div 256 = be_value xs"
    and "(be_value xs * 256 + unat b) mod 256 = unat b"
    by simp_all
  then show ?case using Suc.IH [OF len] by (simp add: bs)
qed

lemma be_value_less: "be_value bs < 256 ^ length bs"
proof (induction bs rule: rev_induct)
  case (snoc b bs)
  have "unat b < 256" using unat_less_len [of b] by simp
  with snoc show ?case by simp
qed simp

lemma length_to_be_bytes [simp, len_simps]:
  "length (u16_to_be_bytes a) = 2"
  "length (u32_to_be_bytes b) = 4"
  "length (u64_to_be_bytes c) = 8"
  by (simp_all add: u16_to_be_bytes_def u32_to_be_bytes_def u64_to_be_bytes_def)

lemma from_to_be_bytes [simp]:
  "u16_from_be_bytes (u16_to_be_bytes a) = a"
  "u32_from_be_bytes (u32_to_be_bytes b) = b"
  "u64_from_be_bytes (u64_to_be_bytes c) = c"
  using unat_less_len [of a] unat_less_len [of b] unat_less_len [of c]
  by (simp_all add: u16_from_be_bytes_def u32_from_be_bytes_def u64_from_be_bytes_def
      u16_to_be_bytes_def u32_to_be_bytes_def u64_to_be_bytes_def be_value_be_bytes)

lemma to_from_be_bytes:
  "length xs = 2 \<Longrightarrow> u16_to_be_bytes (u16_from_be_bytes xs) = xs"
  "length ys = 4 \<Longrightarrow> u32_to_be_bytes (u32_from_be_bytes ys) = ys"
  "length zs = 8 \<Longrightarrow> u64_to_be_bytes (u64_from_be_bytes zs) = zs"
  using be_value_less [of xs] be_value_less [of ys] be_value_less [of zs]
  by (simp_all add: u16_from_be_bytes_def u32_from_be_bytes_def u64_from_be_bytes_def
      u16_to_be_bytes_def u32_to_be_bytes_def u64_to_be_bytes_def be_bytes_be_value
      unat_of_nat take_bit_eq_mod)

section \<open>Lists\<close>

text \<open>A list longer than a prefix of known length splits there.\<close>

lemma take_append_exact [simp]: "n = length xs \<Longrightarrow> take n (xs @ ys) = xs"
  by simp

lemma drop_append_exact [simp]: "n = length xs \<Longrightarrow> drop n (xs @ ys) = ys"
  by simp

end
