(* ===== verification/Blob_Config.thy ===== *)
theory Blob_Config
  imports Blob_Prelude
begin

text \<open>
  The immutable configuration of a store, \<^verbatim>\<open>src/config.rs\<close>: the constants of the format,
  the validated format identity, the options builder and the configuration errors. A Rust
  \<^verbatim>\<open>String\<close> is a \<^typ>\<open>string\<close> whose characters are its bytes.
\<close>

section \<open>Constants\<close>

definition DOMAIN_TAG_LEN :: nat where
  "DOMAIN_TAG_LEN = 8"

definition ENVELOPE_VERSION_V1 :: u16 where
  "ENVELOPE_VERSION_V1 = 1"

definition MAX_FILENAME_SUFFIX_LEN :: nat where
  "MAX_FILENAME_SUFFIX_LEN = 32"

definition HEADER_LEN :: nat where
  "HEADER_LEN = 18"

definition CHECKSUM_LEN :: nat where
  "CHECKSUM_LEN = 4"

definition STREAM_CHUNK_SIZE :: nat where
  "STREAM_CHUNK_SIZE = 64 * 1024"

definition DEFAULT_MAX_BLOB_SIZE :: u64 where
  "DEFAULT_MAX_BLOB_SIZE = 64 * 1024 * 1024"

definition DEFAULT_MAX_CONCURRENT_OPERATIONS :: nat where
  "DEFAULT_MAX_CONCURRENT_OPERATIONS = 4"

lemmas const_defs = DOMAIN_TAG_LEN_def HEADER_LEN_def CHECKSUM_LEN_def
declare const_defs [len_simps]

section \<open>Errors and the format identity\<close>

datatype config_error =
    InvalidDomainTagLength nat
  | InvalidFilenameSuffix
  | UnsupportedConfiguredEnvelopeVersion u16
  | InvalidNamespace
  | InvalidMaximumBlobSize u64

record format_identity =
  domain_tag :: bytes
  filename_suffix :: string
  envelope_version :: u16

text \<open>The byte classes \<^verbatim>\<open>is_ascii_lowercase\<close> and \<^verbatim>\<open>is_ascii_digit\<close>.\<close>

definition is_ascii_lowercase :: "char \<Rightarrow> bool" where
  "is_ascii_lowercase c \<longleftrightarrow> 97 \<le> (of_char c :: nat) \<and> (of_char c :: nat) \<le> 122"

definition is_ascii_digit :: "char \<Rightarrow> bool" where
  "is_ascii_digit c \<longleftrightarrow> 48 \<le> (of_char c :: nat) \<and> (of_char c :: nat) \<le> 57"

definition suffix_byte :: "char \<Rightarrow> bool" where
  "suffix_byte c \<longleftrightarrow> is_ascii_lowercase c \<or> is_ascii_digit c \<or> c = CHR ''_'' \<or> c = CHR ''-''"

definition validate_suffix :: "string \<Rightarrow> config_error + unit" where
  "validate_suffix suffix =
    (let valid = 2 \<le> length suffix \<and> length suffix \<le> MAX_FILENAME_SUFFIX_LEN
                 \<and> hd suffix = CHR ''.'' \<and> list_all suffix_byte (tl suffix)
     in if valid then Inr () else Inl InvalidFilenameSuffix)"

definition format_new :: "bytes \<Rightarrow> string \<Rightarrow> u16 \<Rightarrow> config_error + format_identity" where
  "format_new domain suffix version =
    (if length domain \<noteq> DOMAIN_TAG_LEN then Inl (InvalidDomainTagLength (length domain))
     else case validate_suffix suffix of
       Inl e \<Rightarrow> Inl e
     | Inr _ \<Rightarrow>
         if version \<noteq> ENVELOPE_VERSION_V1
         then Inl (UnsupportedConfiguredEnvelopeVersion version)
         else Inr \<lparr>domain_tag = domain, filename_suffix = suffix, envelope_version = version\<rparr>)"

text \<open>What every constructed identity satisfies: the fields are private, so \<^verbatim>\<open>new\<close> is the
  only way to make one.\<close>

definition valid_suffix :: "string \<Rightarrow> bool" where
  "valid_suffix s \<longleftrightarrow> (\<exists>r. s = CHR ''.'' # r \<and> r \<noteq> [] \<and> length r \<le> 31 \<and> list_all suffix_byte r)"

definition valid_format :: "format_identity \<Rightarrow> bool" where
  "valid_format f \<longleftrightarrow> length (domain_tag f) = 8 \<and> valid_suffix (filename_suffix f)
    \<and> envelope_version f = 1"

lemma validate_suffix_ok_iff: "validate_suffix s = Inr () \<longleftrightarrow> valid_suffix s"
proof (cases s)
  case Nil
  then show ?thesis by (simp add: validate_suffix_def valid_suffix_def)
next
  case (Cons c r)
  then show ?thesis
    by (cases r) (auto simp: validate_suffix_def valid_suffix_def Let_def MAX_FILENAME_SUFFIX_LEN_def)
qed

lemma validate_suffix_cases:
  "validate_suffix s = (if valid_suffix s then Inr () else Inl InvalidFilenameSuffix)"
proof (cases "valid_suffix s")
  case True
  then show ?thesis by (simp add: validate_suffix_ok_iff)
next
  case False
  then have "validate_suffix s \<noteq> Inr ()" by (simp add: validate_suffix_ok_iff)
  then have "validate_suffix s = Inl InvalidFilenameSuffix"
    by (auto simp: validate_suffix_def Let_def split: if_splits)
  with False show ?thesis by simp
qed

lemma format_new_ok_iff:
  "format_new d s v = Inr f \<longleftrightarrow>
     valid_format f \<and> f = \<lparr>domain_tag = d, filename_suffix = s, envelope_version = v\<rparr>"
  by (auto simp: format_new_def valid_format_def validate_suffix_cases DOMAIN_TAG_LEN_def
      ENVELOPE_VERSION_V1_def split: if_splits)

lemma suffix_byte_not_dot: "suffix_byte c \<Longrightarrow> c \<noteq> CHR ''.''"
  by (auto simp: suffix_byte_def is_ascii_lowercase_def is_ascii_digit_def)

lemma valid_suffix_dots:
  assumes "valid_suffix s"
  obtains r where "s = CHR ''.'' # r" and "r \<noteq> []" and "CHR ''.'' \<notin> set r"
  using assms suffix_byte_not_dot by (auto simp: valid_suffix_def list_all_iff)

text \<open>The suffix grammar of the documentation, \<^verbatim>\<open>\.[a-z0-9_-]+\<close>, with its characters listed.\<close>

definition suffix_alphabet :: string where
  "suffix_alphabet = ''abcdefghijklmnopqrstuvwxyz0123456789_-''"

lemma suffix_alphabet_codes:
  "map of_char suffix_alphabet = [97..<123] @ [48..<58] @ [95, 45 :: nat]"
  by (simp add: suffix_alphabet_def upt_rec)

lemma suffix_byte_alphabet: "suffix_byte c \<longleftrightarrow> c \<in> set suffix_alphabet"
proof -
  have "c \<in> set suffix_alphabet \<longleftrightarrow> (of_char c :: nat) \<in> set (map of_char suffix_alphabet)"
    by (auto simp: of_char_eq_iff)
  also have "\<dots> \<longleftrightarrow> suffix_byte c"
    unfolding suffix_alphabet_codes set_append set_upt suffix_byte_def is_ascii_lowercase_def is_ascii_digit_def
    using of_char_eq_iff [of c "CHR ''_''", where 'a = nat] of_char_eq_iff [of c "CHR ''-''", where 'a = nat]
    by auto
  finally show ?thesis by simp
qed

lemma valid_suffix_alphabet:
  "valid_suffix s \<longleftrightarrow> (\<exists>r. s = CHR ''.'' # r \<and> r \<noteq> [] \<and> length s \<le> 32 \<and> set r \<subseteq> set suffix_alphabet)"
  by (auto simp: valid_suffix_def list_all_iff suffix_byte_alphabet)

section \<open>Options\<close>

record store_options =
  opt_format :: format_identity
  max_blob_size :: u64
  max_concurrent_operations :: nat

definition options_new :: "format_identity \<Rightarrow> store_options" where
  "options_new f = \<lparr>opt_format = f, max_blob_size = DEFAULT_MAX_BLOB_SIZE,
     max_concurrent_operations = DEFAULT_MAX_CONCURRENT_OPERATIONS\<rparr>"

definition with_max_blob_size :: "store_options \<Rightarrow> u64 \<Rightarrow> store_options" where
  "with_max_blob_size opts m = opts\<lparr>max_blob_size := m\<rparr>"

text \<open>The argument is a \<^verbatim>\<open>NonZeroUsize\<close>: callers pass a positive number.\<close>

definition with_max_concurrent_operations :: "store_options \<Rightarrow> nat \<Rightarrow> store_options" where
  "with_max_concurrent_operations opts m = opts\<lparr>max_concurrent_operations := m\<rparr>"

definition valid_options :: "store_options \<Rightarrow> bool" where
  "valid_options opts \<longleftrightarrow> valid_format (opt_format opts) \<and> 0 < max_concurrent_operations opts"

lemma valid_options_new [simp]: "valid_options (options_new f) = valid_format f"
  by (simp add: valid_options_def options_new_def DEFAULT_MAX_CONCURRENT_OPERATIONS_def)

lemma valid_options_with_max_blob_size [simp]:
  "valid_options (with_max_blob_size opts m) = valid_options opts"
  by (simp add: valid_options_def with_max_blob_size_def)

lemma valid_options_with_max_concurrent [simp]:
  "valid_options (with_max_concurrent_operations opts m) \<longleftrightarrow>
     valid_format (opt_format opts) \<and> 0 < m"
  by (simp add: valid_options_def with_max_concurrent_operations_def)

end
