(* ===== verification/Blob_Error.thy ===== *)
theory Blob_Error
  imports Blob_Config
begin

text \<open>
  The public results and errors of the store, \<^verbatim>\<open>src/error.rs\<close>. An \<^verbatim>\<open>io::Error\<close> is its
  \<^verbatim>\<open>kind()\<close> with the raw operating-system code when it has one: these are the only parts the
  code inspects. \<^verbatim>\<open>SystemTime\<close> and \<^verbatim>\<open>Duration\<close> are numbers of nanoseconds, and a
  \<^verbatim>\<open>getrandom::Error\<close> is an opaque code.
\<close>

section \<open>Input/output errors of the standard library\<close>

datatype error_kind = NotFound | AlreadyExists | UnexpectedEof | Interrupted | OtherKind nat

datatype io_error = IoError (kind: error_kind) (raw_os_error: "u32 option")

type_synonym system_time = int \<comment> \<open>nanoseconds since the epoch, before it negative\<close>
type_synonym duration = nat \<comment> \<open>nanoseconds\<close>
type_synonym getrandom_error = nat

datatype path = Path (is_absolute: bool) (path_components: "string list")

section \<open>Results\<close>

datatype blob_state = Absent | Present

record blob_inspection =
  inspected_state :: blob_state
  size_of_blob :: "u64 option"
  modified :: "system_time option"

record blob_metadata =
  payload_len :: u64

record quarantine_info =
  quarantine_identifier :: string
  diagnostic_path :: path

record cleanup_failure =
  failed_identifier :: string
  failure_source :: io_error

record cleanup_report =
  removed :: "string list"
  skipped :: "string list"
  failures :: "cleanup_failure list"

definition cleanup_report_default :: cleanup_report where
  "cleanup_report_default = \<lparr>removed = [], skipped = [], failures = []\<rparr>"

section \<open>Errors\<close>

datatype store_operation =
    ResolveCurrentDirectory | NormalizeRoot | StartInitialization | StartCoordinator
  | InspectRoot | InspectNamespace | CreateNamespace | OpenRootDirectory | SyncRootDirectory
  | OpenBlob | ReadEnvelope | OpenAtomicWriter | WriteEnvelope | RemoveBlob
  | OpenNamespaceDirectory | SyncNamespaceDirectory | InspectBlob | QuarantineBlob
  | GenerateIdentifier | EnumerateTemporaryFiles | RemoveTemporaryFile | RefreshClearStagingAge

fun display_store_operation :: "store_operation \<Rightarrow> string" where
  "display_store_operation ResolveCurrentDirectory = ''resolve the current directory''"
| "display_store_operation NormalizeRoot = ''normalize the configured root path''"
| "display_store_operation StartInitialization = ''start store initialization''"
| "display_store_operation StartCoordinator = ''start the blob-store coordinator''"
| "display_store_operation InspectRoot = ''inspect configured root''"
| "display_store_operation InspectNamespace = ''inspect namespace directory''"
| "display_store_operation CreateNamespace = ''create namespace directory''"
| "display_store_operation OpenRootDirectory = ''open configured root directory''"
| "display_store_operation SyncRootDirectory = ''synchronize configured root directory''"
| "display_store_operation OpenBlob = ''open blob''"
| "display_store_operation ReadEnvelope = ''read blob envelope''"
| "display_store_operation OpenAtomicWriter = ''open atomic blob writer''"
| "display_store_operation WriteEnvelope = ''write blob envelope''"
| "display_store_operation RemoveBlob = ''remove blob''"
| "display_store_operation OpenNamespaceDirectory = ''open namespace directory''"
| "display_store_operation SyncNamespaceDirectory = ''synchronize namespace directory''"
| "display_store_operation InspectBlob = ''inspect blob''"
| "display_store_operation QuarantineBlob = ''quarantine blob''"
| "display_store_operation GenerateIdentifier = ''generate a diagnostic identifier''"
| "display_store_operation EnumerateTemporaryFiles = ''enumerate owned temporary files''"
| "display_store_operation RemoveTemporaryFile = ''remove an owned temporary file''"
| "display_store_operation RefreshClearStagingAge = ''refresh clear-staging age''"

datatype envelope_section = Magic | Version | PayloadLength | Payload | Checksum

fun display_envelope_section :: "envelope_section \<Rightarrow> string" where
  "display_envelope_section Magic = ''magic''"
| "display_envelope_section Version = ''version''"
| "display_envelope_section PayloadLength = ''payload length''"
| "display_envelope_section Payload = ''payload''"
| "display_envelope_section Checksum = ''checksum''"

datatype store_error =
    Configuration config_error
  | Io store_operation io_error
  | AtomicCommit io_error
  | RootDoesNotExist
  | RootIsNotDirectory
  | NamespacePathIsNotDirectory
  | InvalidEnvelopeDomain bytes bytes
  | UnsupportedEnvelopeVersion u16
  | TruncatedEnvelope envelope_section
  | BlobTooLarge u64 u64
  | InvalidPayloadLength u64
  | TrailingData
  | ChecksumMismatch u32 u32
  | InputEndedEarly u64 u64
  | InputHasTrailingData u64
  | InputIo io_error
  | OutputIo io_error
  | StreamCancelled
  | UnsupportedPlatform string
  | CoordinationFailure
  | StoreClosed
  | EngineFailed
  | WorkerUnavailable
  | ShutdownFailure
  | QuarantineSourceMissing
  | QuarantineCommit io_error
  | QuarantineNamespaceSync quarantine_info io_error
  | CleanupUnsupported string
  | InvalidCleanupAge
  | IdentifierGeneration getrandom_error
  | UnexpectedFileType
  | MaintenanceCoordinationFailure

text \<open>The errors of a stored envelope that the readers report: everything that is not an
  environment failure.\<close>

fun envelope_error :: "store_error \<Rightarrow> bool" where
  "envelope_error (InvalidEnvelopeDomain _ _) = True"
| "envelope_error (UnsupportedEnvelopeVersion _) = True"
| "envelope_error (TruncatedEnvelope _) = True"
| "envelope_error (BlobTooLarge _ _) = True"
| "envelope_error (InvalidPayloadLength _) = True"
| "envelope_error TrailingData = True"
| "envelope_error (ChecksumMismatch _ _) = True"
| "envelope_error _ = False"

end
