(* ===== verification/Blob_Path.thy ===== *)
theory Blob_Path
  imports Blob_Error
begin

text \<open>
  Names and paths: \<^verbatim>\<open>src/path.rs\<close>, \<^verbatim>\<open>validate_maximum\<close> of \<^verbatim>\<open>src/engine/mod.rs\<close>, and what they
  use of \<^verbatim>\<open>std::path\<close> on Unix (\<^verbatim>\<open>components\<close>, \<^verbatim>\<open>join\<close>, \<^verbatim>\<open>file_stem\<close>). BLAKE3 is a crate outside
  the repository: its \<^verbatim>\<open>hash\<close> and \<^verbatim>\<open>to_hex\<close> are the fields of a parameter, and locale
  \<open>blake3_spec\<close> states what the store relies on (a 32-byte digest, rendered injectively as
  64 lowercase hexadecimal digits).
\<close>

section \<open>Paths of the standard library\<close>

definition join :: "path \<Rightarrow> path \<Rightarrow> path" where
  "join p q = (if is_absolute q then q
     else Path (is_absolute p) (path_components p @ path_components q))"

abbreviation relative :: "string \<Rightarrow> path" where
  "relative name \<equiv> Path False [name]"

datatype component = RootDir | CurDir | ParentDir | Normal string

fun split_slash :: "string \<Rightarrow> string list" where
  "split_slash [] = [[]]"
| "split_slash (c # s) =
     (if c = CHR ''/'' then [] # split_slash s
      else case split_slash s of p # ps \<Rightarrow> (c # p) # ps | [] \<Rightarrow> [[c]])"

definition component_of :: "string \<Rightarrow> component list" where
  "component_of p =
    (if p = '''' \<or> p = ''.'' then [] else if p = ''..'' then [ParentDir] else [Normal p])"

definition components :: "string \<Rightarrow> component list" where
  "components s =
    (let has_root = s \<noteq> [] \<and> hd s = CHR ''/''; pieces = split_slash s
     in (if has_root then [RootDir] else []) @
        (if \<not> has_root \<and> hd pieces = ''.'' then [CurDir] else []) @
        concat (map component_of pieces))"

text \<open>\<^verbatim>\<open>Path::file_stem\<close> on a file name: what precedes the last dot, unless nothing does.\<close>

definition before_last_dot :: "string \<Rightarrow> string" where
  "before_last_dot s = rev (tl (dropWhile (\<lambda>c. c \<noteq> CHR ''.'') (rev s)))"

definition name_stem :: "string \<Rightarrow> string" where
  "name_stem s =
    (if s = ''..'' \<or> CHR ''.'' \<notin> set s \<or> before_last_dot s = [] then s else before_last_dot s)"

definition file_stem :: "path \<Rightarrow> string option" where
  "file_stem p = (if path_components p = [] then None else Some (name_stem (last (path_components p))))"

lemma split_slash_not_Nil [simp]: "split_slash s \<noteq> []"
  by (cases s) (auto split: list.splits)

lemma split_slash_no_slash: "p \<in> set (split_slash s) \<Longrightarrow> CHR ''/'' \<notin> set p"
proof (induction s arbitrary: p)
  case (Cons c s)
  then show ?case by (cases "split_slash s") (auto split: if_splits)
qed simp

lemma split_slash_id: "CHR ''/'' \<notin> set s \<Longrightarrow> split_slash s = [s]"
  by (induction s) auto

lemma name_stem_dot:
  assumes "h \<noteq> []" and "CHR ''.'' \<notin> set h" and "CHR ''.'' \<notin> set r"
  shows "name_stem (h @ CHR ''.'' # r) = h"
proof -
  have "dropWhile (\<lambda>c. c \<noteq> CHR ''.'') (rev r @ CHR ''.'' # rev h) = CHR ''.'' # rev h"
    using assms(3) by (subst dropWhile_append2) auto
  then have "before_last_dot (h @ CHR ''.'' # r) = h"
    by (simp add: before_last_dot_def)
  moreover have "h @ CHR ''.'' # r \<noteq> ''..''"
    using assms(1,2) by (cases h) auto
  ultimately show ?thesis using assms(1) by (simp add: name_stem_def)
qed

section \<open>BLAKE3 as an interface\<close>

record blake3 =
  b3_hash :: "bytes \<Rightarrow> bytes"
  b3_to_hex :: "bytes \<Rightarrow> string"

definition lower_hex :: "char set" where
  "lower_hex = set ''0123456789abcdef''"

locale blake3_spec =
  fixes b3 :: blake3
  assumes hash_length: "length (b3_hash b3 key) = 32"
    and hex_length: "length d = 32 \<Longrightarrow> length (b3_to_hex b3 d) = 64"
    and hex_digits: "set (b3_to_hex b3 d) \<subseteq> lower_hex"
    and hex_inj: "length d = 32 \<Longrightarrow> length d' = 32 \<Longrightarrow> b3_to_hex b3 d = b3_to_hex b3 d' \<Longrightarrow> d = d'"

section \<open>Canonical names\<close>

definition blob_filename :: "blake3 \<Rightarrow> format_identity \<Rightarrow> bytes \<Rightarrow> string" where
  "blob_filename b3 fmt canonical_key =
     b3_to_hex b3 (b3_hash b3 canonical_key) @ filename_suffix fmt"

definition key_hash :: "blake3 \<Rightarrow> bytes \<Rightarrow> bytes" where
  "key_hash b3 canonical_key = b3_hash b3 canonical_key"

definition validate_namespace :: "string \<Rightarrow> store_error + path" where
  "validate_namespace namespace =
    (case components namespace of
       [Normal component] \<Rightarrow>
         if component \<noteq> [] then Inr (relative component) else Inl (Configuration InvalidNamespace)
     | _ \<Rightarrow> Inl (Configuration InvalidNamespace))"

definition validate_maximum :: "u64 \<Rightarrow> store_error + unit" where
  "validate_maximum maximum =
    (case checked_add maximum (of_nat (HEADER_LEN + CHECKSUM_LEN)) of
       None \<Rightarrow> Inl (Configuration (InvalidMaximumBlobSize maximum))
     | Some _ \<Rightarrow> Inr ())"

text \<open>\<^verbatim>\<open>StoreConfig\<close> of \<^verbatim>\<open>src/engine/mod.rs\<close>, without the test and benchmark hooks.\<close>

record store_config =
  namespace :: path
  format :: format_identity
  maximum :: u64
  cfg_max_concurrent :: nat

lemma validate_maximum_ok_iff: "validate_maximum m = Inr () \<longleftrightarrow> unat m + 22 < 2 ^ 64"
  by (simp add: validate_maximum_def checked_add_def const_defs)

text \<open>A namespace that passes is one proper name: no separator, not \<^verbatim>\<open>.\<close> or \<^verbatim>\<open>..\<close>.\<close>

definition proper_name :: "string \<Rightarrow> bool" where
  "proper_name c \<longleftrightarrow> c \<noteq> [] \<and> CHR ''/'' \<notin> set c \<and> c \<noteq> ''.'' \<and> c \<noteq> ''..''"

lemma component_of_Normal: "Normal c \<in> set (component_of p) \<longleftrightarrow> c = p \<and> p \<noteq> [] \<and> p \<noteq> ''.'' \<and> p \<noteq> ''..''"
  by (auto simp: component_of_def)

lemma validate_namespace_ok:
  assumes "validate_namespace ns = Inr p"
  shows "\<exists>c. p = relative c \<and> proper_name c"
proof -
  from assms obtain c where cs: "components ns = [Normal c]" and p: "p = relative c"
    by (auto simp: validate_namespace_def split: list.splits component.splits if_splits)
  have "Normal c \<in> set (components ns)" by (simp add: cs)
  then obtain q where "q \<in> set (split_slash ns)" and "Normal c \<in> set (component_of q)"
    by (auto simp: components_def Let_def split: if_splits)
  then have "proper_name c"
    using split_slash_no_slash by (auto simp: proper_name_def component_of_Normal)
  with p show ?thesis by blast
qed

lemma validate_namespace_proper: "proper_name c \<Longrightarrow> validate_namespace c = Inr (relative c)"
  by (cases c) (auto simp: validate_namespace_def components_def split_slash_id proper_name_def
      component_of_def Let_def)

context blake3_spec
begin

lemma blob_filename_length:
  "length (blob_filename b3 fmt key) = 64 + length (filename_suffix fmt)"
  by (simp add: blob_filename_def hex_length hash_length)

lemma blob_filename_eq_iff:
  "blob_filename b3 fmt key = blob_filename b3 fmt key' \<longleftrightarrow> key_hash b3 key = key_hash b3 key'"
  unfolding blob_filename_def key_hash_def using hex_inj hash_length by auto

lemma hex_no_dot: "CHR ''.'' \<notin> set (b3_to_hex b3 d)"
  using hex_digits [of d] by (auto simp: lower_hex_def)

lemma hex_no_slash: "CHR ''/'' \<notin> set (b3_to_hex b3 d)"
  using hex_digits [of d] by (auto simp: lower_hex_def)

lemma stem_of_canonical:
  assumes "valid_suffix sfx" and "length d = 32"
  shows "name_stem (b3_to_hex b3 d @ sfx) = b3_to_hex b3 d"
proof -
  from assms(1) obtain r where "sfx = CHR ''.'' # r" and "CHR ''.'' \<notin> set r"
    by (rule valid_suffix_dots)
  moreover have "b3_to_hex b3 d \<noteq> []"
    using hex_length [OF assms(2)] by auto
  ultimately show ?thesis using name_stem_dot hex_no_dot by simp
qed

lemma canonical_name:
  assumes "valid_format fmt"
  shows "length (blob_filename b3 fmt key) \<le> 96 \<and> CHR ''/'' \<notin> set (blob_filename b3 fmt key)
    \<and> name_stem (blob_filename b3 fmt key) = b3_to_hex b3 (key_hash b3 key)"
proof -
  from assms have sfx: "valid_suffix (filename_suffix fmt)" by (simp add: valid_format_def)
  have "CHR ''/'' \<notin> set (filename_suffix fmt)"
    using sfx unfolding valid_suffix_alphabet by (auto simp: suffix_alphabet_def)
  then show ?thesis
    using stem_of_canonical [OF sfx hash_length] sfx hex_no_slash blob_filename_length [of fmt key]
    by (auto simp: blob_filename_def key_hash_def valid_suffix_def)
qed

end

end
