(* ===== verification/Envelope.thy ===== *)
theory Envelope
  imports Blob_Path
begin

text \<open>
  The version-1 envelope, \<^verbatim>\<open>src/format.rs\<close>: the encoder, the streaming writer, and the two
  readers (the allocating decoder and the constant-memory validator). CRC32C is a crate outside
  the repository: \<^verbatim>\<open>crc32c\<close> and \<^verbatim>\<open>crc32c_append\<close> are fields of a parameter, and locale
  \<open>crc32c_spec\<close> states the documented law that appending continues a checksum.

  A \<^verbatim>\<open>Read\<close> is the sequence of what its \<^verbatim>\<open>read\<close> calls deliver: \<open>Inr bs\<close> is data (\<open>Inr []\<close> is
  \<^verbatim>\<open>Ok(0)\<close>), \<open>Inl e\<close> a failing call, and the end of the list is end of file. A call with a
  shorter buffer leaves the rest of the segment for the next call. Every finite behaviour of a
  reader, short reads and interruptions included, is such a list. A \<^verbatim>\<open>Write\<close> is a state with a
  \<^verbatim>\<open>write_all\<close> operation.
\<close>

section \<open>Readers\<close>

type_synonym reader = "(io_error + bytes) list"

definition eof_error :: io_error where
  "eof_error = IoError UnexpectedEof None"

text \<open>\<^verbatim>\<open>Read::read\<close> with a buffer of \<open>n\<close> bytes.\<close>

fun read_some :: "nat \<Rightarrow> reader \<Rightarrow> (io_error + bytes) \<times> reader" where
  "read_some n [] = (Inr [], [])"
| "read_some n (Inl e # r) = (Inl e, r)"
| "read_some n (Inr bs # r) =
     (if length bs \<le> n then (Inr bs, r) else (Inr (take n bs), Inr (drop n bs) # r))"

text \<open>\<^verbatim>\<open>Read::read_exact\<close>: repeat \<^verbatim>\<open>read\<close>, retry interruptions, report a premature end.\<close>

fun read_exact :: "nat \<Rightarrow> reader \<Rightarrow> (io_error + bytes) \<times> reader" where
  "read_exact 0 r = (Inr [], r)"
| "read_exact (Suc n) [] = (Inl eof_error, [])"
| "read_exact (Suc n) (Inl e # r) =
     (if kind e = Interrupted then read_exact (Suc n) r else (Inl e, r))"
| "read_exact (Suc n) (Inr bs # r) =
     (if bs = [] then (Inl eof_error, r)
      else if length bs \<le> Suc n then
        (case read_exact (Suc n - length bs) r of
           (Inl e, r') \<Rightarrow> (Inl e, r')
         | (Inr ys, r') \<Rightarrow> (Inr (bs @ ys), r'))
      else (Inr (take (Suc n) bs), Inr (drop (Suc n) bs) # r))"

definition read_section :: "nat \<Rightarrow> envelope_section \<Rightarrow> reader \<Rightarrow> (store_error + bytes) \<times> reader" where
  "read_section n sect r =
    (case read_exact n r of
       (Inr bs, r') \<Rightarrow> (Inr bs, r')
     | (Inl e, r') \<Rightarrow>
         if kind e = UnexpectedEof then (Inl (TruncatedEnvelope sect), r')
         else (Inl (Io ReadEnvelope e), r'))"

text \<open>The probe for trailing data that ends both readers.\<close>

definition read_end :: "reader \<Rightarrow> store_error + unit" where
  "read_end r =
    (case fst (read_some 1 r) of
       Inr bs \<Rightarrow> if bs = [] then Inr () else Inl TrailingData
     | Inl e \<Rightarrow> Inl (Io ReadEnvelope e))"

section \<open>CRC32C as an interface\<close>

record crc32c =
  crc :: "bytes \<Rightarrow> u32"
  crc_append :: "u32 \<Rightarrow> bytes \<Rightarrow> u32"

locale crc32c_spec =
  fixes c :: crc32c
  assumes crc_append: "crc_append c (crc c xs) ys = crc c (xs @ ys)"

section \<open>Encoding\<close>

definition envelope_header :: "format_identity \<Rightarrow> u64 \<Rightarrow> u64 \<Rightarrow> store_error + bytes" where
  "envelope_header fmt sz limit =
    (if sz > limit then Inl (BlobTooLarge sz limit)
     else Inr (domain_tag fmt @ u16_to_be_bytes (envelope_version fmt) @ u64_to_be_bytes sz))"

definition envelope_parts ::
    "crc32c \<Rightarrow> format_identity \<Rightarrow> bytes \<Rightarrow> u64 \<Rightarrow> store_error + bytes \<times> bytes" where
  "envelope_parts c fmt payload limit =
    (case u64_try_from (length payload) of
       None \<Rightarrow> Inl (InvalidPayloadLength (-1))
     | Some sz \<Rightarrow>
         (case envelope_header fmt sz limit of
            Inl e \<Rightarrow> Inl e
          | Inr header \<Rightarrow>
              Inr (header, u32_to_be_bytes (crc_append c (crc c header) payload))))"

definition encode_envelope ::
    "crc32c \<Rightarrow> format_identity \<Rightarrow> bytes \<Rightarrow> u64 \<Rightarrow> store_error + bytes" where
  "encode_envelope c fmt payload limit =
    (case envelope_parts c fmt payload limit of
       Inl e \<Rightarrow> Inl e
     | Inr (header, checksum) \<Rightarrow> Inr (header @ payload @ checksum))"

section \<open>Streaming writer\<close>

datatype save_stream_message = Chunk bytes | Complete

text \<open>
  The receive loop: the list is what \<^verbatim>\<open>recv\<close> returns, its end the disconnected channel. A chunk
  is a \<^verbatim>\<open>Vec\<close>, so its length fits in a \<^verbatim>\<open>u64\<close>.
\<close>

fun stream_chunks ::
    "crc32c \<Rightarrow> (bytes \<Rightarrow> 'w \<Rightarrow> (io_error + unit) \<times> 'w) \<Rightarrow> u64 \<Rightarrow> u32 \<Rightarrow> u64
     \<Rightarrow> save_stream_message list \<Rightarrow> 'w \<Rightarrow> (store_error + unit) \<times> 'w" where
  "stream_chunks c write_all declared checksum written [] w = (Inl StreamCancelled, w)"
| "stream_chunks c write_all declared checksum written (Chunk chunk # ms) w =
     (let count = of_nat (length chunk) in
      (case checked_add written count of
        None \<Rightarrow> (Inl (InputHasTrailingData declared), w)
      | Some so_far \<Rightarrow>
          (if so_far > declared then (Inl (InputHasTrailingData declared), w)
           else (case write_all chunk w of
            (Inl e, w') \<Rightarrow> (Inl (Io WriteEnvelope e), w')
          | (Inr _, w') \<Rightarrow>
              stream_chunks c write_all declared (crc_append c checksum chunk) (written + count) ms w'))))"
| "stream_chunks c write_all declared checksum written (Complete # ms) w =
     (if written \<noteq> declared then (Inl (InputEndedEarly declared written), w)
      else case write_all (u32_to_be_bytes checksum) w of
        (Inl e, w') \<Rightarrow> (Inl (Io WriteEnvelope e), w')
      | (Inr _, w') \<Rightarrow> (Inr (), w'))"

definition write_stream_envelope ::
    "crc32c \<Rightarrow> (bytes \<Rightarrow> 'w \<Rightarrow> (io_error + unit) \<times> 'w) \<Rightarrow> store_config \<Rightarrow> 'w \<Rightarrow> u64
     \<Rightarrow> save_stream_message list \<Rightarrow> (store_error + unit) \<times> 'w" where
  "write_stream_envelope c write_all config w declared_len chunks =
    (case envelope_header (format config) declared_len (maximum config) of
       Inl e \<Rightarrow> (Inl e, w)
     | Inr header \<Rightarrow>
         (case write_all header w of
            (Inl e, w') \<Rightarrow> (Inl (Io WriteEnvelope e), w')
          | (Inr _, w') \<Rightarrow> stream_chunks c write_all declared_len (crc c header) 0 chunks w'))"

section \<open>Streaming validation\<close>

text \<open>
  \<^verbatim>\<open>usize\<close> has at least 32 bits on the supported platforms, so the request
  \<^verbatim>\<open>usize::try_from(remaining).unwrap_or(usize::MAX).min(STREAM_CHUNK_SIZE)\<close> is the smaller of
  the two numbers.
\<close>

function validate_payload ::
    "crc32c \<Rightarrow> nat \<Rightarrow> u32 \<Rightarrow> reader \<Rightarrow> (store_error + u32) \<times> reader" where
  "validate_payload c remaining actual r =
    (if remaining = 0 then (Inr actual, r)
     else let requested = min remaining STREAM_CHUNK_SIZE in
       case read_section requested Payload r of
         (Inl e, r') \<Rightarrow> (Inl e, r')
       | (Inr chunk, r') \<Rightarrow>
           validate_payload c (remaining - requested) (crc_append c actual chunk) r')"
  by pat_completeness auto
termination
  by (relation "measure (\<lambda>(c, remaining, actual, r). remaining)")
    (auto simp: STREAM_CHUNK_SIZE_def)

declare validate_payload.simps [simp del]

definition validate_envelope_reader ::
    "crc32c \<Rightarrow> format_identity \<Rightarrow> reader \<Rightarrow> u64 \<Rightarrow> (store_error + blob_metadata) \<times> reader" where
  "validate_envelope_reader c fmt r limit =
    (case read_section DOMAIN_TAG_LEN Magic r of
       (Inl e, r1) \<Rightarrow> (Inl e, r1)
     | (Inr found, r1) \<Rightarrow>
    if found \<noteq> domain_tag fmt then (Inl (InvalidEnvelopeDomain (domain_tag fmt) found), r1)
    else case read_section 2 Version r1 of
       (Inl e, r2) \<Rightarrow> (Inl e, r2)
     | (Inr vbytes, r2) \<Rightarrow>
    let version = u16_from_be_bytes vbytes in
    if version \<noteq> envelope_version fmt then (Inl (UnsupportedEnvelopeVersion version), r2)
    else case read_section 8 PayloadLength r2 of
       (Inl e, r3) \<Rightarrow> (Inl e, r3)
     | (Inr lbytes, r3) \<Rightarrow>
    let declared = u64_from_be_bytes lbytes in
    if declared > limit then (Inl (BlobTooLarge declared limit), r3)
    else case validate_payload c (unat declared) (crc c (found @ vbytes @ lbytes)) r3 of
       (Inl e, r4) \<Rightarrow> (Inl e, r4)
     | (Inr actual, r4) \<Rightarrow>
    case read_section CHECKSUM_LEN Checksum r4 of
       (Inl e, r5) \<Rightarrow> (Inl e, r5)
     | (Inr cbytes, r5) \<Rightarrow>
    case read_end r5 of
       Inl e \<Rightarrow> (Inl e, r5)
     | Inr _ \<Rightarrow>
    let expected = u32_from_be_bytes cbytes in
    if expected \<noteq> actual then (Inl (ChecksumMismatch expected actual), r5)
    else (Inr \<lparr>payload_len = declared\<rparr>, r5))"

section \<open>Allocating decoder\<close>

text \<open>\<open>usize_max\<close> is \<^verbatim>\<open>usize::MAX\<close> of the target.\<close>

definition decode_reader_with_usize_limit ::
    "nat \<Rightarrow> crc32c \<Rightarrow> format_identity \<Rightarrow> reader \<Rightarrow> u64 \<Rightarrow> u64 \<Rightarrow> (store_error + bytes) \<times> reader" where
  "decode_reader_with_usize_limit usize_max c fmt r limit usize_limit =
    (case read_section 8 Magic r of
       (Inl e, r1) \<Rightarrow> (Inl e, r1)
     | (Inr magic, r1) \<Rightarrow>
    if magic \<noteq> domain_tag fmt then (Inl (InvalidEnvelopeDomain (domain_tag fmt) magic), r1)
    else case read_section 2 Version r1 of
       (Inl e, r2) \<Rightarrow> (Inl e, r2)
     | (Inr vbytes, r2) \<Rightarrow>
    let version = u16_from_be_bytes vbytes in
    if version \<noteq> envelope_version fmt then (Inl (UnsupportedEnvelopeVersion version), r2)
    else case read_section 8 PayloadLength r2 of
       (Inl e, r3) \<Rightarrow> (Inl e, r3)
     | (Inr lbytes, r3) \<Rightarrow>
    let declared = u64_from_be_bytes lbytes in
    if declared > limit then (Inl (BlobTooLarge declared limit), r3)
    else if declared > usize_limit then (Inl (InvalidPayloadLength declared), r3)
    else if unat declared > usize_max \<or> unat declared + (HEADER_LEN + CHECKSUM_LEN) > usize_max
    then (Inl (InvalidPayloadLength declared), r3)
    else case read_section (unat declared) Payload r3 of
       (Inl e, r4) \<Rightarrow> (Inl e, r4)
     | (Inr payload, r4) \<Rightarrow>
    case read_section 4 Checksum r4 of
       (Inl e, r5) \<Rightarrow> (Inl e, r5)
     | (Inr cbytes, r5) \<Rightarrow>
    case read_end r5 of
       Inl e \<Rightarrow> (Inl e, r5)
     | Inr _ \<Rightarrow>
    let actual0 = crc c (domain_tag fmt);
        actual1 = crc_append c actual0 (u16_to_be_bytes (envelope_version fmt));
        actual2 = crc_append c actual1 (u64_to_be_bytes declared);
        actual = crc_append c actual2 payload;
        expected = u32_from_be_bytes cbytes in
    if expected \<noteq> actual then (Inl (ChecksumMismatch expected actual), r5)
    else (Inr payload, r5))"

definition decode_reader ::
    "nat \<Rightarrow> crc32c \<Rightarrow> format_identity \<Rightarrow> reader \<Rightarrow> u64 \<Rightarrow> (store_error + bytes) \<times> reader" where
  "decode_reader usize_max c fmt r limit =
     decode_reader_with_usize_limit usize_max c fmt r limit (of_nat usize_max)"

end
