(* ===== verification/Envelope_Facts.thy ===== *)
theory Envelope_Facts
  imports Envelope
begin

text \<open>
  Facts about the envelope: how reads compose, that both readers agree on every input, that the
  encoder and the readers are inverse, and that the streaming writer produces the encoder's
  bytes. \<open>envelope_layout\<close> is the byte layout of \<^verbatim>\<open>FORMAT.md\<close>, the reference both are compared to.
\<close>

section \<open>Reference layout\<close>

definition header_layout :: "format_identity \<Rightarrow> u64 \<Rightarrow> bytes" where
  "header_layout fmt n = domain_tag fmt @ u16_to_be_bytes (envelope_version fmt) @ u64_to_be_bytes n"

definition envelope_layout :: "crc32c \<Rightarrow> format_identity \<Rightarrow> bytes \<Rightarrow> bytes" where
  "envelope_layout c fmt payload =
    (let covered = header_layout fmt (of_nat (length payload)) @ payload
     in covered @ u32_to_be_bytes (crc c covered))"

text \<open>What a reader delivers in all, and the readers that deliver it: no failure but
  interruptions, no premature \<^verbatim>\<open>Ok(0)\<close>, no interruption once the data is out.\<close>

fun contents :: "reader \<Rightarrow> bytes" where
  "contents [] = []"
| "contents (Inl e # r) = contents r"
| "contents (Inr bs # r) = bs @ contents r"

fun gentle :: "io_error + bytes \<Rightarrow> bool" where
  "gentle (Inl e) = (kind e = Interrupted)"
| "gentle (Inr bs) = (bs \<noteq> [])"

definition steady :: "reader \<Rightarrow> bool" where
  "steady r \<longleftrightarrow> list_all gentle r \<and> (r \<noteq> [] \<longrightarrow> isl (last r) = False)"

text \<open>No call fails at all.\<close>

definition calm :: "reader \<Rightarrow> bool" where
  "calm r \<longleftrightarrow> list_all (\<lambda>x. \<not> isl x) r"

section \<open>Reads\<close>

lemma read_exact_add:
  "read_exact (a + b) r =
    (case read_exact a r of
       (Inl e, r') \<Rightarrow> (Inl e, r')
     | (Inr xs, r') \<Rightarrow>
         (case read_exact b r' of
            (Inl e, r'') \<Rightarrow> (Inl e, r'')
          | (Inr ys, r'') \<Rightarrow> (Inr (xs @ ys), r'')))"
proof (induction r arbitrary: a b)
  case Nil
  show ?case by (cases a; cases b) auto
next
  case (Cons x r)
  show ?case
  proof (cases a)
    case 0
    then show ?thesis by (auto split: prod.splits sum.splits)
  next
    case (Suc m)
    show ?thesis
    proof (cases x)
      case (Inl e)
      with Suc Cons.IH [of a b] show ?thesis by simp
    next
      case (Inr bs)
      consider "bs = []" | "bs \<noteq> []" "length bs \<le> a" | "bs \<noteq> []" "a < length bs" "length bs \<le> a + b"
        | "bs \<noteq> []" "a + b < length bs"
        by linarith
      then show ?thesis
      proof cases
        case 1
        with Suc Inr show ?thesis by simp
      next
        case 2
        then have "a + b - length bs = (a - length bs) + b" by simp
        with 2 Suc Inr Cons.IH [of "a - length bs" b] show ?thesis
          by (auto split: prod.splits sum.splits)
      next
        case 3
        then obtain k where b: "b = Suc k" and k: "Suc k - (length bs - a) = a + b - length bs"
          by (cases b) auto
        from 3 have "bs = take a bs @ drop a bs" and "length (drop a bs) \<le> b" by auto
        with 3 Suc Inr b show ?thesis
          by (auto simp: add.commute [of k m] append_assoc [symmetric]
              simp del: append_assoc split: prod.splits sum.splits)
      next
        case 4
        have "take (a + b) bs = take a bs @ take b (drop a bs)" by (rule take_add)
        moreover have "drop (a + b) bs = drop b (drop a bs)" by (simp add: add.commute)
        ultimately show ?thesis using 4 Suc Inr by (cases b) auto
      qed
    qed
  qed
qed

lemma read_exact_Inr:
  "read_exact n r = (Inr xs, r') \<Longrightarrow> length xs = n \<and> contents r = xs @ contents r'"
proof (induction n r arbitrary: xs r' rule: read_exact.induct)
  case (4 n bs r)
  show ?case
  proof (cases "length bs \<le> Suc n")
    case True
    with "4.prems" obtain ys where bs: "bs \<noteq> []"
      and r: "read_exact (Suc n - length bs) r = (Inr ys, r')" and xs: "xs = bs @ ys"
      by (auto split: if_splits prod.splits sum.splits)
    from "4.IH" [OF bs True r] True show ?thesis by (simp add: xs)
  next
    case False
    with "4.prems" show ?thesis by (auto split: if_splits)
  qed
qed (auto split: if_splits)

lemma steady_Cons: "steady (x # r) \<longleftrightarrow> gentle x \<and> steady r \<and> (r = [] \<longrightarrow> \<not> isl x)"
  by (auto simp: steady_def)

lemma steady_empty: "steady r \<Longrightarrow> contents r = [] \<longleftrightarrow> r = []"
proof (induction r)
  case (Cons x r)
  then show ?case by (cases x) (auto simp: steady_Cons)
qed simp

lemma read_exact_steady:
  assumes "steady r" and "n \<le> length (contents r)"
  shows "\<exists>r'. read_exact n r = (Inr (take n (contents r)), r') \<and> steady r'
           \<and> contents r' = drop n (contents r)"
  using assms
proof (induction n r rule: read_exact.induct)
  case (3 n e r)
  then show ?case by (auto simp: steady_Cons)
next
  case (4 n bs r)
  show ?case
  proof (cases "length bs \<le> Suc n")
    case True
    with 4 have "bs \<noteq> []" and "steady r" and "Suc n - length bs \<le> length (contents r)"
      by (auto simp: steady_Cons)
    with 4(1) True obtain r' where
      "read_exact (Suc n - length bs) r = (Inr (take (Suc n - length bs) (contents r)), r')"
      and "steady r'" and "contents r' = drop (Suc n - length bs) (contents r)"
      by blast
    with True \<open>bs \<noteq> []\<close> show ?thesis by simp
  next
    case False
    with 4 show ?thesis by (auto simp: steady_Cons)
  qed
qed auto

lemma read_exact_short:
  assumes "steady r" and "length (contents r) < n"
  shows "\<exists>r'. read_exact n r = (Inl eof_error, r')"
  using assms
proof (induction n r rule: read_exact.induct)
  case (4 n bs r)
  then have "bs \<noteq> []" and "length bs \<le> Suc n" and "steady r"
    and "length (contents r) < Suc n - length bs"
    by (auto simp: steady_Cons)
  with 4(1) show ?case by fastforce
qed (auto simp: steady_Cons)

lemma read_section_steady:
  assumes "steady r" and "n \<le> length (contents r)"
  obtains r' where "read_section n s r = (Inr (take n (contents r)), r')" and "steady r'"
    and "contents r' = drop n (contents r)"
  using read_exact_steady [OF assms] by (auto simp: read_section_def)

lemma read_section_Inr:
  "read_section n s r = (Inr xs, r') \<Longrightarrow> length xs = n \<and> contents r = xs @ contents r'"
  by (auto simp: read_section_def dest: read_exact_Inr split: prod.splits sum.splits if_splits)

lemma read_section_add:
  "read_section (a + b) s r =
    (case read_section a s r of
       (Inl e, r') \<Rightarrow> (Inl e, r')
     | (Inr xs, r') \<Rightarrow>
         (case read_section b s r' of
            (Inl e, r'') \<Rightarrow> (Inl e, r'')
          | (Inr ys, r'') \<Rightarrow> (Inr (xs @ ys), r'')))"
  by (auto simp: read_section_def read_exact_add split: prod.splits sum.splits)

lemma read_section_0 [simp]: "read_section 0 s r = (Inr [], r)"
  by (simp add: read_section_def)

lemma read_exact_calm: "calm r \<Longrightarrow> calm (snd (read_exact n r))"
proof (induction n r rule: read_exact.induct)
  case (4 n bs r)
  then show ?case by (auto simp: calm_def split: prod.splits sum.splits)
qed (auto simp: calm_def)

text \<open>Failing calls behind the last byte: no read of a section sees them, the probe for trailing
  data does.\<close>

lemma read_exact_gentle:
  "read_exact n r = (Inr xs, r') \<Longrightarrow> list_all gentle r \<Longrightarrow> list_all gentle r'"
proof (induction n r arbitrary: xs r' rule: read_exact.induct)
  case (4 n bs r)
  show ?case
  proof (cases "length bs \<le> Suc n")
    case True
    with "4.prems" obtain ys where "bs \<noteq> []"
      and "read_exact (Suc n - length bs) r = (Inr ys, r')" and "list_all gentle r"
      by (auto split: prod.splits sum.splits)
    with "4.IH" True show ?thesis by blast
  next
    case False
    with "4.prems" show ?thesis by (auto split: if_splits)
  qed
qed (auto split: if_splits)

lemma read_exact_interrupted:
  "list_all (\<lambda>x. isl x \<and> gentle x) tail \<Longrightarrow> read_exact (Suc n) tail = (Inl eof_error, [])"
proof (induction tail)
  case (Cons x tail)
  then show ?case by (cases x) auto
qed simp

lemma read_exact_append:
  assumes "list_all (\<lambda>x. isl x \<and> gentle x) tail"
  shows "fst (read_exact n (r @ tail)) = fst (read_exact n r)
    \<and> (\<forall>bs r'. read_exact n r = (Inr bs, r') \<longrightarrow> read_exact n (r @ tail) = (Inr bs, r' @ tail))"
proof (induction n r rule: read_exact.induct)
  case (2 n)
  then show ?case using read_exact_interrupted [OF assms] by simp
next
  case (4 n bs r)
  show ?case
  proof (cases "bs \<noteq> [] \<and> length bs \<le> Suc n")
    case True
    with 4 show ?thesis by (auto split: prod.splits sum.splits)
  next
    case False
    then show ?thesis by auto
  qed
qed auto

lemma read_section_append:
  assumes "list_all (\<lambda>x. isl x \<and> gentle x) tail"
  shows "fst (read_section n sect (r @ tail)) = fst (read_section n sect r)"
    and "read_section n sect r = (Inr bs, r') \<Longrightarrow> read_section n sect (r @ tail) = (Inr bs, r' @ tail)"
  using read_exact_append [OF assms, of n r]
  by (auto simp: read_section_def split: prod.splits sum.splits if_splits)

lemma read_section_gentle:
  "read_section n sect r = (Inr bs, r') \<Longrightarrow> list_all gentle r \<Longrightarrow> list_all gentle r'"
  by (auto simp: read_section_def dest: read_exact_gentle split: prod.splits sum.splits if_splits)

lemma read_end_append:
  assumes "list_all gentle r" and "tail = Inl e # is"
  shows "read_end r = Inr () \<Longrightarrow> read_end (r @ tail) = Inl (Io ReadEnvelope e)"
    and "read_end r = Inl x \<Longrightarrow> read_end (r @ tail) = Inl x"
  using assms by (cases r rule: contents.cases; auto simp: read_end_def split: if_splits)+

lemma read_end_steady:
  assumes "steady r"
  shows "contents r = [] \<Longrightarrow> read_end r = Inr ()"
    and "contents r \<noteq> [] \<Longrightarrow> (\<exists>e. read_end r = Inl e \<and> (calm r \<longrightarrow> e = TrailingData))"
proof -
  show "read_end r = Inr ()" if "contents r = []"
    using assms that by (simp add: steady_empty read_end_def)
  show "\<exists>e. read_end r = Inl e \<and> (calm r \<longrightarrow> e = TrailingData)" if "contents r \<noteq> []"
  proof (cases r)
    case (Cons x rs)
    with assms show ?thesis
      by (cases x) (auto simp: steady_Cons read_end_def calm_def)
  qed (use that in simp)
qed

section \<open>The readers agree\<close>

lemma split_be16: "length vb = 2 \<Longrightarrow> u16_from_be_bytes vb = v \<Longrightarrow> u16_to_be_bytes v = vb"
  using to_from_be_bytes(1) by blast

lemma split_be64: "length lb = 8 \<Longrightarrow> u64_to_be_bytes (u64_from_be_bytes lb) = lb"
  by (rule to_from_be_bytes)

lemma usize_limit_ok:
  assumes "unat limit + 22 \<le> usize_max" and "usize_max < 2 ^ 64" and "\<not> limit < (n :: u64)"
  shows "\<not> of_nat usize_max < n"
    and "\<not> (usize_max < unat n \<or> usize_max < unat n + (HEADER_LEN + CHECKSUM_LEN))"
  using assms by (auto simp: word_less_nat_alt const_defs)

text \<open>Congruences to walk through both readers section by section.\<close>

lemma section_cong:
  assumes "\<And>xs r'. read_section n s r = (Inr xs, r') \<Longrightarrow> length xs = n \<Longrightarrow>
             F xs r' = map_prod (map_sum id h) id (G xs r')"
  shows "(case read_section n s r of (Inl e, r') \<Rightarrow> (Inl e, r') | (Inr xs, r') \<Rightarrow> F xs r') =
    map_prod (map_sum id h) id
      (case read_section n s r of (Inl e, r') \<Rightarrow> (Inl e, r') | (Inr xs, r') \<Rightarrow> G xs r')"
  using assms read_section_Inr by (fastforce split: prod.splits sum.splits)

lemma guard_cong:
  assumes "\<not> b \<Longrightarrow> X = map_prod (map_sum id h) id Y"
  shows "(if b then (Inl e, r) else X) = map_prod (map_sum id h) id (if b then (Inl e, r) else Y)"
  using assms by simp

lemma guard_drop: "\<not> b \<Longrightarrow> X = m Y \<Longrightarrow> X = m (if b then Z else Y)"
  by simp

lemma end_cong:
  assumes "X = map_prod (map_sum id h) id Y"
  shows "(case t of Inl e \<Rightarrow> (Inl e, r) | Inr _ \<Rightarrow> X) =
    map_prod (map_sum id h) id (case t of Inl e \<Rightarrow> (Inl e, r) | Inr _ \<Rightarrow> Y)"
  using assms by (cases t) auto

lemma payload_cong:
  assumes "\<And>xs r'. read_section n s r = (Inr xs, r') \<Longrightarrow> length xs = n \<Longrightarrow>
             F (g xs) r' = map_prod (map_sum id h) id (G xs r')"
  shows "(case (case read_section n s r of (Inl e, r') \<Rightarrow> (Inl e, r') | (Inr xs, r') \<Rightarrow> (Inr (g xs), r'))
      of (Inl e, r') \<Rightarrow> (Inl e, r') | (Inr y, r') \<Rightarrow> F y r') =
    map_prod (map_sum id h) id
      (case read_section n s r of (Inl e, r') \<Rightarrow> (Inl e, r') | (Inr xs, r') \<Rightarrow> G xs r')"
  using assms read_section_Inr by (fastforce split: prod.splits sum.splits)

context crc32c_spec
begin

text \<open>The chunked pass computes what one read of the whole payload would.\<close>

lemma validate_payload_eq:
  "validate_payload c n (crc c xs) r =
    (case read_section n Payload r of
       (Inl e, r') \<Rightarrow> (Inl e, r')
     | (Inr payload, r') \<Rightarrow> (Inr (crc c (xs @ payload)), r'))"
proof (induction n arbitrary: xs r rule: less_induct)
  case (less n)
  show ?case
  proof (cases "n = 0")
    case True
    then show ?thesis by (simp add: validate_payload.simps)
  next
    case False
    let ?k = "min n STREAM_CHUNK_SIZE"
    from False have lt: "n - ?k < n" by (simp add: STREAM_CHUNK_SIZE_def)
    have n: "n = ?k + (n - ?k)" by simp
    show ?thesis
      by (subst n, subst read_section_add, subst validate_payload.simps)
        (use False in \<open>auto simp: Let_def crc_append less.IH [OF lt] split: prod.splits sum.splits\<close>)
  qed
qed

lemma readers_agree:
  assumes "unat limit + 22 \<le> usize_max" and "usize_max < 2 ^ 64"
  shows "validate_envelope_reader c fmt r limit =
    map_prod (map_sum id (\<lambda>p. \<lparr>payload_len = of_nat (length p)\<rparr>)) id (decode_reader usize_max c fmt r limit)"
  unfolding validate_envelope_reader_def decode_reader_def decode_reader_with_usize_limit_def
    Let_def validate_payload_eq DOMAIN_TAG_LEN_def CHECKSUM_LEN_def
  apply (rule section_cong, rule guard_cong)
  apply (rule section_cong, rule guard_cong)
  apply (rule section_cong, rule guard_cong)
  apply (rule guard_drop, erule usize_limit_ok(1) [OF assms])
  apply (rule guard_drop, erule usize_limit_ok(2) [OF assms, unfolded CHECKSUM_LEN_def])
  apply (rule payload_cong, rule section_cong, rule end_cong)
  apply (simp add: crc_append split_be64 split_be16)
  done

end

text \<open>The same without a bound on the configured maximum: the decoder holds the payload in memory and
  refuses a length that is no \<^verbatim>\<open>usize\<close> with its overhead, which the validator has no need to.\<close>

definition readers_verdict ::
    "nat \<Rightarrow> u64 \<Rightarrow> (store_error + blob_metadata) \<times> reader \<Rightarrow> (store_error + bytes) \<times> reader \<Rightarrow> bool" where
  "readers_verdict usize_max limit V D \<longleftrightarrow>
    (case D of
       (Inr payload, rest) \<Rightarrow> length payload + 22 \<le> usize_max
         \<and> V = (Inr \<lparr>payload_len = of_nat (length payload)\<rparr>, rest)
     | (Inl (InvalidPayloadLength n), rest) \<Rightarrow> n \<le> limit \<and> usize_max < unat n + 22
         \<and> (\<forall>m. fst V \<noteq> Inl (InvalidPayloadLength m)) \<and> (\<forall>m. fst V = Inr m \<longrightarrow> payload_len m = n)
     | (Inl e, rest) \<Rightarrow> V = (Inl e, rest))"

lemma read_section_error:
  "read_section n s r \<noteq> (Inl (InvalidPayloadLength m), r')"
  by (auto simp: read_section_def split: prod.splits sum.splits)

lemma read_end_error: "read_end r \<noteq> Inl (InvalidPayloadLength m)"
  by (auto simp: read_end_def split: sum.splits)

lemma readers_verdict_Inl:
  "(\<And>n. e \<noteq> InvalidPayloadLength n) \<Longrightarrow> readers_verdict usize_max limit (Inl e, r) (Inl e, r)"
  by (cases e) (auto simp: readers_verdict_def)

lemma verdict_section:
  assumes "\<And>xs r'. read_section n s r = (Inr xs, r') \<Longrightarrow> length xs = n \<Longrightarrow>
             readers_verdict usize_max limit (F xs r') (G xs r')"
  shows "readers_verdict usize_max limit
    (case read_section n s r of (Inl e, r') \<Rightarrow> (Inl e, r') | (Inr xs, r') \<Rightarrow> F xs r')
    (case read_section n s r of (Inl e, r') \<Rightarrow> (Inl e, r') | (Inr xs, r') \<Rightarrow> G xs r')"
proof (cases "read_section n s r")
  case (Pair res r')
  then show ?thesis
    using assms read_section_Inr [of n s r] read_section_error [of n s r]
    by (cases res) (auto intro: readers_verdict_Inl)
qed

lemma verdict_guard:
  assumes "\<not> b \<Longrightarrow> readers_verdict usize_max limit X Y" and "\<And>n. e \<noteq> InvalidPayloadLength n"
  shows "readers_verdict usize_max limit (if b then (Inl e, r) else X) (if b then (Inl e, r) else Y)"
  using assms by (simp add: readers_verdict_Inl)

lemma verdict_overflow:
  assumes "b \<Longrightarrow> n \<le> limit \<and> usize_max < unat n + 22
      \<and> (\<forall>m. fst V \<noteq> Inl (InvalidPayloadLength m)) \<and> (\<forall>m. fst V = Inr m \<longrightarrow> payload_len m = n)"
    and "\<not> b \<Longrightarrow> readers_verdict usize_max limit V D"
  shows "readers_verdict usize_max limit V (if b then (Inl (InvalidPayloadLength n), r) else D)"
  using assms by (simp add: readers_verdict_def)

lemma verdict_payload:
  assumes "\<And>xs r'. read_section n s r = (Inr xs, r') \<Longrightarrow> length xs = n \<Longrightarrow>
             readers_verdict usize_max limit (F (g xs) r') (G xs r')"
  shows "readers_verdict usize_max limit
    (case (case read_section n s r of (Inl e, r') \<Rightarrow> (Inl e, r') | (Inr xs, r') \<Rightarrow> (Inr (g xs), r'))
      of (Inl e, r') \<Rightarrow> (Inl e, r') | (Inr y, r') \<Rightarrow> F y r')
    (case read_section n s r of (Inl e, r') \<Rightarrow> (Inl e, r') | (Inr xs, r') \<Rightarrow> G xs r')"
proof (cases "read_section n s r")
  case (Pair res r')
  then show ?thesis
    using assms read_section_Inr [of n s r] read_section_error [of n s r]
    by (cases res) (auto intro: readers_verdict_Inl)
qed

lemma verdict_end:
  assumes "readers_verdict usize_max limit X Y"
  shows "readers_verdict usize_max limit (case read_end r' of Inl e \<Rightarrow> (Inl e, r) | Inr _ \<Rightarrow> X)
    (case read_end r' of Inl e \<Rightarrow> (Inl e, r) | Inr _ \<Rightarrow> Y)"
  using assms read_end_error [of r'] by (cases "read_end r'") (auto intro: readers_verdict_Inl)

context crc32c_spec
begin

lemma readers_verdict:
  assumes "usize_max < 2 ^ 64"
  shows "readers_verdict usize_max limit (validate_envelope_reader c fmt r limit)
    (decode_reader usize_max c fmt r limit)"
proof -
  have big: "(of_nat usize_max < (n :: u64) \<or> usize_max < unat n \<or> usize_max < unat n + (HEADER_LEN + CHECKSUM_LEN))
      = (usize_max < unat n + 22)" for n
    using assms by (auto simp: word_less_nat_alt const_defs)
  have merge: "(if a then X else if b then X else Y) = (if a \<or> b then X else Y)" for a b and X Y :: "'x"
    by simp
  show ?thesis
    unfolding validate_envelope_reader_def decode_reader_def decode_reader_with_usize_limit_def
      Let_def validate_payload_eq DOMAIN_TAG_LEN_def
    unfolding merge big
    apply (rule verdict_section, rule verdict_guard [rotated], simp)
    apply (rule verdict_section, rule verdict_guard [rotated], simp)
    apply (rule verdict_section, rule verdict_guard [rotated], simp)
    apply (rule verdict_overflow)
    subgoal
      using read_section_error read_end_error
      by (auto simp: const_defs split: prod.splits sum.splits)
    subgoal
      apply (rule verdict_payload, unfold CHECKSUM_LEN_def, rule verdict_section, rule verdict_end)
      apply (simp add: crc_append split_be64 split_be16)
      apply (auto simp: readers_verdict_def)
      done
    done
qed

end

section \<open>The readers against a pure parser\<close>

text \<open>The same checks on the whole byte string, in the order the readers make them.\<close>

definition parse_envelope ::
    "crc32c \<Rightarrow> format_identity \<Rightarrow> u64 \<Rightarrow> bytes \<Rightarrow> store_error + bytes" where
  "parse_envelope c fmt limit bs =
    (let version = u16_from_be_bytes (take 2 (drop 8 bs));
         declared = u64_from_be_bytes (take 8 (drop 10 bs));
         n = unat declared;
         expected = u32_from_be_bytes (drop (18 + n) bs);
         actual = crc c (take (18 + n) bs)
     in if length bs < 8 then Inl (TruncatedEnvelope Magic)
        else if take 8 bs \<noteq> domain_tag fmt
        then Inl (InvalidEnvelopeDomain (domain_tag fmt) (take 8 bs))
        else if length bs < 10 then Inl (TruncatedEnvelope Version)
        else if version \<noteq> envelope_version fmt then Inl (UnsupportedEnvelopeVersion version)
        else if length bs < 18 then Inl (TruncatedEnvelope PayloadLength)
        else if declared > limit then Inl (BlobTooLarge declared limit)
        else if length bs < 18 + n then Inl (TruncatedEnvelope Payload)
        else if length bs < 22 + n then Inl (TruncatedEnvelope Checksum)
        else if length bs > 22 + n then Inl TrailingData
        else if expected \<noteq> actual then Inl (ChecksumMismatch expected actual)
        else Inr (take n (drop 18 bs)))"

lemma read_section_short:
  "steady r \<Longrightarrow> length (contents r) < n \<Longrightarrow> fst (read_section n s r) = Inl (TruncatedEnvelope s)"
  using read_exact_short [of r n] by (auto simp: read_section_def eof_error_def)

lemma read_section_at:
  assumes "steady r" and "contents r = drop k bs" and "k + n \<le> length bs"
  shows "\<exists>r'. read_section n s r = (Inr (take n (drop k bs)), r') \<and> steady r'
    \<and> contents r' = drop (k + n) bs \<and> (calm r \<longrightarrow> calm r')"
proof -
  have "n \<le> length (contents r)" using assms(2,3) by (simp add: le_diff_conv2)
  then obtain r' where r': "read_exact n r = (Inr (take n (drop k bs)), r')" "steady r'"
      "contents r' = drop (k + n) bs"
    using read_exact_steady [OF assms(1), of n] assms(2) by (auto simp: add.commute)
  moreover have "calm r \<longrightarrow> calm r'" using read_exact_calm [of r n] r'(1) by simp
  ultimately show ?thesis by (simp add: read_section_def)
qed

lemma fst_case_short:
  assumes "steady r" and "length (contents r) < n"
  shows "fst (case read_section n s r of (Inl e, r') \<Rightarrow> (Inl e, r') | (Inr xs, r') \<Rightarrow> F xs r')
    = Inl (TruncatedEnvelope s)"
  using read_section_short [OF assms, of s] by (auto split: prod.splits sum.splits)

text \<open>Agreement up to the error reported for trailing data: when a call is interrupted just
  before the trailing byte, the probe reports the interruption.\<close>

definition same_verdict :: "reader \<Rightarrow> store_error + 'a \<Rightarrow> store_error + 'a \<Rightarrow> bool" where
  "same_verdict r x y \<longleftrightarrow> x = y \<or> \<not> calm r \<and> y = Inl TrailingData \<and> isl x"

lemma same_verdict_refl [simp]: "same_verdict r x x"
  by (simp add: same_verdict_def)

lemma same_verdict_Inr: "same_verdict r x (Inr y) \<Longrightarrow> x = Inr y"
  by (simp add: same_verdict_def)

lemma same_verdict_Inr': "same_verdict r (Inr x) y \<Longrightarrow> y = Inr x"
  by (auto simp: same_verdict_def)

lemma same_verdict_calm: "same_verdict r x y \<Longrightarrow> calm r \<Longrightarrow> x = y"
  by (simp add: same_verdict_def)

lemma same_verdict_mono: "same_verdict r' x y \<Longrightarrow> calm r \<longrightarrow> calm r' \<Longrightarrow> same_verdict r x y"
  by (auto simp: same_verdict_def)

lemma header_layout_take:
  assumes len: "18 \<le> length bs" and tag: "take 8 bs = domain_tag fmt"
    and ver: "u16_from_be_bytes (take 2 (drop 8 bs)) = envelope_version fmt"
  shows "header_layout fmt (u64_from_be_bytes (take 8 (drop 10 bs))) = take 18 bs"
proof -
  have "u16_to_be_bytes (envelope_version fmt) = take 2 (drop 8 bs)"
    using len by (intro split_be16 [OF _ ver]) simp
  moreover have "u64_to_be_bytes (u64_from_be_bytes (take 8 (drop 10 bs))) = take 8 (drop 10 bs)"
    using len by (intro split_be64) simp
  moreover have "take 18 bs = take 8 bs @ take 2 (drop 8 bs) @ take 8 (drop 10 bs)"
    using take_add [of 8 "2 + 8" bs] take_add [of 2 8 "drop 8 bs"] by simp
  ultimately show ?thesis using tag by (simp add: header_layout_def)
qed

context crc32c_spec
begin

lemma decode_tail:
  assumes bnd: "unat limit + 22 \<le> usize_max" "usize_max < 2 ^ 64"
    and len: "18 \<le> length bs" and r: "steady r" "contents r = drop 18 bs"
    and tag: "take 8 bs = domain_tag fmt"
    and ver: "u16_from_be_bytes (take 2 (drop 8 bs)) = envelope_version fmt"
    and dec: "declared = u64_from_be_bytes (take 8 (drop 10 bs))" "\<not> declared > limit"
  shows "same_verdict r
    (fst (case read_section (unat declared) Payload r of
       (Inl e, r4) \<Rightarrow> (Inl e, r4)
     | (Inr payload, r4) \<Rightarrow>
    case read_section 4 Checksum r4 of
       (Inl e, r5) \<Rightarrow> (Inl e, r5)
     | (Inr cbytes, r5) \<Rightarrow>
    case read_end r5 of
       Inl e \<Rightarrow> (Inl e, r5)
     | Inr _ \<Rightarrow>
    let actual0 = crc c (domain_tag fmt);
        actual1 = crc_append c actual0 (u16_to_be_bytes (envelope_version fmt));
        actual2 = crc_append c actual1 (u64_to_be_bytes declared);
        actual = crc_append c actual2 payload;
        expected = u32_from_be_bytes cbytes in
    if expected \<noteq> actual then (Inl (ChecksumMismatch expected actual), r5)
    else (Inr payload, r5)))
    (parse_envelope c fmt limit bs)"
proof -
  let ?n = "unat declared"
  let ?P = "parse_envelope c fmt limit bs"
  have head: "domain_tag fmt @ u16_to_be_bytes (envelope_version fmt) @ u64_to_be_bytes declared = take 18 bs"
    using header_layout_take [OF len tag ver] by (simp add: header_layout_def dec(1))
  have P: "?P = (if length bs < 18 + ?n then Inl (TruncatedEnvelope Payload)
        else if length bs < 22 + ?n then Inl (TruncatedEnvelope Checksum)
        else if length bs > 22 + ?n then Inl TrailingData
        else if u32_from_be_bytes (drop (18 + ?n) bs) \<noteq> crc c (take (18 + ?n) bs)
        then Inl (ChecksumMismatch (u32_from_be_bytes (drop (18 + ?n) bs)) (crc c (take (18 + ?n) bs)))
        else Inr (take ?n (drop 18 bs)))"
  proof -
    have "\<not> length bs < 8" "\<not> length bs < 10" "\<not> length bs < 18" using len by auto
    then show ?thesis
      using dec(2) unfolding parse_envelope_def Let_def dec(1) [symmetric] tag ver
      by (simp only: if_False not_True_eq_False simp_thms)
  qed
  show ?thesis
  proof (cases "length bs < 18 + ?n")
    case True
    with r have "length (contents r) < ?n" using len by simp
    with r(1) True show ?thesis by (simp add: P fst_case_short)
  next
    case False
    then obtain r4 where r4: "read_section ?n Payload r = (Inr (take ?n (drop 18 bs)), r4)"
        "steady r4" "contents r4 = drop (18 + ?n) bs" "calm r \<longrightarrow> calm r4"
      using read_section_at [OF r, of ?n Payload] by auto
    show ?thesis
    proof (cases "length bs < 22 + ?n")
      case True
      with r4 have "length (contents r4) < 4" using False by simp
      with r4 False True show ?thesis by (simp add: P fst_case_short)
    next
      case F2: False
      then obtain r5 where r5: "read_section 4 Checksum r4 = (Inr (take 4 (drop (18 + ?n) bs)), r5)"
          "steady r5" "contents r5 = drop (22 + ?n) bs" "calm r4 \<longrightarrow> calm r5"
        using read_section_at [OF r4(2,3), of 4 Checksum] by (auto simp: ac_simps)
      show ?thesis
      proof (cases "length bs > 22 + ?n")
        case True
        then obtain e where "read_end r5 = Inl e" "calm r5 \<longrightarrow> e = TrailingData"
          using read_end_steady(2) [OF r5(2)] r5(3) by auto
        with True F2 r4(4) r5(4) show ?thesis by (auto simp: P r4(1) r5(1) same_verdict_def)
      next
        case F3: False
        with F2 have "read_end r5 = Inr ()" "take 4 (drop (18 + ?n) bs) = drop (18 + ?n) bs"
          using read_end_steady(1) [OF r5(2)] r5(3) by auto
        moreover have "crc_append c (crc c (take 18 bs)) (take ?n (drop 18 bs)) = crc c (take (18 + ?n) bs)"
          by (simp add: crc_append take_add)
        ultimately show ?thesis using F2 F3 head
          by (simp add: P r4(1) r5(1) crc_append Let_def)
      qed
    qed
  qed
qed

lemma decode_parse:
  assumes bnd: "unat limit + 22 \<le> usize_max" "usize_max < 2 ^ 64" and r: "steady r"
  shows "same_verdict r (fst (decode_reader usize_max c fmt r limit))
     (parse_envelope c fmt limit (contents r))"
proof -
  let ?bs = "contents r"
  note defs = decode_reader_def decode_reader_with_usize_limit_def parse_envelope_def Let_def
  consider "length ?bs < 8" | "8 \<le> length ?bs" "length ?bs < 10" | "10 \<le> length ?bs" "length ?bs < 18"
    | "18 \<le> length ?bs" by linarith
  then show ?thesis
  proof cases
    case 1
    with r show ?thesis by (simp add: defs fst_case_short)
  next
    case 2
    then obtain r1 where r1: "read_section 8 Magic r = (Inr (take 8 ?bs), r1)" "steady r1"
        "contents r1 = drop 8 ?bs"
      using read_section_at [OF r, of 0 ?bs 8 Magic] by auto
    with 2 show ?thesis by (simp add: defs fst_case_short)
  next
    case 3
    then obtain r1 where r1: "read_section 8 Magic r = (Inr (take 8 ?bs), r1)" "steady r1"
        "contents r1 = drop 8 ?bs"
      using read_section_at [OF r, of 0 ?bs 8 Magic] by auto
    with 3 obtain r2 where r2: "read_section 2 Version r1 = (Inr (take 2 (drop 8 ?bs)), r2)" "steady r2"
        "contents r2 = drop 10 ?bs"
      using read_section_at [OF r1(2,3), of 2 Version] by auto
    with 3 r1 show ?thesis by (simp add: defs fst_case_short)
  next
    case 4
    then obtain r1 where r1: "read_section 8 Magic r = (Inr (take 8 ?bs), r1)" "steady r1"
        "contents r1 = drop 8 ?bs" "calm r \<longrightarrow> calm r1"
      using read_section_at [OF r, of 0 ?bs 8 Magic] by auto
    with 4 obtain r2 where r2: "read_section 2 Version r1 = (Inr (take 2 (drop 8 ?bs)), r2)" "steady r2"
        "contents r2 = drop 10 ?bs" "calm r1 \<longrightarrow> calm r2"
      using read_section_at [OF r1(2,3), of 2 Version] by auto
    with 4 obtain r3 where r3: "read_section 8 PayloadLength r2 = (Inr (take 8 (drop 10 ?bs)), r3)"
        "steady r3" "contents r3 = drop 18 ?bs" "calm r2 \<longrightarrow> calm r3"
      using read_section_at [OF r2(2,3), of 8 PayloadLength] by auto
    let ?d = "u64_from_be_bytes (take 8 (drop 10 ?bs))"
    show ?thesis
    proof (cases "take 8 ?bs = domain_tag fmt
        \<and> u16_from_be_bytes (take 2 (drop 8 ?bs)) = envelope_version fmt \<and> \<not> ?d > limit")
      case True
      note tail = decode_tail [OF bnd 4 r3(2,3) _ _ refl, of fmt]
      have calm: "calm r \<longrightarrow> calm r3" using r1(4) r2(4) r3(4) by blast
      from True same_verdict_mono [OF tail calm] show ?thesis
        using usize_limit_ok [OF bnd, of ?d]
        by (simp add: decode_reader_def decode_reader_with_usize_limit_def r1(1) r2(1) r3(1) Let_def)
    next
      case False
      with 4 show ?thesis by (auto simp: defs r1(1) r2(1) r3(1))
    qed
  qed
qed

end

text \<open>With interruptions behind the last byte the decoder finds what it finds without them, except
  that the probe reports the first of them where it would have found the end.\<close>

lemma fst_section_append:
  assumes "list_all (\<lambda>x. isl x \<and> gentle x) tail"
    and "\<And>xs r'. read_section n sect r = (Inr xs, r') \<Longrightarrow>
      P (fst (F xs r')) (fst (F xs (r' @ tail)))"
    and "\<And>e. P (Inl e) (Inl e)"
  shows "P (fst (case read_section n sect r of (Inl e, r') \<Rightarrow> (Inl e, r') | (Inr xs, r') \<Rightarrow> F xs r'))
    (fst (case read_section n sect (r @ tail) of (Inl e, r') \<Rightarrow> (Inl e, r') | (Inr xs, r') \<Rightarrow> F xs r'))"
proof (cases "read_section n sect r")
  case (Pair res r')
  show ?thesis
  proof (cases res)
    case (Inl e)
    with read_section_append(1) [OF assms(1), of n sect r] Pair
    show ?thesis using assms(3) by (auto split: prod.splits sum.splits)
  next
    case (Inr xs)
    with read_section_append(2) [OF assms(1)] Pair assms(2) show ?thesis by simp
  qed
qed

definition interrupted_verdict :: "io_error \<Rightarrow> store_error + 'a \<Rightarrow> store_error + 'a \<Rightarrow> bool" where
  "interrupted_verdict e x y \<longleftrightarrow> isl y \<and> (\<not> isl x \<longrightarrow> y = Inl (Io ReadEnvelope e))"

lemma interrupted_verdict_Inl [simp]: "interrupted_verdict e (Inl x) (Inl x)"
  by (simp add: interrupted_verdict_def)

lemma contents_append: "contents (r @ r') = contents r @ contents r'"
  by (induction r rule: contents.induct) auto

lemma contents_interruptions: "list_all isl r \<Longrightarrow> contents r = []"
  by (induction r rule: contents.induct) auto

lemma decode_append:
  assumes tail: "list_all (\<lambda>x. isl x \<and> gentle x) tail" "tail = Inl e # is" and r: "list_all gentle r"
  shows "interrupted_verdict e (fst (decode_reader usize_max c fmt r limit))
    (fst (decode_reader usize_max c fmt (r @ tail) limit))"
proof -
  have fin: "interrupted_verdict e
      (fst (case read_end r5 of Inl e \<Rightarrow> (Inl e, r5) | Inr _ \<Rightarrow> if b then (Inl x, r5) else (Inr p, r5)))
      (fst (case read_end (r5 @ tail) of Inl e \<Rightarrow> (Inl e, r5 @ tail)
        | Inr _ \<Rightarrow> if b then (Inl x, r5 @ tail) else (Inr p, r5 @ tail)))"
    if "list_all gentle r5" for r5 b x and p :: bytes
    using read_end_append [OF that tail(2)]
    by (cases "read_end r5") (auto simp: interrupted_verdict_def)
  have guard: "interrupted_verdict e (fst (if b then (Inl x, r1) else X)) (fst (if b then (Inl x, r2) else Y))"
    if "interrupted_verdict e (fst X) (fst Y)" for b x r1 r2 X Y
    using that by simp
  note step = fst_section_append [OF tail(1), where P = "interrupted_verdict e"]
  show ?thesis
    unfolding decode_reader_def decode_reader_with_usize_limit_def Let_def
    apply (rule step [OF _ interrupted_verdict_Inl], rule guard)
    apply (rule step [OF _ interrupted_verdict_Inl], rule guard)
    apply (rule step [OF _ interrupted_verdict_Inl], rule guard, rule guard, rule guard)
    apply (rule step [OF _ interrupted_verdict_Inl], rule step [OF _ interrupted_verdict_Inl], rule fin)
    apply (rule r [THEN read_section_gentle [rotated], THEN read_section_gentle [rotated],
        THEN read_section_gentle [rotated], THEN read_section_gentle [rotated],
        THEN read_section_gentle [rotated]]; assumption)
    done
qed

text \<open>A gentle reader is a steady one, with interruptions behind its last byte or without.\<close>

lemma gentle_split:
  assumes "list_all gentle r"
  obtains (steady) "steady r" "r = [] \<or> \<not> isl (last r)"
    | (interrupted) r0 e "is" where "r \<noteq> []" "isl (last r)" "r = r0 @ Inl e # is" "steady r0"
        "list_all (\<lambda>x. isl x \<and> gentle x) (Inl e # is)" "kind e = Interrupted" "contents r = contents r0"
proof (cases "steady r")
  case True
  then show ?thesis using steady by (auto simp: steady_def)
next
  case False
  then have bad: "r \<noteq> []" "isl (last r)" using assms by (auto simp: steady_def)
  define r0 where "r0 = rev (dropWhile isl (rev r))"
  define t where "t = rev (takeWhile isl (rev r))"
  have r: "r = r0 @ t"
    unfolding r0_def t_def by (simp only: rev_append [symmetric] takeWhile_dropWhile_id rev_rev_ident)
  have isl: "list_all isl t" by (auto simp: t_def list_all_iff dest: set_takeWhileD)
  have gentle: "list_all gentle r0" "list_all gentle t" using assms by (simp_all add: r)
  from isl gentle(2) have t: "list_all (\<lambda>x. isl x \<and> gentle x) t" by (simp add: list_all_iff)
  have "t \<noteq> []" using bad by (cases r rule: rev_cases) (auto simp: t_def)
  with isl gentle(2) obtain e "is" where te: "t = Inl e # is" "kind e = Interrupted"
    by (cases t; cases "hd t") auto
  have "r0 \<noteq> [] \<Longrightarrow> \<not> isl (last r0)"
    using hd_dropWhile [of isl "rev r"] by (simp add: r0_def last_rev)
  with gentle(1) have st: "steady r0" by (simp add: steady_def)
  have "contents r = contents r0" by (simp add: r contents_append contents_interruptions isl)
  with te r t st bad show ?thesis using interrupted by blast
qed

section \<open>Encoder and parser are inverse\<close>

lemma length_header_layout [simp]: "length (header_layout fmt n) = length (domain_tag fmt) + 10"
  by (simp add: header_layout_def)

lemma length_envelope_layout [simp]:
  "length (envelope_layout c fmt p) = length (domain_tag fmt) + 14 + length p"
  by (simp add: envelope_layout_def Let_def)

lemma u64_leq_length: "n < 2 ^ 64 \<Longrightarrow> (of_nat n > (m :: u64)) = (n > unat m)"
  by (simp add: word_less_nat_alt)

context crc32c_spec
begin

lemma encode_envelope_eq:
  "encode_envelope c fmt p limit =
    (if 2 ^ 64 \<le> length p then Inl (InvalidPayloadLength (-1))
     else if length p > unat limit then Inl (BlobTooLarge (of_nat (length p)) limit)
     else Inr (envelope_layout c fmt p))"
  by (auto simp: encode_envelope_def envelope_parts_def envelope_header_def u64_try_from_def
      u64_leq_length envelope_layout_def header_layout_def crc_append Let_def)

end

lemma parse_layout:
  assumes "length (domain_tag fmt) = 8" and "length p \<le> unat limit"
  shows "parse_envelope c fmt limit (envelope_layout c fmt p) = Inr p"
proof -
  let ?bs = "envelope_layout c fmt p" and ?n = "of_nat (length p) :: u64"
  have n: "unat ?n = length p" using assms(2) le_less_trans [OF _ unat_u64_less] by simp
  have bs: "?bs = domain_tag fmt @ u16_to_be_bytes (envelope_version fmt) @ u64_to_be_bytes ?n @ p
      @ u32_to_be_bytes (crc c (header_layout fmt ?n @ p))"
    by (simp add: envelope_layout_def header_layout_def Let_def)
  have "u16_from_be_bytes (take 2 (drop 8 ?bs)) = envelope_version fmt"
    and "u64_from_be_bytes (take 8 (drop 10 ?bs)) = ?n"
    and "take 8 ?bs = domain_tag fmt"
    and "drop (18 + length p) ?bs = u32_to_be_bytes (crc c (header_layout fmt ?n @ p))"
    and "take (18 + length p) ?bs = header_layout fmt ?n @ p"
    and "take (length p) (drop 18 ?bs) = p"
    using assms(1) by (simp_all add: bs header_layout_def)
  moreover have "\<not> ?n > limit" using assms(2) n by (simp add: word_less_nat_alt)
  ultimately show ?thesis
    using assms(1) by (simp add: parse_envelope_def n)
qed

lemma if_Inl_Inr: "(if a then Inl e else t) = Inr y \<longleftrightarrow> \<not> a \<and> t = Inr y"
  by simp

lemma parse_okD:
  assumes "parse_envelope c fmt limit bs = Inr p"
  shows "bs = envelope_layout c fmt p" and "length p \<le> unat limit"
proof -
  define d where "d = u64_from_be_bytes (take 8 (drop 10 bs))"
  note ok = assms [unfolded parse_envelope_def Let_def if_Inl_Inr sum.inject not_not, folded d_def]
  from ok have tag: "take 8 bs = domain_tag fmt"
    and ver: "u16_from_be_bytes (take 2 (drop 8 bs)) = envelope_version fmt"
    and lim: "\<not> d > limit" and p: "p = take (unat d) (drop 18 bs)"
    and ck: "u32_from_be_bytes (drop (18 + unat d) bs) = crc c (take (18 + unat d) bs)"
    and le: "\<not> length bs < 22 + unat d" and ge: "\<not> length bs > 22 + unat d"
    by blast+
  from le ge have len: "length bs = 22 + unat d" using linorder_neqE_nat by blast
  have lp: "length p = unat d" using len by (simp add: p)
  then show "length p \<le> unat limit" using lim by (simp add: word_less_nat_alt)
  have "header_layout fmt (of_nat (length p)) = take 18 bs"
    using header_layout_take [OF _ tag ver] len by (simp add: lp d_def [symmetric])
  then have cov: "header_layout fmt (of_nat (length p)) @ p = take (18 + unat d) bs"
    by (simp add: p take_add)
  have "u32_to_be_bytes (crc c (take (18 + unat d) bs)) = drop (18 + unat d) bs"
    using to_from_be_bytes(2) [of "drop (18 + unat d) bs"] len by (simp add: ck)
  then show "bs = envelope_layout c fmt p"
    by (simp add: envelope_layout_def cov Let_def)
qed

end
