(* ===== verification/Envelope_Stream.thy ===== *)
theory Envelope_Stream
  imports Envelope_Facts
begin

text \<open>
  The streaming writer \<^verbatim>\<open>write_stream_envelope\<close> against the encoder. Locale \<open>writer\<close> is the
  contract of \<^verbatim>\<open>std::io::Write::write_all\<close> the code relies on: a successful call appends its
  bytes. It is interpreted on an in-memory vector here and on the staging file of the Unix
  backend in theory \<open>Unix_Store\<close>.
\<close>

section \<open>The writer contract\<close>

locale writer =
  fixes write_all :: "bytes \<Rightarrow> 'w \<Rightarrow> (io_error + unit) \<times> 'w"
    and out :: "'w \<Rightarrow> bytes"
    and live :: "'w \<Rightarrow> bool"
  assumes write_ok: "live w \<Longrightarrow> write_all d w = (Inr u, w') \<Longrightarrow> out w' = out w @ d \<and> live w'"

text \<open>\<^verbatim>\<open>impl Write for Vec<u8>\<close>.\<close>

definition vec_write_all :: "bytes \<Rightarrow> bytes \<Rightarrow> (io_error + unit) \<times> bytes" where
  "vec_write_all d v = (Inr (), v @ d)"

interpretation vec: writer vec_write_all id "\<lambda>_. True"
  by unfold_locales (simp add: vec_write_all_def)

section \<open>Message sequences\<close>

text \<open>The bytes of the chunks up to the completion marker, if there is one.\<close>

fun completed :: "save_stream_message list \<Rightarrow> bytes option" where
  "completed [] = None"
| "completed (Complete # ms) = Some []"
| "completed (Chunk bs # ms) = map_option ((@) bs) (completed ms)"

text \<open>Every chunk is a Rust vector: its length is a \<^verbatim>\<open>usize\<close>.\<close>

definition vec_chunks :: "save_stream_message list \<Rightarrow> bool" where
  "vec_chunks ms \<longleftrightarrow> (\<forall>bs. Chunk bs \<in> set ms \<longrightarrow> length bs < 2 ^ 64)"

lemma vec_chunks_simps [simp]:
  "vec_chunks []"
  "vec_chunks (Complete # ms) = vec_chunks ms"
  "vec_chunks (Chunk bs # ms) = (length bs < 2 ^ 64 \<and> vec_chunks ms)"
  by (auto simp: vec_chunks_def)

text \<open>What the loop reports when no write fails, from the number of bytes already written.\<close>

fun stream_verdict :: "u64 \<Rightarrow> nat \<Rightarrow> save_stream_message list \<Rightarrow> store_error + unit" where
  "stream_verdict declared n [] = Inl StreamCancelled"
| "stream_verdict declared n (Complete # ms) =
     (if n = unat declared then Inr () else Inl (InputEndedEarly declared (of_nat n)))"
| "stream_verdict declared n (Chunk bs # ms) =
     (if n + length bs > unat declared then Inl (InputHasTrailingData declared)
      else stream_verdict declared (n + length bs) ms)"

lemma stream_verdict_ok_iff:
  "stream_verdict declared n ms = Inr () \<longleftrightarrow>
     (\<exists>p. completed ms = Some p \<and> n + length p = unat declared)"
  by (induction declared n ms rule: stream_verdict.induct) auto

lemma chunk_step:
  fixes written declared :: u64
  assumes "length bs < 2 ^ 64"
  shows "(case checked_add written (of_nat (length bs)) of None \<Rightarrow> A
      | Some t \<Rightarrow> if t > declared then A else B) =
     (if unat written + length bs > unat declared then A else B)"
    and "unat written + length bs \<le> unat declared \<Longrightarrow>
      unat (written + of_nat (length bs)) = unat written + length bs"
proof -
  have u: "unat (of_nat (length bs) :: u64) = length bs" using assms by simp
  show sum: "unat (written + of_nat (length bs)) = unat written + length bs"
    if "unat written + length bs \<le> unat declared"
    using le_less_trans [OF that unat_u64_less] by (simp add: unat_word_ariths u)
  show "(case checked_add written (of_nat (length bs)) of None \<Rightarrow> A
      | Some t \<Rightarrow> if t > declared then A else B) =
     (if unat written + length bs > unat declared then A else B)"
  proof (cases "unat written + length bs \<le> unat declared")
    case True
    then have "checked_add written (of_nat (length bs)) = Some (written + of_nat (length bs))"
      using le_less_trans [OF True unat_u64_less] by (simp add: checked_add_def u)
    with True sum [OF True] show ?thesis by (simp add: word_less_nat_alt)
  next
    case False
    then show ?thesis
      by (auto simp: word_less_nat_alt u split: option.splits dest!: checked_add_SomeD)
  qed
qed

lemma stream_chunks_Chunk:
  "length bs < 2 ^ 64 \<Longrightarrow>
   stream_chunks c write_all declared checksum written (Chunk bs # ms) w =
     (if unat written + length bs > unat declared then (Inl (InputHasTrailingData declared), w)
      else case write_all bs w of
        (Inl e, w') \<Rightarrow> (Inl (Io WriteEnvelope e), w')
      | (Inr _, w') \<Rightarrow>
          stream_chunks c write_all declared (crc_append c checksum bs)
            (written + of_nat (length bs)) ms w')"
  by (simp add: chunk_step(1))

lemmas stream_chunks_simps = stream_chunks.simps(1,3) stream_chunks_Chunk

section \<open>Success writes the encoder's bytes\<close>

locale checked_writer = writer write_all out live + crc32c_spec c
  for write_all :: "bytes \<Rightarrow> 'w \<Rightarrow> (io_error + unit) \<times> 'w"
    and out :: "'w \<Rightarrow> bytes" and live :: "'w \<Rightarrow> bool" and c :: crc32c
begin

lemma stream_chunks_ok:
  assumes "stream_chunks c write_all declared (crc c xs) written ms w = (Inr u, w')"
    and "live w" and "vec_chunks ms" and "unat written \<le> unat declared"
  shows "\<exists>p. completed ms = Some p \<and> unat written + length p = unat declared
    \<and> out w' = out w @ p @ u32_to_be_bytes (crc c (xs @ p)) \<and> live w'"
  using assms
proof (induction ms arbitrary: xs written w)
  case Nil
  then show ?case by simp
next
  case (Cons m ms)
  show ?case
  proof (cases m)
    case Complete
    with Cons.prems show ?thesis
      by (auto split: if_splits prod.splits sum.splits dest: write_ok)
  next
    case (Chunk bs)
    from Cons.prems Chunk have le: "unat written + length bs \<le> unat declared"
      by (auto simp: stream_chunks_Chunk simp del: stream_chunks.simps split: if_splits)
    with Cons.prems Chunk obtain w1 where w1: "write_all bs w = (Inr (), w1)"
      and rest: "stream_chunks c write_all declared (crc c (xs @ bs)) (written + of_nat (length bs)) ms w1 = (Inr u, w')"
      by (auto simp: stream_chunks_Chunk crc_append simp del: stream_chunks.simps
          split: prod.splits sum.splits)
    have n: "unat (written + of_nat (length bs)) = unat written + length bs"
      using Cons.prems Chunk le by (intro chunk_step(2)) auto
    have out1: "out w1 = out w @ bs" "live w1"
      using write_ok [OF Cons.prems(2) w1] by auto
    obtain p where "completed ms = Some p" "unat written + length bs + length p = unat declared"
      "out w' = out w1 @ p @ u32_to_be_bytes (crc c ((xs @ bs) @ p))" "live w'"
      using Cons.IH [OF rest out1(2)] Cons.prems(3) Chunk le n by auto
    with out1 Chunk show ?thesis by auto
  qed
qed

lemma write_stream_envelope_ok:
  assumes "write_stream_envelope c write_all config w declared ms = (Inr u, w')"
    and "live w" and "vec_chunks ms"
  shows "\<exists>p. completed ms = Some p \<and> length p = unat declared
    \<and> length p \<le> unat (maximum config)
    \<and> out w' = out w @ envelope_layout c (format config) p \<and> live w'"
proof -
  let ?h = "header_layout (format config) declared"
  from assms(1) obtain w1 where d: "\<not> declared > maximum config" and w1: "write_all ?h w = (Inr (), w1)"
    and st: "stream_chunks c write_all declared (crc c ?h) 0 ms w1 = (Inr u, w')"
    by (auto simp: write_stream_envelope_def envelope_header_def header_layout_def
        split: if_splits prod.splits sum.splits)
  have o: "out w1 = out w @ ?h" "live w1" using write_ok [OF assms(2) w1] by auto
  from stream_chunks_ok [OF st o(2) assms(3)] obtain p where
    p: "completed ms = Some p" "length p = unat declared"
      "out w' = out w1 @ p @ u32_to_be_bytes (crc c (?h @ p))" "live w'" by auto
  have "of_nat (length p) = declared" by (simp add: p(2))
  with p o d show ?thesis
    by (auto simp: envelope_layout_def Let_def word_less_nat_alt)
qed

end

section \<open>An infallible writer\<close>

lemma stream_chunks_vec:
  assumes "vec_chunks ms" and "unat written \<le> unat declared"
  shows "fst (stream_chunks c vec_write_all declared checksum written ms v) =
     stream_verdict declared (unat written) ms"
  using assms
proof (induction ms arbitrary: checksum written v)
  case (Cons m ms)
  show ?case
  proof (cases m)
    case Complete
    then show ?thesis by (auto simp: vec_write_all_def word_unat_eq_iff)
  next
    case (Chunk bs)
    with Cons.prems have bs: "length bs < 2 ^ 64" by simp
    show ?thesis
    proof (cases "unat written + length bs > unat declared")
      case True
      with Chunk bs show ?thesis by (simp add: stream_chunks_Chunk del: stream_chunks.simps)
    next
      case False
      then have "unat (written + of_nat (length bs)) = unat written + length bs"
        by (intro chunk_step(2) [OF bs, of _ declared]) simp
      with False Chunk bs Cons show ?thesis
        by (simp add: stream_chunks_Chunk vec_write_all_def del: stream_chunks.simps)
    qed
  qed
qed simp

lemma write_stream_envelope_vec:
  assumes "vec_chunks ms"
  shows "fst (write_stream_envelope c vec_write_all config v declared ms) =
    (if declared > maximum config then Inl (BlobTooLarge declared (maximum config))
     else stream_verdict declared 0 ms)"
  using stream_chunks_vec [OF assms, of 0 declared]
  by (simp add: write_stream_envelope_def envelope_header_def vec_write_all_def)

text \<open>A property that every write keeps is kept by the whole transfer.\<close>

lemma stream_chunks_keeps:
  assumes "\<And>d w. P w \<Longrightarrow> P (snd (write_all d w))" and "P w"
  shows "P (snd (stream_chunks c write_all declared checksum written ms w))"
  using assms(2)
proof (induction ms arbitrary: checksum written w)
  case (Cons m ms)
  have step: "P w'" if "write_all d w = (x, w')" for d x w'
    using assms(1) [OF Cons.prems, of d] that by simp
  show ?case
  proof (cases m)
    case (Chunk bs)
    then show ?thesis using Cons step [of bs]
      by (auto simp: Let_def split: option.splits prod.splits sum.splits)
  next
    case Complete
    then show ?thesis using Cons.prems step
      by (auto split: prod.splits sum.splits)
  qed
qed simp

lemma write_stream_envelope_keeps:
  assumes "\<And>d w. P w \<Longrightarrow> P (snd (write_all d w))" and "P w"
  shows "P (snd (write_stream_envelope c write_all config w declared ms))"
proof (cases "write_all (header_layout (format config) declared) w")
  case (Pair x w1)
  with assms have "P w1" by (metis snd_conv)
  with assms Pair stream_chunks_keeps [of P write_all, OF assms(1)] show ?thesis
    by (cases x) (auto simp: write_stream_envelope_def envelope_header_def header_layout_def)
qed

end
