(* ===== verification/Crc32c.thy ===== *)
theory Crc32c
  imports Envelope_Stream
begin

text \<open>
  A reference instance of the checksum interface: CRC-32C (Castagnoli) computed bit by bit with
  the reflected polynomial \<^verbatim>\<open>0x82f63b78\<close>, initial value and final exclusive-or of all ones. It
  satisfies the law of \<open>crc32c_spec\<close>, and it reproduces the checksum of the golden fixture
  \<^verbatim>\<open>tests/fixtures/v1/valid.hex\<close>.
\<close>

unbundle bit_operations_syntax

definition crc_bit :: "u32 \<Rightarrow> u32" where
  "crc_bit x = (if bit x 0 then drop_bit 1 x XOR 0x82f63b78 else drop_bit 1 x)"

definition crc_byte :: "u32 \<Rightarrow> u8 \<Rightarrow> u32" where
  "crc_byte x b = (crc_bit ^^ 8) (x XOR ucast b)"

definition crc32c_reference_append :: "u32 \<Rightarrow> bytes \<Rightarrow> u32" where
  "crc32c_reference_append prev bs = NOT (foldl crc_byte (NOT prev) bs)"

definition crc32c_reference :: crc32c where
  "crc32c_reference =
     \<lparr>crc = crc32c_reference_append 0, crc_append = crc32c_reference_append\<rparr>"

interpretation reference: crc32c_spec crc32c_reference
  by unfold_locales (simp add: crc32c_reference_def crc32c_reference_append_def)

interpretation reference_vec: checked_writer vec_write_all id "\<lambda>_. True" crc32c_reference
  by unfold_locales

text \<open>The bytes the golden fixture covers: domain \<^verbatim>\<open>BLOBTEST\<close>, version 1, length 3, \<^verbatim>\<open>abc\<close>.\<close>

definition fixture_format :: format_identity where
  "fixture_format = \<lparr>domain_tag = [0x42, 0x4c, 0x4f, 0x42, 0x54, 0x45, 0x53, 0x54],
     filename_suffix = ''.blob'', envelope_version = 1\<rparr>"

definition fixture_header :: bytes where
  "fixture_header = [0x42, 0x4c, 0x4f, 0x42, 0x54, 0x45, 0x53, 0x54, 0, 1, 0, 0, 0, 0, 0, 0, 0, 3]"

text \<open>Evaluation: one conditional rule per bit value, one unfolding per byte.\<close>

lemma crc_bit_odd: "bit x 0 \<Longrightarrow> crc_bit x = drop_bit 1 x XOR 0x82f63b78"
  by (simp add: crc_bit_def)

lemma crc_bit_even: "\<not> bit x 0 \<Longrightarrow> crc_bit x = drop_bit 1 x"
  by (simp add: crc_bit_def)

lemma crc_byte_unfold:
  "crc_byte x b =
    crc_bit (crc_bit (crc_bit (crc_bit (crc_bit (crc_bit (crc_bit (crc_bit (x XOR ucast b))))))))"
  by (simp add: crc_byte_def eval_nat_numeral)

lemma crc_reference_eval: "crc crc32c_reference bs = NOT (foldl crc_byte 0xffffffff bs)"
proof -
  have "NOT 0 = (0xffffffff :: u32)" by simp
  then show ?thesis
    unfolding crc32c_reference_def crc32c_reference_append_def by (simp only: crc32c.select_convs)
qed

lemmas crc_eval = crc_reference_eval crc_byte_unfold crc_bit_odd crc_bit_even

lemma crc_fixture: "crc crc32c_reference (fixture_header @ [0x61, 0x62, 0x63]) = 0xb7ba8c0f"
  by (simp add: crc_eval fixture_header_def)

lemma fixture_header_layout: "header_layout fixture_format 3 = fixture_header"
  by (simp add: header_layout_def fixture_format_def fixture_header_def u16_to_be_bytes_def
      u64_to_be_bytes_def be_bytes_numeral)

lemma valid_fixture_format: "valid_format fixture_format"
  by (simp add: valid_format_def fixture_format_def valid_suffix_def suffix_byte_def
      is_ascii_lowercase_def)

lemma fixture_layout:
  "envelope_layout crc32c_reference fixture_format [0x61, 0x62, 0x63] =
     fixture_header @ [0x61, 0x62, 0x63, 0xb7, 0xba, 0x8c, 0x0f]"
  using crc_fixture
  by (simp add: envelope_layout_def fixture_header_layout u32_to_be_bytes_def be_bytes_numeral Let_def)

text \<open>The configuration of the examples.\<close>

definition sample_config :: store_config where
  "sample_config = \<lparr>namespace = Path True [''root'', ''ns''], format = fixture_format,
     maximum = 1024, cfg_max_concurrent = 2\<rparr>"

end
