(* ===== verification/File_World.thy ===== *)
theory File_World
  imports Envelope_Facts
begin

text \<open>
  The part of \<^verbatim>\<open>std::fs\<close> the store uses, on a file system that maps paths to nodes. Every call
  may fail for a reason of the operating system: \<open>faults\<close> is the schedule of those failures, one
  entry per call (\<open>Some code\<close> makes the call fail with that raw code and no effect; an exhausted
  schedule means no further failure). The error kinds \<^verbatim>\<open>NotFound\<close> and \<^verbatim>\<open>AlreadyExists\<close> come from
  the state of the file system only. \<open>plans\<close> says how the next opened files deliver their bytes.
  \<open>ext\<close> is the private state of the crates that are parameters of the model.
\<close>

section \<open>Nodes and worlds\<close>

datatype node =
    Regular bytes "system_time option" \<comment> \<open>contents and modification time\<close>
  | Directory
  | Irregular bytes \<comment> \<open>any other file type, with the bytes reading it delivers\<close>

text \<open>One entry per \<^verbatim>\<open>read\<close> call: a failure, or at most \<open>k + 1\<close> bytes.\<close>

type_synonym read_plan = "(io_error + nat) list"

record 'x world =
  nodes :: "path \<Rightarrow> node option"
  faults :: "u32 option list"
  plans :: "read_plan list"
  cwd :: path
  ext :: 'x

definition os_error :: "u32 \<Rightarrow> io_error" where
  "os_error code = IoError (OtherKind 0) (Some code)"

definition not_found :: io_error where
  "not_found = IoError NotFound (Some 2)"

definition already_exists :: io_error where
  "already_exists = IoError AlreadyExists (Some 17)"

definition not_a_directory :: io_error where
  "not_a_directory = os_error 20"

definition is_a_directory :: io_error where
  "is_a_directory = os_error 21"

lemma kind_simps [simp]:
  "kind (os_error n) = OtherKind 0" "kind not_found = NotFound" "kind already_exists = AlreadyExists"
  "kind not_a_directory = OtherKind 0" "kind is_a_directory = OtherKind 0"
  by (simp_all add: os_error_def not_found_def already_exists_def not_a_directory_def is_a_directory_def)

section \<open>Calls\<close>

definition fs_call ::
    "('x world \<Rightarrow> (io_error + 'a) \<times> 'x world) \<Rightarrow> 'x world \<Rightarrow> (io_error + 'a) \<times> 'x world" where
  "fs_call body w =
    (case faults w of
       [] \<Rightarrow> body w
     | None # fs \<Rightarrow> body (w\<lparr>faults := fs\<rparr>)
     | Some code # fs \<Rightarrow> (Inl (os_error code), w\<lparr>faults := fs\<rparr>))"

definition fs_current_dir :: "'x world \<Rightarrow> (io_error + path) \<times> 'x world" where
  "fs_current_dir = fs_call (\<lambda>w. (Inr (cwd w), w))"

definition fs_metadata :: "path \<Rightarrow> 'x world \<Rightarrow> (io_error + node) \<times> 'x world" where
  "fs_metadata p =
     fs_call (\<lambda>w. (case nodes w p of None \<Rightarrow> Inl not_found | Some n \<Rightarrow> Inr n, w))"

definition fs_symlink_metadata :: "path \<Rightarrow> 'x world \<Rightarrow> (io_error + node) \<times> 'x world" where
  "fs_symlink_metadata p =
     fs_call (\<lambda>w. (case nodes w p of None \<Rightarrow> Inl not_found | Some n \<Rightarrow> Inr n, w))"

definition path_parent :: "path \<Rightarrow> path" where
  "path_parent p = Path (is_absolute p) (butlast (path_components p))"

definition fs_create_dir :: "path \<Rightarrow> 'x world \<Rightarrow> (io_error + unit) \<times> 'x world" where
  "fs_create_dir p =
     fs_call (\<lambda>w.
       case nodes w (path_parent p) of
         None \<Rightarrow> (Inl not_found, w)
       | Some Directory \<Rightarrow>
           (if nodes w p = None then (Inr (), w\<lparr>nodes := (nodes w)(p \<mapsto> Directory)\<rparr>)
            else (Inl already_exists, w))
       | Some _ \<Rightarrow> (Inl not_a_directory, w))"

definition fs_remove_file :: "path \<Rightarrow> 'x world \<Rightarrow> (io_error + unit) \<times> 'x world" where
  "fs_remove_file p =
     fs_call (\<lambda>w.
       case nodes w p of
         None \<Rightarrow> (Inl not_found, w)
       | Some Directory \<Rightarrow> (Inl is_a_directory, w)
       | Some _ \<Rightarrow> (Inr (), w\<lparr>nodes := (nodes w)(p := None)\<rparr>))"

text \<open>\<^verbatim>\<open>File::open\<close> for reading gives a handle on the node; a later rename over the path does not
  affect it. \<^verbatim>\<open>sync_all\<close> and \<^verbatim>\<open>seek\<close> only fail or succeed.\<close>

definition fs_open :: "path \<Rightarrow> 'x world \<Rightarrow> (io_error + node) \<times> 'x world" where
  "fs_open p =
     fs_call (\<lambda>w. (case nodes w p of None \<Rightarrow> Inl not_found | Some n \<Rightarrow> Inr n, w))"

definition fs_sync_all :: "node \<Rightarrow> 'x world \<Rightarrow> (io_error + unit) \<times> 'x world" where
  "fs_sync_all n = fs_call (\<lambda>w. (Inr (), w))"

definition fs_seek :: "node \<Rightarrow> nat \<Rightarrow> 'x world \<Rightarrow> (io_error + unit) \<times> 'x world" where
  "fs_seek n off = fs_call (\<lambda>w. (Inr (), w))"

section \<open>Reading an open file\<close>

fun segment :: "read_plan \<Rightarrow> bytes \<Rightarrow> reader" where
  "segment [] bs = (if bs = [] then [] else [Inr bs])"
| "segment (Inl e # plan) bs = Inl e # segment plan bs"
| "segment (Inr k # plan) bs =
     (if bs = [] then segment plan bs else Inr (take (Suc k) bs) # segment plan (drop (Suc k) bs))"

text \<open>The reader positioned at an offset: it delivers the rest of the contents as planned.\<close>

definition file_reader :: "node \<Rightarrow> nat \<Rightarrow> 'x world \<Rightarrow> reader \<times> 'x world" where
  "file_reader n off w =
    (let plan = (case plans w of [] \<Rightarrow> [] | p # _ \<Rightarrow> p);
         w' = w\<lparr>plans := tl (plans w)\<rparr>
     in case n of
          Regular bs _ \<Rightarrow> (segment plan (drop off bs), w')
        | Irregular bs \<Rightarrow> (segment plan (drop off bs), w')
        | Directory \<Rightarrow> ([Inl is_a_directory], w'))"

section \<open>Frames\<close>

text \<open>What no call but creation and removal changes.\<close>

definition same_files :: "'x world \<Rightarrow> 'x world \<Rightarrow> bool" where
  "same_files w w' \<longleftrightarrow> nodes w' = nodes w \<and> cwd w' = cwd w \<and> ext w' = ext w"

named_theorems frames \<open>calls that leave the files alone\<close>

lemma same_files_refl [simp]: "same_files w w"
  by (simp add: same_files_def)

lemma same_files_trans [trans]: "same_files w w' \<Longrightarrow> same_files w' w'' \<Longrightarrow> same_files w w''"
  by (simp add: same_files_def)

lemma same_files_nodes: "same_files w w' \<Longrightarrow> nodes w' = nodes w"
  by (simp add: same_files_def)

lemma fs_call_same:
  assumes "\<And>w. same_files w (snd (body w))"
  shows "same_files w (snd (fs_call body w))"
  using assms [of w] assms [of "w\<lparr>faults := tl (faults w)\<rparr>"]
  by (auto simp: fs_call_def same_files_def split: list.splits option.splits)

lemma fs_calls_same [frames]:
  "same_files w (snd (fs_current_dir w))"
  "same_files w (snd (fs_metadata p w))"
  "same_files w (snd (fs_symlink_metadata p w))"
  "same_files w (snd (fs_open p w))"
  "same_files w (snd (fs_sync_all n w))"
  "same_files w (snd (fs_seek n off w))"
  unfolding fs_current_dir_def fs_metadata_def fs_symlink_metadata_def fs_open_def
    fs_sync_all_def fs_seek_def
  by (rule fs_call_same, simp)+

lemma file_reader_same [frames]: "same_files w (snd (file_reader n off w))"
  by (auto simp: file_reader_def same_files_def Let_def split: node.splits)

lemma frameD:
  "same_files w (snd (f w)) \<Longrightarrow> f w = (x, w') \<Longrightarrow> same_files w w'"
  by simp

lemmas frame_dests = fs_calls_same [THEN frameD] file_reader_same [THEN frameD]

section \<open>Results of calls\<close>

lemmas lookup_defs = fs_metadata_def fs_symlink_metadata_def fs_open_def

lemma lookup_Inr:
  "fs_metadata p w = (Inr n, w') \<Longrightarrow> nodes w p = Some n"
  "fs_symlink_metadata p w = (Inr n, w') \<Longrightarrow> nodes w p = Some n"
  "fs_open p w = (Inr n, w') \<Longrightarrow> nodes w p = Some n"
  by (auto simp: lookup_defs fs_call_def split: list.splits option.splits)

lemma lookup_missing:
  "fs_metadata p w = (Inl e, w') \<Longrightarrow> kind e = NotFound \<Longrightarrow> nodes w p = None"
  "fs_symlink_metadata p w = (Inl e, w') \<Longrightarrow> kind e = NotFound \<Longrightarrow> nodes w p = None"
  "fs_open p w = (Inl e, w') \<Longrightarrow> kind e = NotFound \<Longrightarrow> nodes w p = None"
  by (auto simp: lookup_defs fs_call_def split: list.splits option.splits)

text \<open>Removal: only success changes anything, and only at the path.\<close>

lemma fs_remove_file_Inr:
  "fs_remove_file p w = (Inr u, w') \<Longrightarrow>
     nodes w p \<noteq> None \<and> nodes w' = (nodes w)(p := None) \<and> cwd w' = cwd w \<and> ext w' = ext w"
  by (auto simp: fs_remove_file_def fs_call_def split: list.splits option.splits node.splits)

lemma fs_remove_file_Inl:
  "fs_remove_file p w = (Inl e, w') \<Longrightarrow> same_files w w' \<and> (kind e = NotFound \<longrightarrow> nodes w p = None)"
  by (auto simp: fs_remove_file_def fs_call_def same_files_def
      split: list.splits option.splits node.splits)

text \<open>Without scheduled failures the calls are determined by the nodes.\<close>

lemma undisturbed_calls:
  assumes "faults w = []"
  shows "fs_metadata p w = (case nodes w p of None \<Rightarrow> Inl not_found | Some n \<Rightarrow> Inr n, w)"
    and "fs_symlink_metadata p w = (case nodes w p of None \<Rightarrow> Inl not_found | Some n \<Rightarrow> Inr n, w)"
    and "fs_open p w = (case nodes w p of None \<Rightarrow> Inl not_found | Some n \<Rightarrow> Inr n, w)"
    and "fs_sync_all n w = (Inr (), w)"
    and "fs_seek n off w = (Inr (), w)"
    and "fs_current_dir w = (Inr (cwd w), w)"
  using assms by (simp_all add: lookup_defs fs_call_def fs_sync_all_def fs_seek_def fs_current_dir_def)

text \<open>A plan without failures delivers the bytes.\<close>

definition gentle_plan :: "read_plan \<Rightarrow> bool" where
  "gentle_plan plan \<longleftrightarrow> list_all (\<lambda>x. \<not> isl x) plan"

lemma contents_segment [simp]: "contents (segment plan bs) = bs"
  by (induction plan bs rule: segment.induct) auto

lemma steady_segment: "gentle_plan plan \<Longrightarrow> steady (segment plan bs) \<and> calm (segment plan bs)"
proof (induction plan bs rule: segment.induct)
  case (3 k plan bs)
  then show ?case by (auto simp: gentle_plan_def steady_Cons calm_def)
qed (auto simp: gentle_plan_def steady_def calm_def)

end
