(* ===== verification/Unix_Store.thy ===== *)
theory Unix_Store
  imports File_World Envelope_Stream
begin

text \<open>
  The Unix backend, \<^verbatim>\<open>src/filesystem/mod.rs\<close>, with the two loaders of \<^verbatim>\<open>src/format.rs\<close> that open
  files. The crates \<^verbatim>\<open>atomic-write-file\<close>, \<^verbatim>\<open>rustix\<close> and \<^verbatim>\<open>getrandom\<close> are outside the repository:
  the operations the code calls are the fields of \<open>unix_ops\<close>, a parameter of the definitions.
  Code compiled only for the tests (\<^verbatim>\<open>hit_test_stage\<close>) is left out; \<^verbatim>\<open>save_blob\<close> is the
  \<^verbatim>\<open>cfg(not(test))\<close> variant.
\<close>

section \<open>Operations of the crates\<close>

type_synonym fd = nat

record awf_options =
  awf_mode :: nat
  awf_preserve_mode :: bool
  awf_preserve_owner :: bool

datatype errno = NOENT | EXIST | Errno u32

record 'x unix_ops =
  getrandom_fill :: "nat \<Rightarrow> 'x world \<Rightarrow> (getrandom_error + bytes) \<times> 'x world"
  awf_open :: "awf_options \<Rightarrow> path \<Rightarrow> 'x world \<Rightarrow> (io_error + fd) \<times> 'x world"
  awf_write_all :: "fd \<Rightarrow> bytes \<Rightarrow> 'x world \<Rightarrow> (io_error + unit) \<times> 'x world"
  awf_commit :: "fd \<Rightarrow> 'x world \<Rightarrow> (io_error + unit) \<times> 'x world"
  awf_drop :: "fd \<Rightarrow> 'x world \<Rightarrow> 'x world" \<comment> \<open>\<^verbatim>\<open>Drop\<close> of an uncommitted writer\<close>
  rename_noreplace :: "path \<Rightarrow> path \<Rightarrow> 'x world \<Rightarrow> (errno + unit) \<times> 'x world"

section \<open>Initialization\<close>

definition sync_directory ::
    "path \<Rightarrow> store_operation \<Rightarrow> store_operation \<Rightarrow> 'x world \<Rightarrow> (store_error + unit) \<times> 'x world" where
  "sync_directory p open_operation sync_operation w =
    (case fs_open p w of
       (Inl e, w1) \<Rightarrow> (Inl (Io open_operation e), w1)
     | (Inr directory, w1) \<Rightarrow>
         (case fs_sync_all directory w1 of
            (Inl e, w2) \<Rightarrow> (Inl (Io sync_operation e), w2)
          | (Inr _, w2) \<Rightarrow> (Inr (), w2)))"

definition initialize_platform ::
    "path \<Rightarrow> path \<Rightarrow> format_identity \<Rightarrow> u64 \<Rightarrow> nat \<Rightarrow> 'x world
     \<Rightarrow> (store_error + store_config) \<times> 'x world" where
  "initialize_platform root namespace_component fmt limit max_concurrent w =
    (case (if \<not> is_absolute root
           then (case fs_current_dir w of
                   (Inl e, w1) \<Rightarrow> (Inl (Io ResolveCurrentDirectory e), w1)
                 | (Inr current_directory, w1) \<Rightarrow> (Inr (join current_directory root), w1))
           else (Inr root, w)) of
       (Inl e, w1) \<Rightarrow> (Inl e, w1)
     | (Inr root, w1) \<Rightarrow>
    (case fs_metadata root w1 of
       (Inl e, w2) \<Rightarrow>
         (if kind e = NotFound then (Inl RootDoesNotExist, w2) else (Inl (Io InspectRoot e), w2))
     | (Inr metadata, w2) \<Rightarrow>
    if metadata \<noteq> Directory then (Inl RootIsNotDirectory, w2)
    else
      let ns = join root namespace_component;
          config = \<lparr>namespace = ns, format = fmt, maximum = limit, cfg_max_concurrent = max_concurrent\<rparr>
      in (case fs_create_dir ns w2 of
            (Inr _, w3) \<Rightarrow>
              (case sync_directory root OpenRootDirectory SyncRootDirectory w3 of
                 (Inl e, w4) \<Rightarrow> (Inl e, w4)
               | (Inr _, w4) \<Rightarrow> (Inr config, w4))
          | (Inl e, w3) \<Rightarrow>
              if kind e = AlreadyExists then
                (case fs_metadata ns w3 of
                   (Inl e', w4) \<Rightarrow> (Inl (Io InspectNamespace e'), w4)
                 | (Inr metadata', w4) \<Rightarrow>
                     if metadata' \<noteq> Directory then (Inl NamespacePathIsNotDirectory, w4)
                     else (Inr config, w4))
              else (Inl (Io CreateNamespace e), w3))))"

definition ensure_namespace_available ::
    "store_config \<Rightarrow> 'x world \<Rightarrow> (store_error + unit) \<times> 'x world" where
  "ensure_namespace_available config w =
    (case fs_metadata (namespace config) w of
       (Inr metadata, w1) \<Rightarrow>
         if metadata = Directory then (Inr (), w1) else (Inl NamespacePathIsNotDirectory, w1)
     | (Inl e, w1) \<Rightarrow> (Inl (Io InspectNamespace e), w1))"

section \<open>Saving\<close>

definition writer_options :: awf_options where
  "writer_options = \<lparr>awf_mode = 384, awf_preserve_mode = False, awf_preserve_owner = False\<rparr>"

fun write_sections ::
    "'x unix_ops \<Rightarrow> fd \<Rightarrow> bytes list \<Rightarrow> 'x world \<Rightarrow> (store_error + unit) \<times> 'x world" where
  "write_sections ops fd [] w = (Inr (), w)"
| "write_sections ops fd (sect # sects) w =
     (case awf_write_all ops fd sect w of
        (Inl e, w') \<Rightarrow> (Inl (Io WriteEnvelope e), w')
      | (Inr _, w') \<Rightarrow> write_sections ops fd sects w')"

definition save_blob ::
    "'x unix_ops \<Rightarrow> crc32c \<Rightarrow> store_config \<Rightarrow> path \<Rightarrow> bytes \<Rightarrow> 'x world
     \<Rightarrow> (store_error + unit) \<times> 'x world" where
  "save_blob ops c config path payload w =
    (case envelope_parts c (format config) payload (maximum config) of
       Inl e \<Rightarrow> (Inl e, w)
     | Inr (header, checksum) \<Rightarrow>
    (case awf_open ops writer_options path w of
       (Inl e, w1) \<Rightarrow> (Inl (Io OpenAtomicWriter e), w1)
     | (Inr fd, w1) \<Rightarrow>
    (case write_sections ops fd [header, payload, checksum] w1 of
       (Inl e, w2) \<Rightarrow> (Inl e, awf_drop ops fd w2)
     | (Inr _, w2) \<Rightarrow>
    (case awf_commit ops fd w2 of
       (Inl e, w3) \<Rightarrow> (Inl (AtomicCommit e), w3)
     | (Inr _, w3) \<Rightarrow> (Inr (), w3)))))"

definition save_blob_from_receiver ::
    "'x unix_ops \<Rightarrow> crc32c \<Rightarrow> store_config \<Rightarrow> path \<Rightarrow> u64 \<Rightarrow> save_stream_message list \<Rightarrow> 'x world
     \<Rightarrow> (store_error + unit) \<times> 'x world" where
  "save_blob_from_receiver ops c config path declared_len chunks w =
    (case envelope_header (format config) declared_len (maximum config) of
       Inl e \<Rightarrow> (Inl e, w)
     | Inr _ \<Rightarrow>
    (case awf_open ops writer_options path w of
       (Inl e, w1) \<Rightarrow> (Inl (Io OpenAtomicWriter e), w1)
     | (Inr fd, w1) \<Rightarrow>
    (case write_stream_envelope c (awf_write_all ops fd) config w1 declared_len chunks of
       (Inl e, w2) \<Rightarrow> (Inl e, awf_drop ops fd w2)
     | (Inr _, w2) \<Rightarrow>
    (case awf_commit ops fd w2 of
       (Inl e, w3) \<Rightarrow> (Inl (AtomicCommit e), w3)
     | (Inr _, w3) \<Rightarrow> (Inr (), w3)))))"

section \<open>Loading\<close>

definition load_blob ::
    "nat \<Rightarrow> crc32c \<Rightarrow> store_config \<Rightarrow> path \<Rightarrow> 'x world \<Rightarrow> (store_error + bytes option) \<times> 'x world" where
  "load_blob usize_max c config path w =
    (case fs_open path w of
       (Inl e, w1) \<Rightarrow>
         if kind e = NotFound then
           (case ensure_namespace_available config w1 of
              (Inl e', w2) \<Rightarrow> (Inl e', w2)
            | (Inr _, w2) \<Rightarrow> (Inr None, w2))
         else (Inl (Io OpenBlob e), w1)
     | (Inr file, w1) \<Rightarrow>
         (case file_reader file 0 w1 of
            (r, w2) \<Rightarrow>
              (case fst (decode_reader usize_max c (format config) r (maximum config)) of
                 Inl e \<Rightarrow> (Inl e, w2)
               | Inr payload \<Rightarrow> (Inr (Some payload), w2))))"

text \<open>
  The receiving side of a streaming load: how many chunk sends succeed before it disconnects
  (\<open>None\<close>: it never does), and whether it acknowledges the end.
\<close>

record load_consumer =
  accepts :: "nat option"
  acknowledges :: bool

function send_payload ::
    "nat \<Rightarrow> nat option \<Rightarrow> reader \<Rightarrow> (store_error + unit) \<times> bytes list" where
  "send_payload remaining room r =
    (if remaining = 0 then (Inr (), [])
     else let requested = min remaining STREAM_CHUNK_SIZE in
       case read_section requested Payload r of
         (Inl e, r') \<Rightarrow> (Inl e, [])
       | (Inr chunk, r') \<Rightarrow>
           if room = Some 0 then (Inl StreamCancelled, [])
           else (case send_payload (remaining - requested) (map_option (\<lambda>k. k - 1) room) r' of
                   (res, sent) \<Rightarrow> (res, chunk # sent)))"
  by pat_completeness auto
termination
  by (relation "measure (\<lambda>(remaining, room, r). remaining)") (auto simp: STREAM_CHUNK_SIZE_def)

declare send_payload.simps [simp del]

text \<open>The second component is the list of chunks delivered to the consumer.\<close>

definition load_blob_into_sender ::
    "crc32c \<Rightarrow> store_config \<Rightarrow> path \<Rightarrow> load_consumer \<Rightarrow> 'x world
     \<Rightarrow> (store_error + blob_metadata option) \<times> bytes list \<times> 'x world" where
  "load_blob_into_sender c config path consumer w =
    (case fs_open path w of
       (Inl e, w1) \<Rightarrow>
         if kind e = NotFound then
           (case ensure_namespace_available config w1 of
              (Inl e', w2) \<Rightarrow> (Inl e', [], w2)
            | (Inr _, w2) \<Rightarrow> (Inr None, [], w2))
         else (Inl (Io OpenBlob e), [], w1)
     | (Inr file, w1) \<Rightarrow>
         (case file_reader file 0 w1 of
            (r, w2) \<Rightarrow>
         (case validate_envelope_reader c (format config) r (maximum config) of
            (Inl e, _) \<Rightarrow> (Inl e, [], w2)
          | (Inr metadata, _) \<Rightarrow>
         (case fs_seek file HEADER_LEN w2 of
            (Inl e, w3) \<Rightarrow> (Inl (Io ReadEnvelope e), [], w3)
          | (Inr _, w3) \<Rightarrow>
         (case file_reader file HEADER_LEN w3 of
            (r', w4) \<Rightarrow>
         (case send_payload (unat (payload_len metadata)) (accepts consumer) r' of
            (Inl e, sent) \<Rightarrow> (Inl e, sent, w4)
          | (Inr _, sent) \<Rightarrow>
              if acknowledges consumer then (Inr (Some metadata), sent, w4)
              else (Inl StreamCancelled, sent, w4)))))))"

section \<open>Clearing and inspecting\<close>

definition clear_blob :: "store_config \<Rightarrow> path \<Rightarrow> 'x world \<Rightarrow> (store_error + unit) \<times> 'x world" where
  "clear_blob config path w =
    (case fs_remove_file path w of
       (Inr _, w1) \<Rightarrow>
         sync_directory (namespace config) OpenNamespaceDirectory SyncNamespaceDirectory w1
     | (Inl e, w1) \<Rightarrow>
         if kind e = NotFound then ensure_namespace_available config w1
         else (Inl (Io RemoveBlob e), w1))"

definition inspect_blob ::
    "store_config \<Rightarrow> path \<Rightarrow> 'x world \<Rightarrow> (store_error + blob_inspection) \<times> 'x world" where
  "inspect_blob config path w =
    (case fs_symlink_metadata path w of
       (Inr (Regular bs mtime), w1) \<Rightarrow>
         (Inr \<lparr>inspected_state = Present, size_of_blob = Some (of_nat (length bs)), modified = mtime\<rparr>, w1)
     | (Inr _, w1) \<Rightarrow> (Inl UnexpectedFileType, w1)
     | (Inl e, w1) \<Rightarrow>
         if kind e = NotFound then
           (case ensure_namespace_available config w1 of
              (Inl e', w2) \<Rightarrow> (Inl e', w2)
            | (Inr _, w2) \<Rightarrow>
                (Inr \<lparr>inspected_state = Absent, size_of_blob = None, modified = None\<rparr>, w2))
         else (Inl (Io InspectBlob e), w1))"

section \<open>Quarantine\<close>

definition HEX_DIGITS :: string where
  "HEX_DIGITS = ''0123456789abcdef''"

definition hex_of_byte :: "u8 \<Rightarrow> string" where
  "hex_of_byte b = [HEX_DIGITS ! unat (drop_bit 4 b), HEX_DIGITS ! unat (and b 0x0f)]"

text \<open>\<open>fill\<close> is \<^verbatim>\<open>getrandom::fill\<close>.\<close>

definition random_identifier ::
    "(nat \<Rightarrow> 'x world \<Rightarrow> (getrandom_error + bytes) \<times> 'x world) \<Rightarrow> 'x world \<Rightarrow> (store_error + string) \<times> 'x world" where
  "random_identifier fill w =
    (case fill 32 w of
       (Inl e, w1) \<Rightarrow> (Inl (IdentifierGeneration e), w1)
     | (Inr bytes, w1) \<Rightarrow> (Inr (concat (map hex_of_byte bytes)), w1))"

definition sync_quarantine_namespace ::
    "store_config \<Rightarrow> quarantine_info \<Rightarrow> 'x world \<Rightarrow> (store_error + unit) \<times> 'x world" where
  "sync_quarantine_namespace config quarantine w =
    (case fs_open (namespace config) w of
       (Inl e, w1) \<Rightarrow> (Inl (QuarantineNamespaceSync quarantine e), w1)
     | (Inr directory, w1) \<Rightarrow>
         (case fs_sync_all directory w1 of
            (Inl e, w2) \<Rightarrow> (Inl (QuarantineNamespaceSync quarantine e), w2)
          | (Inr _, w2) \<Rightarrow> (Inr (), w2)))"

definition quarantine_destination :: "store_config \<Rightarrow> string \<Rightarrow> string \<Rightarrow> path" where
  "quarantine_destination config hash ident =
     join (namespace config)
       (relative (hash @ filename_suffix (format config) @ ''.quarantine-v1.'' @ ident))"

text \<open>
  One round of the retry loop: the result it returns with, or the world in which the next round
  starts. The loop may run for ever when every random name is taken: \<open>None\<close> is not returning.
\<close>

definition quarantine_round ::
    "'x unix_ops \<Rightarrow> store_config \<Rightarrow> path \<Rightarrow> string \<Rightarrow> 'x world
     \<Rightarrow> ((store_error + quarantine_info) \<times> 'x world) + 'x world" where
  "quarantine_round ops config path hash w =
    (case random_identifier (getrandom_fill ops) w of
       (Inl e, w1) \<Rightarrow> Inl (Inl e, w1)
     | (Inr ident, w1) \<Rightarrow>
         let destination = quarantine_destination config hash ident in
         (case rename_noreplace ops path destination w1 of
            (Inr _, w2) \<Rightarrow>
              (let quarantine = \<lparr>quarantine_identifier = ident, diagnostic_path = destination\<rparr> in
               case sync_quarantine_namespace config quarantine w2 of
                 (Inl e, w3) \<Rightarrow> Inl (Inl e, w3)
               | (Inr _, w3) \<Rightarrow> Inl (Inr quarantine, w3))
          | (Inl NOENT, w2) \<Rightarrow>
              (case ensure_namespace_available config w2 of
                 (Inl e, w3) \<Rightarrow> Inl (Inl e, w3)
               | (Inr _, w3) \<Rightarrow> Inl (Inl QuarantineSourceMissing, w3))
          | (Inl EXIST, w2) \<Rightarrow> Inr w2
          | (Inl (Errno code), w2) \<Rightarrow> Inl (Inl (QuarantineCommit (os_error code)), w2)))"

partial_function (option) quarantine_loop ::
    "'x unix_ops \<Rightarrow> store_config \<Rightarrow> path \<Rightarrow> string \<Rightarrow> 'x world
     \<Rightarrow> ((store_error + quarantine_info) \<times> 'x world) option" where
  "quarantine_loop ops config path hash w =
    (case quarantine_round ops config path hash w of
       Inl result \<Rightarrow> Some result
     | Inr w' \<Rightarrow> quarantine_loop ops config path hash w')"

definition quarantine_blob ::
    "'x unix_ops \<Rightarrow> store_config \<Rightarrow> path \<Rightarrow> 'x world
     \<Rightarrow> ((store_error + quarantine_info) \<times> 'x world) option" where
  "quarantine_blob ops config path w =
    (case file_stem path of
       None \<Rightarrow> Some (Inl UnexpectedFileType, w)
     | Some hash \<Rightarrow> quarantine_loop ops config path hash w)"

section \<open>Cleanup\<close>

text \<open>\<open>os\<close> is \<^verbatim>\<open>std::env::consts::OS\<close>.\<close>

definition cleanup_stale_files ::
    "string \<Rightarrow> store_config \<Rightarrow> duration \<Rightarrow> 'x world \<Rightarrow> (store_error + cleanup_report) \<times> 'x world" where
  "cleanup_stale_files os config minimum_age w = (Inl (CleanupUnsupported os), w)"

end
