(* ===== verification/Unix_Load.thy ===== *)
theory Unix_Load
  imports Unix_Store "HOL-Library.Sublist"
begin

text \<open>
  Facts about the two loaders: they change no file, absence is reported only for a missing blob in
  an available namespace, what they return or deliver is the payload of the stored envelope
  whatever failures occur on the way, and without failures the result is determined by the stored
  bytes.
\<close>

section \<open>Success does not depend on interruptions\<close>

definition calmed :: "reader \<Rightarrow> reader" where
  "calmed r = filter (\<lambda>x. \<not> isl x) r"

definition busy :: "reader \<Rightarrow> bool" where
  "busy r \<longleftrightarrow> Inr [] \<notin> set r"

lemma calmed_simps [simp]:
  "calmed [] = []" "calmed (Inl e # r) = calmed r" "calmed (Inr bs # r) = Inr bs # calmed r"
  by (simp_all add: calmed_def)

lemma contents_calmed [simp]: "contents (calmed r) = contents r"
  by (induction r rule: contents.induct) simp_all

lemma calm_calmed: "calm (calmed r)"
  by (simp add: calm_def calmed_def list_all_iff)

lemma steady_calmed: "busy r \<Longrightarrow> steady (calmed r)"
proof (induction r)
  case (Cons x r)
  then show ?case by (cases x) (auto simp: busy_def steady_Cons)
qed (simp add: steady_def)

lemma read_exact_calmed:
  "read_exact n r = (Inr xs, r') \<Longrightarrow> read_exact n (calmed r) = (Inr xs, calmed r')"
proof (induction n r arbitrary: xs r' rule: read_exact.induct)
  case (4 n bs r)
  then show ?case by (auto split: prod.splits sum.splits if_splits)
qed (auto split: if_splits)

lemma read_section_calmed:
  "read_section n s r = (Inr xs, r') \<Longrightarrow> read_section n s (calmed r) = (Inr xs, calmed r')"
  by (auto simp: read_section_def read_exact_calmed split: prod.splits sum.splits if_splits)

lemma read_end_calmed: "read_end r = Inr u \<Longrightarrow> read_end (calmed r) = Inr u"
  by (cases "(1::nat, r)" rule: read_some.cases) (auto simp: read_end_def split: if_splits)

text \<open>Rules to walk through the decoder, section by section.\<close>

lemma section_calmed:
  assumes "(case read_section n s r of (Inl e, r') \<Rightarrow> (Inl e, r') | (Inr xs, r') \<Rightarrow> F xs r') = (Inr p, q)"
    and "\<And>xs r'. F xs r' = (Inr p, q) \<Longrightarrow> F xs (calmed r') = (Inr p, calmed q)"
  shows "(case read_section n s (calmed r) of (Inl e, r') \<Rightarrow> (Inl e, r') | (Inr xs, r') \<Rightarrow> F xs r')
    = (Inr p, calmed q)"
proof (cases "read_section n s r")
  case (Pair x r')
  with assms show ?thesis by (cases x) (auto dest: read_section_calmed)
qed

lemma guard_calmed:
  assumes "(if b then (Inl e, r) else F r) = (Inr p, q)" and "F r = (Inr p, q) \<Longrightarrow> F r' = (Inr p, q')"
  shows "(if b then (Inl e, r') else F r') = (Inr p, q')"
  using assms by (simp split: if_splits)

lemma end_calmed:
  assumes "(case read_end r of Inl e \<Rightarrow> (Inl e, r) | Inr _ \<Rightarrow> F r) = (Inr p, q)"
    and "F r = (Inr p, q) \<Longrightarrow> F (calmed r) = (Inr p, q')"
  shows "(case read_end (calmed r) of Inl e \<Rightarrow> (Inl e, calmed r) | Inr _ \<Rightarrow> F (calmed r)) = (Inr p, q')"
  using assms by (cases "read_end r") (auto dest: read_end_calmed)

lemma decode_calmed:
  assumes "decode_reader usize_max c fmt r limit = (Inr p, r')"
  shows "decode_reader usize_max c fmt (calmed r) limit = (Inr p, calmed r')"
  using assms unfolding decode_reader_def decode_reader_with_usize_limit_def Let_def
  apply (elim section_calmed guard_calmed end_calmed)
  apply (simp split: if_splits)
  done

text \<open>A successful decode is sound on every file reader.\<close>

lemma decode_sound:
  assumes "crc32c_spec c" and "unat limit + 22 \<le> usize_max" and "usize_max < 2 ^ 64"
    and "busy r" and "fst (decode_reader usize_max c fmt r limit) = Inr p"
  shows "contents r = envelope_layout c fmt p \<and> length p \<le> unat limit"
proof -
  from assms(5) have "fst (decode_reader usize_max c fmt (calmed r) limit) = Inr p"
    by (metis decode_calmed fst_conv prod.collapse)
  moreover have "fst (decode_reader usize_max c fmt (calmed r) limit) =
      parse_envelope c fmt limit (contents r)"
    using same_verdict_calm [OF crc32c_spec.decode_parse [OF assms(1-3) steady_calmed [OF assms(4)]]
        calm_calmed] by simp
  ultimately show ?thesis using parse_okD by metis
qed

lemma validate_sound:
  assumes "crc32c_spec c" and "unat limit + 22 < 2 ^ 64"
    and "busy r" and "validate_envelope_reader c fmt r limit = (Inr m, r')"
  shows "\<exists>p. contents r = envelope_layout c fmt p \<and> length p \<le> unat limit
    \<and> payload_len m = of_nat (length p)"
proof -
  have b: "unat limit + 22 \<le> 2 ^ 64 - 1" "2 ^ 64 - 1 < (2 ^ 64 :: nat)" using assms(2) by simp_all
  from assms(4) obtain p where "fst (decode_reader (2 ^ 64 - 1) c fmt r limit) = Inr p"
      and "payload_len m = of_nat (length p)"
    using crc32c_spec.readers_agree [OF assms(1) b, of fmt r]
    by (cases "decode_reader (2 ^ 64 - 1) c fmt r limit"; cases "fst (decode_reader (2 ^ 64 - 1) c fmt r limit)") auto
  with decode_sound [OF assms(1) b assms(3)] show ?thesis by metis
qed

section \<open>File readers\<close>

fun node_bytes :: "node \<Rightarrow> bytes option" where
  "node_bytes (Regular bs t) = Some bs"
| "node_bytes (Irregular bs) = Some bs"
| "node_bytes Directory = None"

lemma busy_segment: "busy (segment plan bs)"
  by (induction plan bs rule: segment.induct) (auto simp: busy_def)

lemma file_reader_bytes:
  assumes "file_reader n off w = (r, w')"
  shows "busy r" and "node_bytes n = Some bs \<Longrightarrow> contents r = drop off bs"
    and "node_bytes n = None \<Longrightarrow> r = [Inl is_a_directory]"
  using assms by (cases n; auto simp: file_reader_def Let_def busy_segment; simp add: busy_def)+

text \<open>The next opened file is read without failures.\<close>

definition next_gentle :: "'x world \<Rightarrow> bool" where
  "next_gentle w \<longleftrightarrow> plans w = [] \<or> gentle_plan (hd (plans w))"

lemma file_reader_gentle:
  assumes "next_gentle w" and "node_bytes n \<noteq> None" and "file_reader n off w = (r, w')"
  shows "steady r \<and> calm r"
proof -
  have "gentle_plan (case plans w of [] \<Rightarrow> [] | p # _ \<Rightarrow> p)"
    using assms(1) by (auto simp: next_gentle_def gentle_plan_def split: list.splits)
  from steady_segment [OF this] show ?thesis
    using assms(2,3) by (cases n) (auto simp: file_reader_def Let_def)
qed

lemma directory_is_unreadable:
  "fst (decode_reader usize_max c fmt [Inl is_a_directory] limit) = Inl (Io ReadEnvelope is_a_directory)"
  "fst (validate_envelope_reader c fmt [Inl is_a_directory] limit) = Inl (Io ReadEnvelope is_a_directory)"
  by (simp_all add: decode_reader_def decode_reader_with_usize_limit_def validate_envelope_reader_def
      read_section_def DOMAIN_TAG_LEN_def numeral_eq_Suc)

section \<open>Namespace check\<close>

lemma ensure_namespace_same: "ensure_namespace_available config w = (x, w') \<Longrightarrow> same_files w w'"
  by (auto simp: ensure_namespace_available_def split: prod.splits sum.splits if_splits
      dest: frame_dests)

lemma ensure_namespace_ok:
  "ensure_namespace_available config w = (Inr u, w') \<Longrightarrow> nodes w (namespace config) = Some Directory"
  by (auto simp: ensure_namespace_available_def split: prod.splits sum.splits if_splits
      dest: lookup_Inr)

lemma ensure_namespace_undisturbed:
  "faults w = [] \<Longrightarrow> ensure_namespace_available config w =
    (case nodes w (namespace config) of
       Some Directory \<Rightarrow> Inr () | Some _ \<Rightarrow> Inl NamespacePathIsNotDirectory
     | None \<Rightarrow> Inl (Io InspectNamespace not_found), w)"
  by (auto simp: ensure_namespace_available_def undisturbed_calls split: option.splits node.splits)

section \<open>The allocating loader\<close>

lemma load_blob_same:
  assumes "load_blob usize_max c config path w = (res, w')"
  shows "same_files w w'"
proof (cases "fs_open path w")
  case (Pair x w1)
  have w1: "same_files w w1" using frame_dests(4) [OF Pair] .
  show ?thesis
  proof (cases x)
    case (Inl e)
    with assms Pair w1 show ?thesis
      by (auto simp: load_blob_def split: if_splits prod.splits sum.splits
          dest: ensure_namespace_same intro: same_files_trans)
  next
    case (Inr n)
    obtain r w2 where r: "file_reader n 0 w1 = (r, w2)" by fastforce
    with assms Pair Inr have "w' = w2"
      by (auto simp: load_blob_def split: sum.splits)
    with w1 frame_dests(7) [OF r] show ?thesis by (metis same_files_trans)
  qed
qed

lemma load_blob_None:
  assumes "load_blob usize_max c config path w = (Inr None, w')"
  shows "nodes w path = None" and "nodes w (namespace config) = Some Directory"
proof -
  from assms obtain e w1 where e: "fs_open path w = (Inl e, w1)" "kind e = NotFound"
      and ns: "ensure_namespace_available config w1 = (Inr (), w')"
    by (auto simp: load_blob_def split: prod.splits sum.splits if_splits)
  show "nodes w path = None" using lookup_missing(3) [OF e] .
  show "nodes w (namespace config) = Some Directory"
    using ensure_namespace_ok [OF ns] same_files_nodes [OF frame_dests(4) [OF e(1)]] by simp
qed

lemma load_blob_Some:
  assumes "crc32c_spec c" and "unat (maximum config) + 22 \<le> usize_max" and "usize_max < 2 ^ 64"
    and "load_blob usize_max c config path w = (Inr (Some p), w')"
  shows "\<exists>n. nodes w path = Some n \<and> node_bytes n = Some (envelope_layout c (format config) p)
    \<and> length p \<le> unat (maximum config)"
proof -
  from assms(4) obtain n w1 r w2 where o: "fs_open path w = (Inr n, w1)"
      and r: "file_reader n 0 w1 = (r, w2)"
      and d: "fst (decode_reader usize_max c (format config) r (maximum config)) = Inr p"
    by (auto simp: load_blob_def split: prod.splits sum.splits if_splits)
  note s = decode_sound [OF assms(1-3) file_reader_bytes(1) [OF r] d]
  obtain bs where bs: "node_bytes n = Some bs"
    using d file_reader_bytes(3) [OF r] directory_is_unreadable(1) by (cases "node_bytes n") auto
  with s file_reader_bytes(2) [OF r] lookup_Inr(3) [OF o] show ?thesis by auto
qed

lemma load_blob_undisturbed:
  assumes "crc32c_spec c" and "unat (maximum config) + 22 \<le> usize_max" and "usize_max < 2 ^ 64"
    and "faults w = []" and "next_gentle w"
  shows "fst (load_blob usize_max c config path w) =
    (case nodes w path of
       None \<Rightarrow> map_sum id (\<lambda>_. None) (fst (ensure_namespace_available config w))
     | Some n \<Rightarrow>
         (case node_bytes n of
            None \<Rightarrow> Inl (Io ReadEnvelope is_a_directory)
          | Some bs \<Rightarrow> map_sum id Some (parse_envelope c (format config) (maximum config) bs)))"
proof (cases "nodes w path")
  case None
  with assms(4) show ?thesis
    by (auto simp: load_blob_def undisturbed_calls split: prod.splits sum.splits)
next
  case (Some n)
  obtain r w2 where r: "file_reader n 0 w = (r, w2)" by fastforce
  have ld: "fst (load_blob usize_max c config path w) =
      map_sum id Some (fst (decode_reader usize_max c (format config) r (maximum config)))"
    using Some r assms(4) by (auto simp: load_blob_def undisturbed_calls split: sum.splits)
  show ?thesis
  proof (cases "node_bytes n")
    case None
    with Some ld file_reader_bytes(3) [OF r] directory_is_unreadable(1) show ?thesis by simp
  next
    case (Some bs)
    then have "steady r \<and> calm r" using file_reader_gentle [OF assms(5) _ r] by simp
    then have "fst (decode_reader usize_max c (format config) r (maximum config)) =
        parse_envelope c (format config) (maximum config) (contents r)"
      using same_verdict_calm [OF crc32c_spec.decode_parse [OF assms(1-3)]] by blast
    with Some ld \<open>nodes w path = Some n\<close> file_reader_bytes(2) [OF r Some] show ?thesis by simp
  qed
qed

section \<open>The streaming loader\<close>

lemma send_payload_sent:
  assumes "send_payload n room r = (res, sent)"
  shows "prefix (concat sent) (contents r) \<and> length (concat sent) \<le> n
    \<and> (\<forall>x\<in>set sent. 0 < length x \<and> length x \<le> STREAM_CHUNK_SIZE)
    \<and> (res = Inr () \<longrightarrow> length (concat sent) = n)
    \<and> (\<forall>k. room = Some k \<longrightarrow> length sent \<le> k)"
  using assms
proof (induction n arbitrary: room r res sent rule: less_induct)
  case (less n)
  let ?q = "min n STREAM_CHUNK_SIZE"
  show ?case
  proof (cases "n = 0")
    case True
    with less.prems show ?thesis by (auto simp: send_payload.simps [of 0])
  next
    case False
    obtain x r' where rs: "read_section ?q Payload r = (x, r')" by fastforce
    show ?thesis
    proof (cases "isl x \<or> room = Some 0")
      case True
      with less.prems rs False show ?thesis
        by (cases x) (auto simp: send_payload.simps [of n] Let_def)
    next
      case nz: False
      then obtain chunk where x: "x = Inr chunk" by (cases x) auto
      obtain res' sent' where rec: "send_payload (n - ?q) (map_option (\<lambda>k. k - 1) room) r' = (res', sent')"
        by fastforce
      with less.prems rs False nz x have eq: "res = res'" "sent = chunk # sent'"
        by (auto simp: send_payload.simps [of n] Let_def)
      have q: "0 < ?q" "?q \<le> n" using False by (auto simp: STREAM_CHUNK_SIZE_def)
      have ch: "length chunk = ?q" "contents r = chunk @ contents r'"
        using read_section_Inr [OF rs [unfolded x]] by auto
      from less.IH [OF _ rec] q have IH: "prefix (concat sent') (contents r')" "length (concat sent') \<le> n - ?q"
        "\<forall>x\<in>set sent'. 0 < length x \<and> length x \<le> STREAM_CHUNK_SIZE"
        "res' = Inr () \<longrightarrow> length (concat sent') = n - ?q"
        "\<forall>k. map_option (\<lambda>k. k - 1) room = Some k \<longrightarrow> length sent' \<le> k" by auto
      show ?thesis
        unfolding eq using IH ch q nz by (auto simp: less_Suc_eq_le[symmetric])
    qed
  qed
qed

lemma send_payload_total:
  assumes "steady r" and "n \<le> length (contents r)"
  shows "fst (send_payload n None r) = Inr ()"
  using assms
proof (induction n arbitrary: r rule: less_induct)
  case (less n)
  let ?q = "min n STREAM_CHUNK_SIZE"
  show ?case
  proof (cases "n = 0")
    case True
    then show ?thesis by (simp add: send_payload.simps [of 0])
  next
    case False
    have q: "0 < ?q" "?q \<le> n" using False by (auto simp: STREAM_CHUNK_SIZE_def)
    obtain r' where r': "read_section ?q Payload r = (Inr (take ?q (contents r)), r')" "steady r'"
        "contents r' = drop ?q (contents r)"
      using read_section_steady [OF less.prems(1), of ?q] less.prems(2) q by (metis order.trans)
    have "fst (send_payload (n - ?q) None r') = Inr ()"
      using less.IH [of "n - ?q" r'] r' less.prems(2) q by simp
    with r' False show ?thesis
      by (auto simp: send_payload.simps [of n] Let_def split: prod.splits)
  qed
qed

lemma drop_header:
  "valid_format fmt \<Longrightarrow> \<exists>ck. drop HEADER_LEN (envelope_layout c fmt p) = p @ ck"
  by (simp add: envelope_layout_def header_layout_def valid_format_def HEADER_LEN_def Let_def)

lemma stream_load_opened:
  assumes "fs_open path w = (Inr n, w1)" and "file_reader n 0 w1 = (r, w2)"
    and "load_blob_into_sender c config path consumer w = (res, sent, w')"
  shows "same_files w w'"
    and "fst (validate_envelope_reader c (format config) r (maximum config)) = Inl e \<Longrightarrow>
      res = Inl e \<and> sent = []"
    and "fst (validate_envelope_reader c (format config) r (maximum config)) = Inr m \<Longrightarrow>
      sent = [] \<and> isl res \<or>
      (\<exists>w3 r' x. same_files w w3 \<and> fst (file_reader n HEADER_LEN w3) = r'
        \<and> send_payload (unat (payload_len m)) (accepts consumer) r' = (x, sent)
        \<and> res = (case x of Inl e \<Rightarrow> Inl e
            | Inr _ \<Rightarrow> if acknowledges consumer then Inr (Some m) else Inl StreamCancelled))"
proof -
  obtain v rest where v: "validate_envelope_reader c (format config) r (maximum config) = (v, rest)"
    by fastforce
  obtain s w3 where s: "fs_seek n HEADER_LEN w2 = (s, w3)" by fastforce
  obtain r' w4 where r': "file_reader n HEADER_LEN w3 = (r', w4)" by fastforce
  have same: "same_files w w2" "same_files w w3" "same_files w w4"
    using frame_dests(4) [OF assms(1)] frame_dests(7) [OF assms(2)] frame_dests(6) [OF s]
      frame_dests(7) [OF r'] by (auto simp: same_files_def)
  note eq = assms(3) [unfolded load_blob_into_sender_def assms(1) prod.case sum.case assms(2) v s r']
  show "same_files w w'"
    using eq same by (auto split: sum.splits prod.splits if_splits)
  show "res = Inl e \<and> sent = []"
    if "fst (validate_envelope_reader c (format config) r (maximum config)) = Inl e"
    using eq that v by simp
  show "sent = [] \<and> isl res \<or>
      (\<exists>w3 r' x. same_files w w3 \<and> fst (file_reader n HEADER_LEN w3) = r'
        \<and> send_payload (unat (payload_len m)) (accepts consumer) r' = (x, sent)
        \<and> res = (case x of Inl e \<Rightarrow> Inl e
            | Inr _ \<Rightarrow> if acknowledges consumer then Inr (Some m) else Inl StreamCancelled))"
    if "fst (validate_envelope_reader c (format config) r (maximum config)) = Inr m"
  proof (cases s)
    case Inl
    with eq that v show ?thesis by auto
  next
    case (Inr u)
    obtain x sent' where sp: "send_payload (unat (payload_len m)) (accepts consumer) r' = (x, sent')"
      by fastforce
    with eq that v Inr have "sent = sent'" and "res = (case x of Inl e \<Rightarrow> Inl e
            | Inr _ \<Rightarrow> if acknowledges consumer then Inr (Some m) else Inl StreamCancelled)"
      by (auto split: sum.splits if_splits)
    with sp r' same(2) show ?thesis by (metis fst_conv)
  qed
qed

lemma stream_load_same:
  assumes "load_blob_into_sender c config path consumer w = (res, sent, w')"
  shows "same_files w w'"
proof (cases "fs_open path w")
  case (Pair x w1)
  show ?thesis
  proof (cases x)
    case (Inl e)
    with assms Pair show ?thesis
      by (auto simp: load_blob_into_sender_def split: if_splits prod.splits sum.splits
          dest!: ensure_namespace_same frame_dests(4) intro: same_files_trans)
  next
    case (Inr n)
    with Pair stream_load_opened(1) [OF _ _ assms, of n w1] show ?thesis
      by (metis prod.collapse)
  qed
qed

lemma stream_load_None:
  assumes "load_blob_into_sender c config path consumer w = (Inr None, sent, w')"
  shows "nodes w path = None" and "nodes w (namespace config) = Some Directory" and "sent = []"
proof -
  obtain x w1 where o: "fs_open path w = (x, w1)" by fastforce
  have "isl x"
  proof (rule ccontr)
    assume "\<not> isl x"
    then obtain n where x: "x = Inr n" by (cases x) auto
    obtain r w2 where r: "file_reader n 0 w1 = (r, w2)" by fastforce
    note so = stream_load_opened [OF o [unfolded x] r assms]
    show False
    proof (cases "fst (validate_envelope_reader c (format config) r (maximum config))")
      case Inl
      with so(2) show False by blast
    next
      case (Inr m)
      with so(3) show False by (fastforce split: sum.splits if_splits)
    qed
  qed
  then obtain e where e: "x = Inl e" by (cases x) auto
  with assms o have k: "kind e = NotFound" and ns: "ensure_namespace_available config w1 = (Inr (), w')"
      and "sent = []"
    by (auto simp: load_blob_into_sender_def split: prod.splits sum.splits if_splits)
  then show "sent = []" by simp
  show "nodes w path = None" using lookup_missing(3) [OF o [unfolded e] k] .
  show "nodes w (namespace config) = Some Directory"
    using ensure_namespace_ok [OF ns] same_files_nodes [OF frame_dests(4) [OF o]] by simp
qed

text \<open>Every byte delivered is a payload byte of a completely valid stored envelope.\<close>

lemma stream_load_sent:
  assumes "crc32c_spec c" and "valid_format (format config)" and "unat (maximum config) + 22 < 2 ^ 64"
    and ld: "load_blob_into_sender c config path consumer w = (res, sent, w')"
    and out: "sent \<noteq> [] \<or> res = Inr (Some m)"
  shows "\<exists>n p. nodes w path = Some n \<and> node_bytes n = Some (envelope_layout c (format config) p)
    \<and> length p \<le> unat (maximum config) \<and> prefix (concat sent) p
    \<and> (\<forall>x\<in>set sent. 0 < length x \<and> length x \<le> STREAM_CHUNK_SIZE)
    \<and> (res = Inr (Some m) \<longrightarrow> concat sent = p \<and> payload_len m = of_nat (length p) \<and> acknowledges consumer)"
proof -
  obtain x w1 where o: "fs_open path w = (x, w1)" by fastforce
  obtain n where x: "x = Inr n"
    using ld out o by (cases x) (auto simp: load_blob_into_sender_def split: prod.splits sum.splits if_splits)
  obtain r w2 where r: "file_reader n 0 w1 = (r, w2)" by fastforce
  note so = stream_load_opened [OF o [unfolded x] r ld]
  obtain m' where m': "fst (validate_envelope_reader c (format config) r (maximum config)) = Inr m'"
    using so(2) out by (cases "fst (validate_envelope_reader c (format config) r (maximum config))") auto
  then obtain rest where "validate_envelope_reader c (format config) r (maximum config) = (Inr m', rest)"
    by (metis prod.collapse)
  from validate_sound [OF assms(1,3) file_reader_bytes(1) [OF r] this] obtain p where
    p: "contents r = envelope_layout c (format config) p" "length p \<le> unat (maximum config)"
      "payload_len m' = of_nat (length p)" by blast
  have nb: "node_bytes n = Some (envelope_layout c (format config) p)"
  proof (cases "node_bytes n")
    case None
    with file_reader_bytes(3) [OF r] m' directory_is_unreadable(2) show ?thesis by simp
  next
    case (Some bs)
    with file_reader_bytes(2) [OF r Some] p(1) show ?thesis by simp
  qed
  have len: "unat (payload_len m') = length p"
    using p(2,3) le_less_trans [OF p(2) unat_u64_less] by simp
  have "\<not> (sent = [] \<and> isl res)" using out by auto
  with so(3) [OF m'] obtain w3 y where
    "same_files w w3"
    and sp: "send_payload (length p) (accepts consumer) (fst (file_reader n HEADER_LEN w3)) = (y, sent)"
    and res: "res = (case y of Inl e \<Rightarrow> Inl e
            | Inr _ \<Rightarrow> if acknowledges consumer then Inr (Some m') else Inl StreamCancelled)"
    unfolding len by blast
  obtain ck where "contents (fst (file_reader n HEADER_LEN w3)) = p @ ck"
    using file_reader_bytes(2) [OF prod.collapse [symmetric] nb] drop_header [OF assms(2)] by metis
  with send_payload_sent [OF sp] have sent: "prefix (concat sent) (p @ ck)" "length (concat sent) \<le> length p"
    "\<forall>x\<in>set sent. 0 < length x \<and> length x \<le> STREAM_CHUNK_SIZE"
    "y = Inr () \<longrightarrow> length (concat sent) = length p" by simp_all
  then have pre: "prefix (concat sent) p"
    using prefix_length_prefix [of "concat sent" "p @ ck" p] by simp
  have "concat sent = p \<and> payload_len m = of_nat (length p) \<and> acknowledges consumer"
    if "res = Inr (Some m)"
    using that res sent(4) pre p(3)
    by (auto simp: prefix_def split: sum.splits if_splits)
  with lookup_Inr(3) [OF o [unfolded x]] nb p(2) pre sent(3) show ?thesis by blast
qed

text \<open>A valid stored envelope is delivered in full to a consumer that stays.\<close>

lemma stream_load_complete:
  assumes "crc32c_spec c" and "valid_format (format config)" and "unat (maximum config) + 22 < 2 ^ 64"
    and "faults w = []" and "next_gentle w" and "next_gentle (w\<lparr>plans := tl (plans w)\<rparr>)"
    and "nodes w path = Some n" and "node_bytes n = Some (envelope_layout c (format config) p)"
    and "length p \<le> unat (maximum config)" and "accepts consumer = None" and "acknowledges consumer"
    and ld: "load_blob_into_sender c config path consumer w = (res, sent, w')"
  shows "res = Inr (Some \<lparr>payload_len = of_nat (length p)\<rparr>) \<and> concat sent = p"
proof -
  let ?w1 = "w\<lparr>plans := tl (plans w)\<rparr>" and ?m = "\<lparr>payload_len = of_nat (length p) :: u64\<rparr>"
  obtain r where r: "file_reader n 0 w = (r, ?w1)"
    by (cases n) (auto simp: file_reader_def Let_def)
  obtain r' w4 where r': "file_reader n HEADER_LEN ?w1 = (r', w4)" by fastforce
  have st: "steady r" "calm r" using file_reader_gentle [OF assms(5) _ r] assms(8) by auto
  have tag: "length (domain_tag (format config)) = 8" using assms(2) by (simp add: valid_format_def)
  have b: "unat (maximum config) + 22 \<le> 2 ^ 64 - 1" "2 ^ 64 - 1 < (2 ^ 64 :: nat)"
    using assms(3) by simp_all
  have "fst (decode_reader (2 ^ 64 - 1) c (format config) r (maximum config)) = Inr p"
    using same_verdict_calm [OF crc32c_spec.decode_parse [OF assms(1) b st(1)] st(2)]
      file_reader_bytes(2) [OF r assms(8)] parse_layout [OF tag assms(9)] by simp
  then have v: "fst (validate_envelope_reader c (format config) r (maximum config)) = Inr ?m"
    using crc32c_spec.readers_agree [OF assms(1) b, of "format config" r] by simp
  have len: "unat (of_nat (length p) :: u64) = length p"
    using le_less_trans [OF assms(9) unat_u64_less] by simp
  obtain ck where ck: "contents r' = p @ ck"
    using file_reader_bytes(2) [OF r' assms(8)] drop_header [OF assms(2)] by metis
  obtain y where sp: "send_payload (length p) None r' = (y, sent)" and "y = Inr ()"
      and res: "res = Inr (Some ?m)"
  proof -
    have "steady r'" using file_reader_gentle [OF assms(6) _ r'] assms(8) by simp
    then have "fst (send_payload (length p) None r') = Inr ()"
      using send_payload_total ck by simp
    then obtain s where s: "send_payload (length p) None r' = (Inr (), s)" by (metis prod.collapse)
    obtain rest where "validate_envelope_reader c (format config) r (maximum config) = (Inr ?m, rest)"
      using v by (metis prod.collapse)
    with ld assms(4,7,10,11) r r' s len have "sent = s \<and> res = Inr (Some ?m)"
      by (simp add: load_blob_into_sender_def undisturbed_calls)
    with s that show thesis by blast
  qed
  with send_payload_sent [OF sp] ck have "prefix (concat sent) (p @ ck)" "length (concat sent) = length p"
    by simp_all
  then have "concat sent = p" by (metis append_eq_append_conv prefix_def)
  with res show ?thesis by simp
qed

end
