(* ===== verification/Unix_Facts.thy ===== *)
theory Unix_Facts
  imports Unix_Load
begin

text \<open>
  Facts about the Unix backend. Locale \<open>unix_ops_spec\<close> states the documented behaviour of the crates
  it calls: an atomic writer collects bytes away from the published files and publishes them by one
  replacement (a failing commit leaves the old or the new file), a no-replace rename moves a file
  or reports why not, random bytes come in the requested number. \<open>hidden\<close> tells the temporary names
  the atomic-write crate owns. The interface is interpreted on \<open>posix_ops\<close>, an executable
  in-memory implementation.
\<close>

section \<open>What a call may change\<close>

definition agree :: "(path \<Rightarrow> bool) \<Rightarrow> 'x world \<Rightarrow> 'x world \<Rightarrow> bool" where
  "agree hidden w w' \<longleftrightarrow> (\<forall>p. \<not> hidden p \<longrightarrow> nodes w' p = nodes w p)"

definition stored :: "(path \<Rightarrow> bool) \<Rightarrow> path \<Rightarrow> bytes \<Rightarrow> 'x world \<Rightarrow> 'x world \<Rightarrow> bool" where
  "stored hidden p bs w w' \<longleftrightarrow> (\<exists>t. nodes w' p = Some (Regular bs t))
     \<and> (\<forall>q. \<not> hidden q \<longrightarrow> q \<noteq> p \<longrightarrow> nodes w' q = nodes w q)"

definition moved :: "(path \<Rightarrow> bool) \<Rightarrow> path \<Rightarrow> path \<Rightarrow> 'x world \<Rightarrow> 'x world \<Rightarrow> bool" where
  "moved hidden src dst w w' \<longleftrightarrow> nodes w src \<noteq> None \<and> nodes w dst = None
     \<and> nodes w' dst = nodes w src \<and> nodes w' src = None
     \<and> (\<forall>q. \<not> hidden q \<longrightarrow> q \<noteq> src \<longrightarrow> q \<noteq> dst \<longrightarrow> nodes w' q = nodes w q)"

lemma agree_refl [simp]: "agree hidden w w"
  by (simp add: agree_def)

lemma agree_trans [trans]: "agree hidden w w' \<Longrightarrow> agree hidden w' w'' \<Longrightarrow> agree hidden w w''"
  by (simp add: agree_def)

lemma agree_same: "same_files w w' \<Longrightarrow> agree hidden w w'"
  by (simp add: agree_def same_files_def)

lemma agree_stored: "agree hidden w w' \<Longrightarrow> stored hidden p bs w' w'' \<Longrightarrow> stored hidden p bs w w''"
  by (simp add: agree_def stored_def)

lemma moved_same: "moved hidden src dst w w' \<Longrightarrow> same_files w' w'' \<Longrightarrow> moved hidden src dst w w''"
  by (simp add: moved_def same_files_def)

text \<open>The effect of a save, by its result: success stores the envelope, an error of the commit leaves
  the old or the new file, any other error leaves everything as it was.\<close>

definition save_effect ::
    "(path \<Rightarrow> bool) \<Rightarrow> path \<Rightarrow> bytes \<Rightarrow> 'x world \<Rightarrow> store_error + unit \<Rightarrow> 'x world \<Rightarrow> bool" where
  "save_effect hidden p env w res w' \<longleftrightarrow>
    (case res of
       Inr _ \<Rightarrow> stored hidden p env w w'
     | Inl e \<Rightarrow> agree hidden w w' \<or> (\<exists>x. e = AtomicCommit x) \<and> stored hidden p env w w')"

lemma save_effect_early: "agree hidden w w' \<Longrightarrow> save_effect hidden p env w (Inl e) w'"
  by (simp add: save_effect_def)

section \<open>Clearing\<close>

lemma sync_directory_same: "sync_directory p o1 o2 w = (x, w') \<Longrightarrow> same_files w w'"
  by (auto simp: sync_directory_def split: prod.splits sum.splits
      dest!: frame_dests(4,5) intro: same_files_trans)

lemma sync_directory_error:
  "sync_directory p o1 o2 w = (Inl e, w') \<Longrightarrow> \<exists>x. e = Io o1 x \<or> e = Io o2 x"
  by (auto simp: sync_directory_def split: prod.splits sum.splits)

lemma sync_directory_undisturbed:
  "faults w = [] \<Longrightarrow> nodes w p = Some n \<Longrightarrow> sync_directory p o1 o2 w = (Inr (), w)"
  by (simp add: sync_directory_def undisturbed_calls)

lemma clear_blob_ok:
  assumes "clear_blob config path w = (Inr u, w')"
  shows "nodes w' = (nodes w)(path := None)"
    and "nodes w path = None \<Longrightarrow> nodes w (namespace config) = Some Directory"
proof -
  obtain x w1 where x: "fs_remove_file path w = (x, w1)" by fastforce
  have "nodes w' = (nodes w)(path := None) \<and>
      (nodes w path = None \<longrightarrow> nodes w (namespace config) = Some Directory)"
  proof (cases x)
    case (Inl e)
    with assms x have k: "kind e = NotFound" and ns: "ensure_namespace_available config w1 = (Inr (), w')"
      by (auto simp: clear_blob_def split: if_splits)
    have s: "same_files w w1" "nodes w path = None" using fs_remove_file_Inl [OF x [unfolded Inl]] k by auto
    with ensure_namespace_same [OF ns] ensure_namespace_ok [OF ns] show ?thesis
      by (auto simp: same_files_def fun_eq_iff)
  next
    case (Inr v)
    with assms x have "sync_directory (namespace config) OpenNamespaceDirectory SyncNamespaceDirectory w1 = (Inr (), w')"
      by (simp add: clear_blob_def)
    with fs_remove_file_Inr [OF x [unfolded Inr]] show ?thesis
      by (auto dest: sync_directory_same simp: same_files_def)
  qed
  then show "nodes w' = (nodes w)(path := None)"
    and "nodes w path = None \<Longrightarrow> nodes w (namespace config) = Some Directory" by auto
qed

lemma clear_blob_error:
  assumes "clear_blob config path w = (Inl e, w')"
  shows "nodes w' = nodes w \<or> nodes w' = (nodes w)(path := None)
    \<and> (\<exists>x. e = Io OpenNamespaceDirectory x \<or> e = Io SyncNamespaceDirectory x)"
proof -
  obtain x w1 where x: "fs_remove_file path w = (x, w1)" by fastforce
  show ?thesis
  proof (cases x)
    case (Inl e')
    with assms x show ?thesis
      using fs_remove_file_Inl [OF x [unfolded Inl]]
      by (auto simp: clear_blob_def same_files_def dest: ensure_namespace_same split: if_splits)
  next
    case (Inr v)
    with assms x have "sync_directory (namespace config) OpenNamespaceDirectory SyncNamespaceDirectory w1 = (Inl e, w')"
      by (simp add: clear_blob_def)
    with fs_remove_file_Inr [OF x [unfolded Inr]] show ?thesis
      using sync_directory_error by (auto dest: sync_directory_same simp: same_files_def)
  qed
qed

lemma clear_blob_undisturbed:
  assumes "faults w = []" and "nodes w (namespace config) = Some Directory"
    and "path \<noteq> namespace config" and "nodes w path \<noteq> Some Directory"
  shows "clear_blob config path w = (Inr (), w\<lparr>nodes := (nodes w)(path := None)\<rparr>)"
proof (cases "nodes w path")
  case None
  then have "(nodes w)(path := None) = nodes w" by auto
  with None assms show ?thesis
    by (simp add: clear_blob_def fs_remove_file_def fs_call_def ensure_namespace_undisturbed)
next
  case (Some n)
  with assms show ?thesis
    by (cases n) (simp_all add: clear_blob_def fs_remove_file_def fs_call_def sync_directory_undisturbed)
qed

section \<open>Inspecting\<close>

lemma inspect_blob_same: "inspect_blob config path w = (res, w') \<Longrightarrow> same_files w w'"
  by (auto simp: inspect_blob_def split: prod.splits sum.splits node.splits if_splits
      dest!: frame_dests(3) ensure_namespace_same intro: same_files_trans)

lemma inspect_blob_ok:
  assumes "inspect_blob config path w = (Inr i, w')"
  shows "(\<exists>bs t. nodes w path = Some (Regular bs t)
        \<and> i = \<lparr>inspected_state = Present, size_of_blob = Some (of_nat (length bs)), modified = t\<rparr>)
    \<or> nodes w path = None \<and> nodes w (namespace config) = Some Directory
        \<and> i = \<lparr>inspected_state = Absent, size_of_blob = None, modified = None\<rparr>"
proof -
  obtain x w1 where x: "fs_symlink_metadata path w = (x, w1)" by fastforce
  show ?thesis
  proof (cases x)
    case (Inl e)
    with assms x have "kind e = NotFound" and ns: "ensure_namespace_available config w1 = (Inr (), w')"
        and "i = \<lparr>inspected_state = Absent, size_of_blob = None, modified = None\<rparr>"
      by (auto simp: inspect_blob_def split: if_splits prod.splits sum.splits)
    moreover have "nodes w1 = nodes w" using frame_dests(3) [OF x] by (simp add: same_files_def)
    ultimately show ?thesis
      using lookup_missing(2) [OF x [unfolded Inl]] ensure_namespace_ok [OF ns] by simp
  next
    case (Inr n)
    with assms x lookup_Inr(2) [OF x [unfolded Inr]] show ?thesis
      by (auto simp: inspect_blob_def split: node.splits)
  qed
qed

section \<open>Identifiers\<close>

lemma hex_digit:
  assumes "i < 16" shows "HEX_DIGITS ! i \<in> lower_hex"
  using assms nth_mem [of i HEX_DIGITS] by (simp add: lower_hex_def HEX_DIGITS_def)

lemma unat_u8_less: "unat (b :: u8) < 256"
  using unsigned_less [of b] by simp

lemma nibbles:
  "unat (drop_bit 4 (b :: u8)) = unat b div 16" "unat (and b 0x0f) = unat b mod 16"
proof -
  show "unat (drop_bit 4 b) = unat b div 16"
    by (simp add: drop_bit_eq_div unat_div_distrib)
  have "and b 0x0f = take_bit 4 b"
    using take_bit_eq_mask [of 4 b] by (simp add: mask_eq_exp_minus_1)
  then show "unat (and b 0x0f) = unat b mod 16"
    by (simp add: take_bit_eq_mod unat_mod_distrib)
qed

lemma hex_of_byte_simps: "length (hex_of_byte b) = 2" "set (hex_of_byte b) \<subseteq> lower_hex"
proof -
  have "unat b div 16 < 16" using unat_u8_less [of b] by simp
  then show "set (hex_of_byte b) \<subseteq> lower_hex" by (auto simp: hex_of_byte_def nibbles intro: hex_digit)
qed (simp add: hex_of_byte_def)

lemma hex_of_byte_inj: "hex_of_byte b = hex_of_byte b' \<longleftrightarrow> b = b'"
proof
  assume eq: "hex_of_byte b = hex_of_byte b'"
  have d: "distinct HEX_DIGITS" and l: "length HEX_DIGITS = 16" by (simp_all add: HEX_DIGITS_def)
  have "unat b div 16 < 16" "unat b' div 16 < 16" using unat_u8_less [of b] unat_u8_less [of b'] by simp_all
  with eq have "unat b div 16 = unat b' div 16" "unat b mod 16 = unat b' mod 16"
    using nth_eq_iff_index_eq [OF d, unfolded l] by (simp_all add: hex_of_byte_def nibbles)
  then have "unat b = unat b'" by (metis div_mult_mod_eq)
  then show "b = b'" by (simp add: word_unat_eq_iff)
qed simp

definition hex :: "bytes \<Rightarrow> string" where
  "hex bs = concat (map hex_of_byte bs)"

lemma length_hex: "length (hex bs) = 2 * length bs"
  by (induction bs) (simp_all add: hex_def hex_of_byte_simps)

lemma set_hex: "set (hex bs) \<subseteq> lower_hex"
  using hex_of_byte_simps(2) by (auto simp: hex_def)

lemma hex_eq_iff: "hex bs = hex bs' \<longleftrightarrow> bs = bs'"
proof (induction bs arbitrary: bs')
  case Nil
  then show ?case using length_hex [of bs'] by (auto simp: hex_def [of "[]"])
next
  case (Cons b bs)
  show ?case
  proof (cases bs')
    case Nil
    then show ?thesis using length_hex [of "b # bs"] by (auto simp: hex_def [of "[]"])
  next
    case (Cons b' r)
    with Cons.IH [of r] show ?thesis
      by (simp add: hex_def append_eq_append_conv hex_of_byte_simps hex_of_byte_inj)
  qed
qed

lemma random_identifier_hex:
  "random_identifier fill w =
    (case fill 32 w of
       (Inl e, w1) \<Rightarrow> (Inl (IdentifierGeneration e), w1) | (Inr bs, w1) \<Rightarrow> (Inr (hex bs), w1))"
  by (simp add: random_identifier_def hex_def split: prod.splits sum.splits)

section \<open>Contract of the crates\<close>

locale unix_ops_spec =
  fixes ops :: "'x unix_ops"
    and hidden :: "path \<Rightarrow> bool"
    and staged :: "fd \<Rightarrow> 'x world \<Rightarrow> (path \<times> bytes) option"
  assumes random_length: "getrandom_fill ops n w = (Inr bs, w') \<Longrightarrow> length bs = n"
    and random_frame: "agree hidden w (snd (getrandom_fill ops n w))"
    and open_staged: "awf_open ops opts p w = (Inr fd, w') \<Longrightarrow> staged fd w' = Some (p, [])"
    and open_frame: "agree hidden w (snd (awf_open ops opts p w))"
    and write_staged: "staged fd w = Some (p, bs) \<Longrightarrow> awf_write_all ops fd d w = (Inr u, w') \<Longrightarrow>
      staged fd w' = Some (p, bs @ d)"
    and write_frame: "agree hidden w (snd (awf_write_all ops fd d w))"
    and commit_ok: "staged fd w = Some (p, bs) \<Longrightarrow> awf_commit ops fd w = (Inr u, w') \<Longrightarrow>
      stored hidden p bs w w'"
    and commit_err: "staged fd w = Some (p, bs) \<Longrightarrow> awf_commit ops fd w = (Inl e, w') \<Longrightarrow>
      agree hidden w w' \<or> stored hidden p bs w w'"
    and drop_frame: "agree hidden w (awf_drop ops fd w)"
    and rename_ok: "src \<noteq> dst \<Longrightarrow> rename_noreplace ops src dst w = (Inr u, w') \<Longrightarrow>
      moved hidden src dst w w'"
    and hidden_names: "hidden p \<Longrightarrow> \<exists>name. path_components p \<noteq> [] \<and> last (path_components p) = CHR ''.'' # name"
    and rename_err: "rename_noreplace ops src dst w = (Inl code, w') \<Longrightarrow> agree hidden w w'
      \<and> (code = NOENT \<longrightarrow> nodes w src = None) \<and> (code = EXIST \<longrightarrow> nodes w dst \<noteq> None)"

text \<open>The staging file of one descriptor is a writer in the sense of \<open>Envelope_Stream\<close>.\<close>

sublocale unix_ops_spec \<subseteq> staging: writer "awf_write_all ops fd"
    "\<lambda>w. case staged fd w of Some (_, bs) \<Rightarrow> bs | None \<Rightarrow> []" "\<lambda>w. \<exists>bs. staged fd w = Some (p, bs)" for fd p
proof
  fix w d u w'
  assume "\<exists>bs. staged fd w = Some (p, bs)" and "awf_write_all ops fd d w = (Inr u, w')"
  then obtain bs where "staged fd w = Some (p, bs)" "staged fd w' = Some (p, bs @ d)"
    using write_staged by blast
  then show "(case staged fd w' of Some (_, bs) \<Rightarrow> bs | None \<Rightarrow> []) =
      (case staged fd w of Some (_, bs) \<Rightarrow> bs | None \<Rightarrow> []) @ d \<and> (\<exists>bs. staged fd w' = Some (p, bs))"
    by simp
qed

section \<open>Saving\<close>

context unix_ops_spec
begin

lemma frames_of:
  "awf_open ops opts p w = (x1, w') \<Longrightarrow> agree hidden w w'"
  "awf_write_all ops fd d w = (x2, w') \<Longrightarrow> agree hidden w w'"
  "getrandom_fill ops n w = (x3, w') \<Longrightarrow> agree hidden w w'"
  using open_frame [of w opts p] write_frame [of w fd d] random_frame [of w n] by simp_all

lemma write_sections_staged:
  "staged fd w = Some (p, bs) \<Longrightarrow> write_sections ops fd ss w = (Inr u, w') \<Longrightarrow>
     staged fd w' = Some (p, bs @ concat ss)"
  by (induction ss arbitrary: w bs) (fastforce split: prod.splits sum.splits dest: write_staged)+

lemma write_sections_frame: "write_sections ops fd ss w = (x, w') \<Longrightarrow> agree hidden w w'"
proof (induction ss arbitrary: w)
  case (Cons s ss)
  then show ?case
    by (auto split: prod.splits sum.splits dest: frames_of(2) intro: agree_trans)
qed simp

lemma write_sections_error:
  "write_sections ops fd ss w = (Inl e, w') \<Longrightarrow> \<exists>x. e = Io WriteEnvelope x"
  by (induction ss arbitrary: w) (auto split: prod.splits sum.splits)

lemma commit_frame:
  assumes "agree hidden w w1" and "staged fd w1 = Some (p, bs)"
  shows "awf_commit ops fd w1 = (Inr u, w') \<Longrightarrow> stored hidden p bs w w'"
    and "awf_commit ops fd w1 = (Inl e, w') \<Longrightarrow> agree hidden w w' \<or> stored hidden p bs w w'"
  using commit_ok [OF assms(2)] commit_err [OF assms(2)] agree_stored [OF assms(1)] agree_trans [OF assms(1)]
  by blast+

lemma commit_effect:
  assumes "agree hidden w w1" and "staged fd w1 = Some (p, env)"
    and "(case awf_commit ops fd w1 of
       (Inl e, w3) \<Rightarrow> (Inl (AtomicCommit e), w3) | (Inr _, w3) \<Rightarrow> (Inr (), w3)) = (res, w')"
  shows "save_effect hidden p env w res w'"
  using assms(3) commit_frame [OF assms(1,2)]
  by (auto simp: save_effect_def split: prod.splits sum.splits)

lemma save_blob_effect:
  assumes "crc32c_spec c" and "save_blob ops c config path payload w = (res, w')"
  shows "save_effect hidden path (envelope_layout c (format config) payload) w res w'"
    and "(\<forall>e. encode_envelope c (format config) payload (maximum config) \<noteq> Inl e)
      \<or> res = map_sum id (\<lambda>_. ()) (encode_envelope c (format config) payload (maximum config)) \<and> w' = w"
proof -
  let ?parts = "envelope_parts c (format config) payload (maximum config)"
  let ?env = "envelope_layout c (format config) payload"
  have "save_effect hidden path ?env w res w' \<and>
     ((\<forall>e. encode_envelope c (format config) payload (maximum config) \<noteq> Inl e)
      \<or> res = map_sum id (\<lambda>_. ()) (encode_envelope c (format config) payload (maximum config)) \<and> w' = w)"
  proof (cases ?parts)
    case (Inl e)
    with assms(2) show ?thesis
      by (auto simp: save_blob_def encode_envelope_def save_effect_early)
  next
    case (Inr hk)
    obtain h k where hk: "?parts = Inr (h, k)" using Inr by (cases hk) auto
    then have env: "h @ payload @ k = ?env"
      using crc32c_spec.encode_envelope_eq [OF assms(1), of "format config" payload "maximum config"]
      by (simp add: encode_envelope_def split: if_splits)
    obtain x w1 where o: "awf_open ops writer_options path w = (x, w1)" by fastforce
    note o1 = frames_of(1) [OF o]
    show ?thesis
    proof (cases x)
      case (Inl e)
      with assms(2) hk o o1 show ?thesis
        by (auto simp: save_blob_def encode_envelope_def save_effect_early)
    next
      case (Inr fd)
      obtain y w2 where s: "write_sections ops fd [h, payload, k] w1 = (y, w2)" by fastforce
      have a: "agree hidden w w2" using o1 write_sections_frame [OF s] by (rule agree_trans)
      have e: "\<forall>e. encode_envelope c (format config) payload (maximum config) \<noteq> Inl e"
        using hk by (simp add: encode_envelope_def)
      show ?thesis
      proof (cases y)
        case Inl
        with assms(2) hk o Inr s a drop_frame have "res = y \<and> agree hidden w w'"
          by (auto simp: save_blob_def simp del: write_sections.simps intro: agree_trans)
        with Inl e show ?thesis by (simp add: save_effect_early)
      next
        case (Inr u)
        have "staged fd w2 = Some (path, ?env)"
          using write_sections_staged [OF open_staged] o s \<open>x = Inr fd\<close> Inr env
          by (fastforce simp del: write_sections.simps)
        from commit_effect [OF a this, of res w'] assms(2) hk o \<open>x = Inr fd\<close> s Inr e show ?thesis
          by (simp add: save_blob_def del: write_sections.simps)
      qed
    qed
  qed
  then show "save_effect hidden path ?env w res w'"
    and "(\<forall>e. encode_envelope c (format config) payload (maximum config) \<noteq> Inl e)
      \<or> res = map_sum id (\<lambda>_. ()) (encode_envelope c (format config) payload (maximum config)) \<and> w' = w"
    by blast+
qed

text \<open>A streaming save: what the receiver delivered up to its completion marker is stored.\<close>

lemma stream_frame:
  assumes "write_stream_envelope c (awf_write_all ops fd) config w declared ms = (res, w')"
  shows "agree hidden w w'"
  using write_stream_envelope_keeps [of "agree hidden w" "awf_write_all ops fd" w c config declared ms]
    write_frame agree_trans assms by (metis agree_refl snd_conv)

lemma save_stream_effect:
  assumes "crc32c_spec c" and "vec_chunks ms"
    and "save_blob_from_receiver ops c config path declared ms w = (res, w')"
  shows "agree hidden w w' \<and> isl res \<or>
    (\<exists>p. completed ms = Some p \<and> length p = unat declared \<and> length p \<le> unat (maximum config)
      \<and> save_effect hidden path (envelope_layout c (format config) p) w res w')"
proof (cases "envelope_header (format config) declared (maximum config)")
  case Inl
  with assms(3) show ?thesis by (auto simp: save_blob_from_receiver_def)
next
  case (Inr h)
  obtain x w1 where o: "awf_open ops writer_options path w = (x, w1)" by fastforce
  note o1 = frames_of(1) [OF o]
  show ?thesis
  proof (cases x)
    case Inl
    with assms(3) Inr o o1 show ?thesis by (auto simp: save_blob_from_receiver_def)
  next
    case (Inr fd)
    obtain y w2 where s: "write_stream_envelope c (awf_write_all ops fd) config w1 declared ms = (y, w2)"
      by fastforce
    have a: "agree hidden w w2" using o1 stream_frame [OF s] by (rule agree_trans)
    show ?thesis
    proof (cases y)
      case (Inl e)
      with assms(3) \<open>envelope_header _ _ _ = _\<close> o Inr s a drop_frame show ?thesis
        by (auto simp: save_blob_from_receiver_def intro: agree_trans)
    next
      case ok: (Inr u)
      have live: "staged fd w1 = Some (path, [])" using open_staged o Inr by blast
      have "checked_writer (awf_write_all ops fd) (\<lambda>w. case staged fd w of Some (_, bs) \<Rightarrow> bs | None \<Rightarrow> [])
          (\<lambda>w. \<exists>bs. staged fd w = Some (path, bs)) c"
        using staging.writer_axioms [of fd path] assms(1) by (simp add: checked_writer_def)
      from checked_writer.write_stream_envelope_ok [OF this s [unfolded ok] _ assms(2)] live
      obtain p where p: "completed ms = Some p" "length p = unat declared" "length p \<le> unat (maximum config)"
          "staged fd w2 = Some (path, envelope_layout c (format config) p)" by auto
      from commit_effect [OF a p(4), of res w'] assms(3) \<open>envelope_header _ _ _ = _\<close> o Inr s ok
      have "save_effect hidden path (envelope_layout c (format config) p) w res w'"
        by (simp add: save_blob_from_receiver_def)
      with p show ?thesis by blast
    qed
  qed
qed

end

section \<open>Quarantine\<close>

text \<open>The path a worker builds for a key hash, and the effect of quarantining it by the result.\<close>

definition canonical_path :: "store_config \<Rightarrow> string \<Rightarrow> path" where
  "canonical_path config hash = join (namespace config) (relative (hash @ filename_suffix (format config)))"

definition set_aside ::
    "(path \<Rightarrow> bool) \<Rightarrow> store_config \<Rightarrow> string \<Rightarrow> 'x world \<Rightarrow> quarantine_info \<Rightarrow> 'x world \<Rightarrow> bool" where
  "set_aside hidden config hash w q w' \<longleftrightarrow>
     moved hidden (canonical_path config hash) (diagnostic_path q) w w'
     \<and> diagnostic_path q = quarantine_destination config hash (quarantine_identifier q)
     \<and> length (quarantine_identifier q) = 64 \<and> set (quarantine_identifier q) \<subseteq> lower_hex"

definition quarantine_effect ::
    "(path \<Rightarrow> bool) \<Rightarrow> store_config \<Rightarrow> string \<Rightarrow> 'x world \<Rightarrow> store_error + quarantine_info \<Rightarrow> 'x world \<Rightarrow> bool" where
  "quarantine_effect hidden config hash w res w' \<longleftrightarrow>
    (case res of
       Inr q \<Rightarrow> set_aside hidden config hash w q w'
     | Inl e \<Rightarrow>
         (\<exists>q x. e = QuarantineNamespaceSync q x \<and> set_aside hidden config hash w q w')
         \<or> (\<forall>q x. e \<noteq> QuarantineNamespaceSync q x) \<and> agree hidden w w'
           \<and> (e = QuarantineSourceMissing \<longrightarrow>
             nodes w (canonical_path config hash) = None \<and> nodes w (namespace config) = Some Directory))"

lemma canonical_not_destination: "canonical_path config hash \<noteq> quarantine_destination config hash ident"
  by (simp add: canonical_path_def quarantine_destination_def join_def)

lemma moved_agree:
  "agree hidden w w1 \<Longrightarrow> moved hidden src dst w1 w2 \<Longrightarrow> \<not> hidden src \<Longrightarrow> \<not> hidden dst \<Longrightarrow>
     moved hidden src dst w w2"
  by (simp add: agree_def moved_def)

lemma set_aside_agree:
  "agree hidden w w1 \<Longrightarrow> set_aside hidden config hash w1 q w2 \<Longrightarrow>
     \<not> hidden (canonical_path config hash) \<Longrightarrow> \<not> hidden (quarantine_destination config hash (quarantine_identifier q)) \<Longrightarrow>
     set_aside hidden config hash w q w2"
  by (auto simp: set_aside_def intro: moved_agree)

lemma sync_quarantine_same:
  "sync_quarantine_namespace config q w = (x, w') \<Longrightarrow> same_files w w'"
  by (auto simp: sync_quarantine_namespace_def split: prod.splits sum.splits
      dest!: frame_dests(4,5) intro: same_files_trans)

lemma sync_quarantine_error:
  "sync_quarantine_namespace config q w = (Inl e, w') \<Longrightarrow> \<exists>x. e = QuarantineNamespaceSync q x"
  by (auto simp: sync_quarantine_namespace_def split: prod.splits sum.splits)

lemma ensure_namespace_error:
  "ensure_namespace_available config w = (Inl e, w') \<Longrightarrow>
     e = NamespacePathIsNotDirectory \<or> (\<exists>x. e = Io InspectNamespace x)"
  by (auto simp: ensure_namespace_available_def split: prod.splits sum.splits if_splits)

text \<open>The first draw whose name is free ends the loop.\<close>

fun fresh_within ::
    "nat \<Rightarrow> 'x unix_ops \<Rightarrow> store_config \<Rightarrow> path \<Rightarrow> string \<Rightarrow> 'x world \<Rightarrow> bool" where
  "fresh_within 0 ops config path hash w = False"
| "fresh_within (Suc n) ops config path hash w =
    (case random_identifier (getrandom_fill ops) w of
       (Inl _, _) \<Rightarrow> True
     | (Inr ident, w1) \<Rightarrow>
         let destination = quarantine_destination config hash ident in
         nodes w1 destination = None
           \<or> fresh_within n ops config path hash (snd (rename_noreplace ops path destination w1)))"

context unix_ops_spec
begin

lemma random_identifier_ok:
  "random_identifier (getrandom_fill ops) w = (Inr ident, w') \<Longrightarrow> length ident = 64 \<and> set ident \<subseteq> lower_hex"
  by (auto simp: random_identifier_hex length_hex dest: random_length set_hex [THEN subsetD]
      split: prod.splits sum.splits)

lemma random_identifier_frame: "random_identifier (getrandom_fill ops) w = (x, w') \<Longrightarrow> agree hidden w w'"
  by (auto simp: random_identifier_hex dest: frames_of(3) split: prod.splits sum.splits)

lemma visible_names:
  assumes "hash \<noteq> []" and "hd hash \<noteq> CHR ''.''"
  shows "\<not> hidden (canonical_path config hash)" and "\<not> hidden (quarantine_destination config hash ident)"
  using assms hidden_names [of "canonical_path config hash"]
    hidden_names [of "quarantine_destination config hash ident"]
  by (auto simp: canonical_path_def quarantine_destination_def join_def neq_Nil_conv)

lemma quarantine_effect_agree:
  assumes "agree hidden w w1" and "quarantine_effect hidden config hash w1 res w2"
    and "hash \<noteq> []" "hd hash \<noteq> CHR ''.''" and "\<not> hidden (namespace config)"
  shows "quarantine_effect hidden config hash w res w2"
  using assms set_aside_agree [OF assms(1)] visible_names [OF assms(3,4)] agree_trans [OF assms(1)]
  by (auto simp: quarantine_effect_def agree_def split: sum.splits)

text \<open>One round: a result with the effect it promises, or a retry that changed nothing and met
  a taken name.\<close>

lemma quarantine_round_effect:
  assumes hash: "hash \<noteq> []" "hd hash \<noteq> CHR ''.''" and ns: "\<not> hidden (namespace config)"
  shows "case quarantine_round ops config (canonical_path config hash) hash w of
      Inl (res, w') \<Rightarrow> quarantine_effect hidden config hash w res w'
    | Inr w' \<Rightarrow> agree hidden w w'"
proof -
  let ?src = "canonical_path config hash"
  note vis = visible_names [OF hash, of config]
  obtain x w1 where x: "random_identifier (getrandom_fill ops) w = (x, w1)" by fastforce
  note a1 = random_identifier_frame [OF x]
  show ?thesis
  proof (cases x)
    case (Inl e)
    with x a1 show ?thesis
      by (auto simp: quarantine_round_def quarantine_effect_def random_identifier_hex split: prod.splits sum.splits)
  next
    case (Inr ident)
    let ?dst = "quarantine_destination config hash ident"
    let ?q = "\<lparr>quarantine_identifier = ident, diagnostic_path = ?dst\<rparr>"
    obtain y w2 where y: "rename_noreplace ops ?src ?dst w1 = (y, w2)" by fastforce
    show ?thesis
    proof (cases y)
      case ok: (Inr u)
      obtain z w3 where z: "sync_quarantine_namespace config ?q w2 = (z, w3)" by fastforce
      have "moved hidden ?src ?dst w w3"
        using rename_ok [OF canonical_not_destination y [unfolded ok]] sync_quarantine_same [OF z]
          moved_agree [OF a1] vis moved_same by blast
      then have "set_aside hidden config hash w ?q w3"
        using random_identifier_ok [OF x [unfolded Inr]] by (simp add: set_aside_def)
      with x Inr y ok z sync_quarantine_error [of config ?q w2] show ?thesis
        by (cases z) (fastforce simp: quarantine_round_def quarantine_effect_def Let_def)+
    next
      case err: (Inl code)
      have a2: "agree hidden w w2" and src: "code = NOENT \<longrightarrow> nodes w ?src = None"
        using rename_err [OF y [unfolded err]] a1 vis by (auto simp: agree_def)
      show ?thesis
      proof (cases code)
        case NOENT
        obtain z w3 where z: "ensure_namespace_available config w2 = (z, w3)" by fastforce
        have "agree hidden w w3" using a2 agree_same [OF ensure_namespace_same [OF z]] by (rule agree_trans)
        moreover have "nodes w2 (namespace config) = nodes w (namespace config)"
          using a2 ns by (simp add: agree_def)
        ultimately show ?thesis
          using x Inr y err NOENT z src ensure_namespace_ok [of config w2] ensure_namespace_error [of config w2]
          by (cases z) (fastforce simp: quarantine_round_def quarantine_effect_def Let_def)+
      qed (use x Inr y err a2 in \<open>auto simp: quarantine_round_def quarantine_effect_def Let_def\<close>)
    qed
  qed
qed

lemma quarantine_loop_effect:
  assumes hash: "hash \<noteq> []" "hd hash \<noteq> CHR ''.''" and ns: "\<not> hidden (namespace config)"
    and "quarantine_loop ops config (canonical_path config hash) hash w = Some (res, w')"
  shows "quarantine_effect hidden config hash w res w'"
proof -
  let ?P = "\<lambda>ops' config path hash w y. ops' = ops \<longrightarrow> path = canonical_path config hash \<longrightarrow> hash \<noteq> [] \<longrightarrow>
      hd hash \<noteq> CHR ''.'' \<longrightarrow> \<not> hidden (namespace config) \<longrightarrow> quarantine_effect hidden config hash w (fst y) (snd y)"
  have "?P ops config (canonical_path config hash) hash w (res, w')"
  proof (rule quarantine_loop.raw_induct [where P = ?P, OF _ assms(4)])
    fix loop :: "'x unix_ops \<Rightarrow> store_config \<Rightarrow> path \<Rightarrow> string \<Rightarrow> 'x world
      \<Rightarrow> ((store_error + quarantine_info) \<times> 'x world) option"
    fix ops' config path hash w y
    assume 1: "\<And>ops' config path hash w y. loop ops' config path hash w = Some y \<Longrightarrow> ?P ops' config path hash w y"
      "(case quarantine_round ops' config path hash w of
          Inl result \<Rightarrow> Some result | Inr w' \<Rightarrow> loop ops' config path hash w') = Some y"
    show "?P ops' config path hash w y"
    proof (intro impI)
      assume as: "ops' = ops" "path = canonical_path config hash" "hash \<noteq> []" "hd hash \<noteq> CHR ''.''"
        "\<not> hidden (namespace config)"
      note round = quarantine_round_effect [OF as(3-5), of w]
      show "quarantine_effect hidden config hash w (fst y) (snd y)"
      proof (cases "quarantine_round ops' config path hash w")
        case (Inl r)
        with 1(2) round as show ?thesis by (cases r) auto
      next
        case (Inr w1)
        with 1(2) have "loop ops' config path hash w1 = Some y" by simp
        from 1(1) [OF this] as have "quarantine_effect hidden config hash w1 (fst y) (snd y)" by simp
        then show ?thesis using round as Inr by (auto intro: quarantine_effect_agree)
      qed
    qed
  qed
  with hash ns show ?thesis by simp
qed

lemma quarantine_loop_returns:
  assumes "fresh_within n ops config path hash w"
  shows "\<exists>r. quarantine_loop ops config path hash w = Some r"
  using assms
proof (induction n arbitrary: w)
  case (Suc n)
  show ?case
  proof (cases "quarantine_round ops config path hash w")
    case (Inl r)
    then show ?thesis by (simp add: quarantine_loop.simps [of ops config path hash w])
  next
    case (Inr w2)
    then obtain ident w1 where id: "random_identifier (getrandom_fill ops) w = (Inr ident, w1)"
        and ex: "rename_noreplace ops path (quarantine_destination config hash ident) w1 = (Inl EXIST, w2)"
      by (auto simp: quarantine_round_def Let_def split: prod.splits sum.splits errno.splits)
    have "fresh_within n ops config path hash w2"
      using Suc.prems id ex rename_err [OF ex] by simp
    from Suc.IH [OF this] Inr show ?thesis
      by (simp add: quarantine_loop.simps [of ops config path hash w])
  qed
qed simp

end

end
