(* ===== verification/Blake3.thy ===== *)
theory Blake3
  imports Unix_Facts
begin

text \<open>
  An executable BLAKE3 in its default hash mode, as an instance of the contract \<open>blake3_spec\<close> of
  the crate \<^verbatim>\<open>blake3\<close>: the compression function, the chunk chain, the binary tree of chaining
  values with a power of two of chunks on the left, and the hexadecimal rendering.
\<close>

unbundle bit_operations_syntax

definition b3_IV :: "u32 list" where
  "b3_IV = [0x6A09E667, 0xBB67AE85, 0x3C6EF372, 0xA54FF53A, 0x510E527F, 0x9B05688C, 0x1F83D9AB, 0x5BE0CD19]"

definition b3_permutation :: "nat list" where
  "b3_permutation = [2, 6, 3, 10, 7, 0, 4, 13, 1, 11, 12, 5, 9, 14, 15, 8]"

definition b3_mix :: "u32 list \<Rightarrow> nat \<times> nat \<times> nat \<times> nat \<Rightarrow> u32 \<Rightarrow> u32 \<Rightarrow> u32 list" where
  "b3_mix s ix mx my =
    (case ix of (a, b, c, d) \<Rightarrow>
      let a1 = s ! a + s ! b + mx;
          d1 = word_rotr 16 (s ! d XOR a1);
          c1 = s ! c + d1;
          b1 = word_rotr 12 (s ! b XOR c1);
          a2 = a1 + b1 + my;
          d2 = word_rotr 8 (d1 XOR a2);
          c2 = c1 + d2;
          b2 = word_rotr 7 (b1 XOR c2)
      in s[a := a2, b := b2, c := c2, d := d2])"

definition b3_lanes :: "(nat \<times> nat \<times> nat \<times> nat) list" where
  "b3_lanes = [(0, 4, 8, 12), (1, 5, 9, 13), (2, 6, 10, 14), (3, 7, 11, 15),
               (0, 5, 10, 15), (1, 6, 11, 12), (2, 7, 8, 13), (3, 4, 9, 14)]"

definition b3_round :: "u32 list \<Rightarrow> u32 list \<Rightarrow> u32 list" where
  "b3_round m s = fold (\<lambda>(i, ix) s. b3_mix s ix (m ! (2 * i)) (m ! (2 * i + 1))) (enumerate 0 b3_lanes) s"

fun b3_rounds :: "nat \<Rightarrow> u32 list \<Rightarrow> u32 list \<Rightarrow> u32 list" where
  "b3_rounds 0 m s = s"
| "b3_rounds (Suc n) m s = b3_rounds n (map ((!) m) b3_permutation) (b3_round m s)"

text \<open>The first eight words of the output, for the given flags.\<close>

definition b3_compress :: "u32 list \<Rightarrow> u32 list \<Rightarrow> nat \<Rightarrow> nat \<Rightarrow> u32 \<Rightarrow> u32 list" where
  "b3_compress cv block counter block_len flags =
    (let s = b3_rounds 7 block
           (cv @ take 4 b3_IV @ [of_nat counter, of_nat (counter div 2 ^ 32), of_nat block_len, flags])
     in map (\<lambda>i. s ! i XOR s ! (i + 8)) [0..<8])"

definition b3_words :: "bytes \<Rightarrow> u32 list" where
  "b3_words bs = map (\<lambda>i. u32_from_be_bytes (rev (take 4 (drop (4 * i) (bs @ replicate 64 0))))) [0..<16]"

text \<open>An output before its root flag is known.\<close>

record b3_output =
  out_cv :: "u32 list"
  out_block :: "u32 list"
  out_counter :: nat
  out_len :: nat
  out_flags :: u32

definition b3_chain :: "b3_output \<Rightarrow> u32 list" where
  "b3_chain out = b3_compress (out_cv out) (out_block out) (out_counter out) (out_len out) (out_flags out)"

definition b3_root :: "b3_output \<Rightarrow> bytes" where
  "b3_root out = concat (map (\<lambda>x. rev (u32_to_be_bytes x))
     (b3_compress (out_cv out) (out_block out) 0 (out_len out) (out_flags out OR 8)))"

function b3_chunk :: "nat \<Rightarrow> u32 list \<Rightarrow> u32 \<Rightarrow> bytes \<Rightarrow> b3_output" where
  "b3_chunk counter cv start bs =
    (if length bs \<le> 64
     then \<lparr>out_cv = cv, out_block = b3_words bs, out_counter = counter, out_len = length bs,
            out_flags = start OR 2\<rparr>
     else b3_chunk counter (b3_compress cv (b3_words (take 64 bs)) counter 64 start) 0 (drop 64 bs))"
  by pat_completeness auto
termination by (relation "measure (\<lambda>(counter, cv, start, bs). length bs)") auto

declare b3_chunk.simps [simp del]

definition b3_left :: "nat \<Rightarrow> nat" where
  "b3_left chunks = last (takeWhile (\<lambda>p. p < chunks) (map (\<lambda>i. 2 ^ i) [0..<chunks]))"

lemma b3_left_bounds:
  assumes "1 < m" shows "0 < b3_left m" and "b3_left m < m"
proof -
  let ?ps = "takeWhile (\<lambda>p. p < m) (map (\<lambda>i. 2 ^ i) [0..<m])"
  have "map (\<lambda>i. 2 ^ i :: nat) [0..<m] = 1 # map (\<lambda>i. 2 ^ i) [1..<m]"
    using assms by (simp add: upt_conv_Cons)
  then have "?ps \<noteq> []" using assms by simp
  then have "last ?ps \<in> set ?ps" by (rule last_in_set)
  then show "0 < b3_left m" and "b3_left m < m"
    unfolding b3_left_def by (fastforce dest: set_takeWhileD)+
qed

function b3_tree :: "nat \<Rightarrow> nat \<Rightarrow> bytes \<Rightarrow> b3_output" where
  "b3_tree first chunks bs =
    (if chunks \<le> 1 then b3_chunk first b3_IV 1 bs
     else let l = b3_left chunks in
       \<lparr>out_cv = b3_IV,
        out_block = b3_chain (b3_tree first l (take (1024 * l) bs))
          @ b3_chain (b3_tree (first + l) (chunks - l) (drop (1024 * l) bs)),
        out_counter = 0, out_len = 64, out_flags = 4\<rparr>)"
  by pat_completeness auto
termination
  by (relation "measure (\<lambda>(first, chunks, bs). chunks)") (auto simp: b3_left_bounds)

declare b3_tree.simps [simp del]

definition blake3_hash :: "bytes \<Rightarrow> bytes" where
  "blake3_hash bs = b3_root (b3_tree 0 ((length bs + 1023) div 1024) bs)"

definition blake3_reference :: blake3 where
  "blake3_reference = \<lparr>b3_hash = blake3_hash, b3_to_hex = hex\<rparr>"

lemma length_blake3_hash: "length (blake3_hash bs) = 32"
  by (simp add: blake3_hash_def b3_root_def b3_compress_def Let_def length_concat comp_def
      u32_to_be_bytes_def upt_conv_Cons)

interpretation b3_ref: blake3_spec blake3_reference
  by unfold_locales
    (simp_all add: blake3_reference_def length_blake3_hash length_hex set_hex hex_eq_iff)

end
