(* ===== verification/Envelope_Props.thy ===== *)
theory Envelope_Props
  imports Crc32c Blake3
begin

text \<open>
  The properties of the configuration and of the envelope: what the constructors accept, that the
  decoder accepts exactly the documented layout, that the two readers agree, and that the
  streaming writer produces the encoder's bytes.
\<close>

section \<open>Decoder\<close>

text \<open>C3. The decoder accepts exactly the documented layout: on a reader whose failing calls are
  interruptions (any segmentation of the bytes, any number of interruptions anywhere) it returns
  a payload if and only if the bytes are that payload's envelope, the payload is within the
  configured maximum, and no call behind the last byte is interrupted. In that one case, where
  the unrepeated probe for trailing data meets the interruption, the envelope is refused with a
  read error of kind \<^verbatim>\<open>Interrupted\<close>.\<close>

theorem decode_accepts_exactly_the_layout:
  assumes "crc32c_spec c" and "valid_format fmt" and "unat limit + 22 \<le> usize_max"
    and "usize_max < 2 ^ 64" and "list_all gentle r"
  shows "(fst (decode_reader usize_max c fmt r limit) = Inr p \<longleftrightarrow>
      contents r = envelope_layout c fmt p \<and> length p \<le> unat limit \<and> \<not> isl (last r))
    \<and> (contents r = envelope_layout c fmt p \<and> length p \<le> unat limit \<and> isl (last r) \<longrightarrow>
      (\<exists>e. kind e = Interrupted \<and> fst (decode_reader usize_max c fmt r limit) = Inl (Io ReadEnvelope e)))"
proof -
  have layout: "fst (decode_reader usize_max c fmt s limit) = Inr p \<longleftrightarrow>
      contents s = envelope_layout c fmt p \<and> length p \<le> unat limit" if "steady s" for s
  proof -
    have tag: "length (domain_tag fmt) = 8" using assms(2) by (simp add: valid_format_def)
    note v = crc32c_spec.decode_parse [OF assms(1,3,4) that, of fmt]
    have "fst (decode_reader usize_max c fmt s limit) = Inr p \<longleftrightarrow>
        parse_envelope c fmt limit (contents s) = Inr p"
      using v by (metis same_verdict_Inr same_verdict_Inr')
    then show ?thesis using parse_layout [OF tag] parse_okD by metis
  qed
  from assms(5) show ?thesis
  proof (cases rule: gentle_split)
    case steady
    have "r \<noteq> []" if "contents r = envelope_layout c fmt p"
      using that length_envelope_layout [of c fmt p] by (auto simp del: length_envelope_layout)
    with layout [OF steady(1)] steady(2) show ?thesis by blast
  next
    case (interrupted r0 e "is")
    then have "list_all gentle r0" by (simp add: steady_def)
    from decode_append [OF interrupted(5) refl this, of usize_max c fmt limit]
    have "isl (fst (decode_reader usize_max c fmt r limit))"
      and "fst (decode_reader usize_max c fmt r0 limit) = Inr p \<longrightarrow>
        fst (decode_reader usize_max c fmt r limit) = Inl (Io ReadEnvelope e)"
      by (auto simp: interrupted_verdict_def interrupted(3))
    with layout [OF interrupted(4)] interrupted(2,6,7) show ?thesis by auto
  qed
qed

theorem decode_accepts_exactly_the_layout_witness:
  "fst (decode_reader (2 ^ 64 - 1) crc32c_reference fixture_format
      [Inr (take 5 fixture_header), Inl (IoError Interrupted None),
       Inr (drop 5 fixture_header @ [0x61, 0x62, 0x63, 0xb7, 0xba, 0x8c, 0x0f])] 1024)
   = Inr [0x61, 0x62, 0x63]
   \<and> (\<exists>e. kind e = Interrupted \<and> fst (decode_reader (2 ^ 64 - 1) crc32c_reference fixture_format
      [Inr (fixture_header @ [0x61, 0x62, 0x63, 0xb7, 0xba, 0x8c, 0x0f]), Inl (IoError Interrupted None)] 1024)
      = Inl (Io ReadEnvelope e))"
proof
  note claim = decode_accepts_exactly_the_layout [OF reference.crc32c_spec_axioms valid_fixture_format,
      of 1024 "2 ^ 64 - 1"]
  show "fst (decode_reader (2 ^ 64 - 1) crc32c_reference fixture_format
      [Inr (take 5 fixture_header), Inl (IoError Interrupted None),
       Inr (drop 5 fixture_header @ [0x61, 0x62, 0x63, 0xb7, 0xba, 0x8c, 0x0f])] 1024)
     = Inr [0x61, 0x62, 0x63]"
    by (rule iffD2 [OF claim [THEN conjunct1]])
      (simp_all add: fixture_layout fixture_header_def)
  show "\<exists>e. kind e = Interrupted \<and> fst (decode_reader (2 ^ 64 - 1) crc32c_reference fixture_format
      [Inr (fixture_header @ [0x61, 0x62, 0x63, 0xb7, 0xba, 0x8c, 0x0f]), Inl (IoError Interrupted None)] 1024)
      = Inl (Io ReadEnvelope e)"
    by (rule claim [THEN conjunct2, THEN mp, of _ "[0x61, 0x62, 0x63]"])
      (simp_all add: fixture_layout)
qed

text \<open>C27. Decoding and streaming validation agree on every reader and every maximum, errors and
  rest of the input included: where the decoder returns a payload the validator reports its
  length, and where the decoder fails the validator fails alike. The one exception is a declared
  length that with the 22 bytes of overhead is no \<^verbatim>\<open>usize\<close>: only the decoder refuses it, as an
  invalid payload length, and the validator reports that length or another error.\<close>

theorem validate_agrees_with_decode:
  assumes "crc32c_spec c" and "usize_max < 2 ^ 64"
  shows "case decode_reader usize_max c fmt r limit of
       (Inr payload, rest) \<Rightarrow> length payload + 22 \<le> usize_max
         \<and> validate_envelope_reader c fmt r limit = (Inr \<lparr>payload_len = of_nat (length payload)\<rparr>, rest)
     | (Inl (InvalidPayloadLength n), rest) \<Rightarrow> n \<le> limit \<and> usize_max < unat n + 22
         \<and> (\<forall>m. fst (validate_envelope_reader c fmt r limit) \<noteq> Inl (InvalidPayloadLength m))
         \<and> (\<forall>m. fst (validate_envelope_reader c fmt r limit) = Inr m \<longrightarrow> payload_len m = n)
     | (Inl e, rest) \<Rightarrow> validate_envelope_reader c fmt r limit = (Inl e, rest)"
  using crc32c_spec.readers_verdict [OF assms, of limit fmt r] by (simp only: readers_verdict_def)

theorem validate_agrees_with_decode_witness:
  "case decode_reader 20 crc32c_reference fixture_format
        [Inr (fixture_header @ [0x61, 0x62, 0x63, 0xb7, 0xba, 0x8c, 0x0f])] 1024 of
       (Inr payload, rest) \<Rightarrow> length payload + 22 \<le> 20
         \<and> validate_envelope_reader crc32c_reference fixture_format
             [Inr (fixture_header @ [0x61, 0x62, 0x63, 0xb7, 0xba, 0x8c, 0x0f])] 1024
             = (Inr \<lparr>payload_len = of_nat (length payload)\<rparr>, rest)
     | (Inl (InvalidPayloadLength n), rest) \<Rightarrow> n \<le> 1024 \<and> 20 < unat n + 22
         \<and> (\<forall>m. fst (validate_envelope_reader crc32c_reference fixture_format
             [Inr (fixture_header @ [0x61, 0x62, 0x63, 0xb7, 0xba, 0x8c, 0x0f])] 1024) \<noteq> Inl (InvalidPayloadLength m))
         \<and> (\<forall>m. fst (validate_envelope_reader crc32c_reference fixture_format
             [Inr (fixture_header @ [0x61, 0x62, 0x63, 0xb7, 0xba, 0x8c, 0x0f])] 1024) = Inr m \<longrightarrow> payload_len m = n)
     | (Inl e, rest) \<Rightarrow> validate_envelope_reader crc32c_reference fixture_format
             [Inr (fixture_header @ [0x61, 0x62, 0x63, 0xb7, 0xba, 0x8c, 0x0f])] 1024 = (Inl e, rest)"
  by (rule validate_agrees_with_decode [OF reference.crc32c_spec_axioms]) simp

text \<open>C28. On uninterrupted input every defect is reported as the first check it fails, in the
  order of the format: the decoder is the pure parser of the byte string.\<close>

theorem decode_reports_first_defect:
  assumes "crc32c_spec c" and "unat limit + 22 \<le> usize_max" and "usize_max < 2 ^ 64"
    and "steady r" and "calm r"
  shows "fst (decode_reader usize_max c fmt r limit) = parse_envelope c fmt limit (contents r)"
  using crc32c_spec.decode_parse [OF assms(1-4), of fmt] assms(5) by (rule same_verdict_calm)

theorem decode_reports_first_defect_witness:
  "fst (decode_reader (2 ^ 64 - 1) crc32c_reference fixture_format [Inr [0x42, 0x4c], Inr [0x4f]] 1024)
     = Inl (TruncatedEnvelope Magic)"
  by (subst decode_reports_first_defect [OF reference.crc32c_spec_axioms])
    (simp_all add: steady_def calm_def parse_envelope_def Let_def)

text \<open>C29. Round trip: what the encoder produces, both readers take back, however the bytes arrive.\<close>

theorem encode_decode_roundtrip:
  assumes "crc32c_spec c" and "valid_format fmt" and "unat limit + 22 \<le> usize_max"
    and "usize_max < 2 ^ 64" and "encode_envelope c fmt p limit = Inr env"
    and "steady r" and "contents r = env"
  shows "fst (decode_reader usize_max c fmt r limit) = Inr p
    \<and> fst (validate_envelope_reader c fmt r limit) = Inr \<lparr>payload_len = of_nat (length p)\<rparr>
    \<and> length env = 22 + length p"
proof -
  have tag: "length (domain_tag fmt) = 8" using assms(2) by (simp add: valid_format_def)
  from assms(5) have env: "env = envelope_layout c fmt p" "length p \<le> unat limit"
    by (simp_all add: crc32c_spec.encode_envelope_eq [OF assms(1)] split: if_splits)
  have "parse_envelope c fmt limit (contents r) = Inr p"
    using parse_layout [OF tag env(2)] assms(7) env(1) by simp
  then have "fst (decode_reader usize_max c fmt r limit) = Inr p"
    using crc32c_spec.decode_parse [OF assms(1,3,4,6), of fmt] by (metis same_verdict_Inr)
  then show ?thesis
    using crc32c_spec.readers_agree [OF assms(1,3,4), of fmt r] env(1) tag by simp
qed

theorem encode_decode_roundtrip_witness:
  "fst (decode_reader (2 ^ 64 - 1) crc32c_reference fixture_format
      [Inr (fixture_header @ [0x61, 0x62, 0x63, 0xb7, 0xba, 0x8c, 0x0f])] 3) = Inr [0x61, 0x62, 0x63]"
proof -
  have "encode_envelope crc32c_reference fixture_format [0x61, 0x62, 0x63] 3 =
      Inr (fixture_header @ [0x61, 0x62, 0x63, 0xb7, 0xba, 0x8c, 0x0f])"
    by (simp add: reference.encode_envelope_eq fixture_layout)
  from encode_decode_roundtrip [OF reference.crc32c_spec_axioms valid_fixture_format _ _ this, of "2 ^ 64 - 1"
      "[Inr (fixture_header @ [0x61, 0x62, 0x63, 0xb7, 0xba, 0x8c, 0x0f])]"]
  show ?thesis by (simp add: steady_def)
qed

section \<open>Encoder\<close>

text \<open>The encoder on every payload: a length that is no \<^verbatim>\<open>u64\<close> or exceeds the maximum is
  refused, anything else becomes the documented layout.\<close>

lemma encode_envelope_cases:
  assumes "crc32c_spec c"
  shows "encode_envelope c fmt p limit =
    (if 2 ^ 64 \<le> length p then Inl (InvalidPayloadLength (-1))
     else if length p > unat limit then Inl (BlobTooLarge (of_nat (length p)) limit)
     else Inr (envelope_layout c fmt p))"
  by (rule crc32c_spec.encode_envelope_eq [OF assms])

text \<open>C30. The streaming writer: if it reports success on any writer that appends what it accepts,
  the input was complete, had exactly the declared length, and what was written is the encoder's
  output for it.\<close>

theorem stream_writes_encoder_output:
  assumes "crc32c_spec c" and "writer write_all out live"
    and "live w" and "vec_chunks ms"
    and "write_stream_envelope c write_all config w declared ms = (Inr (), w')"
  shows "\<exists>p env. completed ms = Some p \<and> length p = unat declared
    \<and> encode_envelope c (format config) p (maximum config) = Inr env \<and> out w' = out w @ env"
proof -
  have "checked_writer write_all out live c"
    using assms(1,2) by (simp add: checked_writer_def)
  from checked_writer.write_stream_envelope_ok [OF this assms(5,3,4)]
  obtain p where p: "completed ms = Some p" "length p = unat declared"
      "length p \<le> unat (maximum config)" "out w' = out w @ envelope_layout c (format config) p"
    by blast
  have "length p < 2 ^ 64" using p(2) by simp
  then have "encode_envelope c (format config) p (maximum config) = Inr (envelope_layout c (format config) p)"
    using p(3) by (simp add: crc32c_spec.encode_envelope_eq [OF assms(1)])
  with p show ?thesis by blast
qed

theorem stream_writes_encoder_output_witness:
  "\<exists>p env. completed [Chunk [0x61], Chunk [], Chunk [0x62, 0x63], Complete] = Some p \<and> length p = unat (3 :: u64)
    \<and> encode_envelope crc32c_reference (format sample_config) p (maximum sample_config) = Inr env
    \<and> id (snd (write_stream_envelope crc32c_reference vec_write_all sample_config [] 3
          [Chunk [0x61], Chunk [], Chunk [0x62, 0x63], Complete])) = id [] @ env"
proof (rule stream_writes_encoder_output [OF reference.crc32c_spec_axioms vec.writer_axioms])
  let ?ms = "[Chunk [0x61], Chunk [], Chunk [0x62, 0x63], Complete]"
  have "fst (write_stream_envelope crc32c_reference vec_write_all sample_config [] 3 ?ms) = Inr ()"
    by (subst write_stream_envelope_vec) (simp_all add: sample_config_def)
  then show "write_stream_envelope crc32c_reference vec_write_all sample_config [] 3 ?ms = (Inr (),
      snd (write_stream_envelope crc32c_reference vec_write_all sample_config [] 3 ?ms))"
    by (metis prod.collapse)
qed simp_all

text \<open>Without write failures the streaming writer's verdict is determined by the message
  sequence: a declared length above the maximum, bytes beyond the declared length, an early
  completion and a dropped sender each give their own error, in the order met.\<close>

lemma stream_verdict_total:
  assumes "vec_chunks ms"
  shows "fst (write_stream_envelope c vec_write_all config v declared ms) =
    (if declared > maximum config then Inl (BlobTooLarge declared (maximum config))
     else stream_verdict declared 0 ms)"
  by (rule write_stream_envelope_vec [OF assms])

text \<open>The golden fixtures of \<^verbatim>\<open>tests/fixtures/v1\<close>, with a maximum of 1024: the valid envelope
  decodes to \<^verbatim>\<open>abc\<close>, and the truncated, oversized, corrupted, extended, foreign and
  future-version variants are each rejected with their own error.\<close>

lemma golden_fixtures:
  "let decode = (\<lambda>bs. fst (decode_reader (2 ^ 64 - 1) crc32c_reference fixture_format [Inr bs] 1024));
       valid = fixture_header @ [0x61, 0x62, 0x63, 0xb7, 0xba, 0x8c, 0x0f]
   in decode valid = Inr [0x61, 0x62, 0x63]
    \<and> decode (butlast valid) = Inl (TruncatedEnvelope Checksum)
    \<and> decode (take 16 fixture_header @ [0x04, 0x01]) = Inl (BlobTooLarge 1025 1024)
    \<and> decode (butlast valid @ [0x0e]) = Inl (ChecksumMismatch 0xb7ba8c0e 0xb7ba8c0f)
    \<and> decode (valid @ [0]) = Inl TrailingData
    \<and> decode (0x43 # tl valid) = Inl (InvalidEnvelopeDomain (domain_tag fixture_format) (0x43 # tl (domain_tag fixture_format)))
    \<and> decode (take 8 valid @ [0, 2] @ drop 10 valid) = Inl (UnsupportedEnvelopeVersion 2)"
proof -
  have dec: "fst (decode_reader (2 ^ 64 - 1) crc32c_reference fixture_format [Inr bs] 1024) =
      parse_envelope crc32c_reference fixture_format 1024 bs" if "bs \<noteq> []" for bs
  proof -
    have "steady [Inr bs]" "calm [Inr bs]" using that by (auto simp: steady_def calm_def)
    then show ?thesis
      using same_verdict_calm [OF reference.decode_parse, of 1024 "2 ^ 64 - 1" "[Inr bs]" fixture_format]
      by simp
  qed
  note eval = parse_envelope_def Let_def fixture_header_def fixture_format_def be_value_def
    u16_from_be_bytes_def u64_from_be_bytes_def u32_from_be_bytes_def
  have ck: "crc crc32c_reference [0x42, 0x4c, 0x4f, 0x42, 0x54, 0x45, 0x53, 0x54, 0, 1, 0, 0, 0, 0, 0, 0, 0, 3,
      0x61, 0x62, 0x63] = 0xb7ba8c0f"
    using crc_fixture by (simp add: fixture_header_def)
  show ?thesis
    unfolding Let_def
    by (intro conjI; subst dec, simp add: fixture_header_def, simp add: eval ck)
qed

section \<open>Configuration\<close>

text \<open>C31. A format identity is constructed exactly from eight domain bytes, a suffix matching
  \<^verbatim>\<open>\.[a-z0-9_-]+\<close> of at most 32 bytes and version 1, and it carries them unchanged; anything else
  is refused with the error of the first of these requirements it misses, in this order. With an
  accepted format the file name of every key is at most 96 bytes long, has no path separator, and
  its stem is the key's digest: the suffix can be told from the digest.\<close>

theorem format_new_accepts_exactly_valid:
  assumes "blake3_spec b3"
  shows "format_new d s v =
      (if length d \<noteq> 8 then Inl (InvalidDomainTagLength (length d))
       else if \<nexists>r. s = CHR ''.'' # r \<and> r \<noteq> [] \<and> length s \<le> 32 \<and> set r \<subseteq> set suffix_alphabet
       then Inl InvalidFilenameSuffix
       else if v \<noteq> 1 then Inl (UnsupportedConfiguredEnvelopeVersion v)
       else Inr \<lparr>domain_tag = d, filename_suffix = s, envelope_version = v\<rparr>)
    \<and> (\<forall>fmt key. format_new d s v = Inr fmt \<longrightarrow>
        length (blob_filename b3 fmt key) \<le> 96 \<and> CHR ''/'' \<notin> set (blob_filename b3 fmt key)
        \<and> name_stem (blob_filename b3 fmt key) = b3_to_hex b3 (key_hash b3 key))"
    (is "?result \<and> ?names")
proof
  show ?result
    by (simp only: format_new_def validate_suffix_cases valid_suffix_alphabet DOMAIN_TAG_LEN_def
        ENVELOPE_VERSION_V1_def if_not_P if_bool_eq_conj) auto
  show ?names
  proof (intro allI impI)
    fix fmt key
    assume "format_new d s v = Inr fmt"
    then have "valid_format fmt" unfolding format_new_ok_iff by blast
    from blake3_spec.canonical_name [OF assms this]
    show "length (blob_filename b3 fmt key) \<le> 96 \<and> CHR ''/'' \<notin> set (blob_filename b3 fmt key)
        \<and> name_stem (blob_filename b3 fmt key) = b3_to_hex b3 (key_hash b3 key)" by simp
  qed
qed

theorem format_new_accepts_exactly_valid_witness:
  "format_new (replicate 8 0x41) ''.blob_v1'' 1 =
      Inr \<lparr>domain_tag = replicate 8 0x41, filename_suffix = ''.blob_v1'', envelope_version = 1\<rparr>
   \<and> format_new (replicate 8 0x41) ''.Blob'' 1 = Inl InvalidFilenameSuffix
   \<and> (\<forall>key. name_stem (blob_filename blake3_reference
         \<lparr>domain_tag = replicate 8 0x41, filename_suffix = ''.blob_v1'', envelope_version = 1\<rparr> key)
       = b3_to_hex blake3_reference (key_hash blake3_reference key))"
proof -
  note claim = format_new_accepts_exactly_valid [OF b3_ref.blake3_spec_axioms]
  have good: "format_new (replicate 8 0x41) ''.blob_v1'' 1 =
      Inr \<lparr>domain_tag = replicate 8 0x41, filename_suffix = ''.blob_v1'', envelope_version = 1\<rparr>"
    by (subst claim [THEN conjunct1]) (simp add: suffix_alphabet_def)
  moreover have "format_new (replicate 8 0x41) ''.Blob'' 1 = Inl InvalidFilenameSuffix"
    by (subst claim [THEN conjunct1]) (simp add: suffix_alphabet_def)
  ultimately show ?thesis using claim [THEN conjunct2] by blast
qed

text \<open>A namespace that passes validation is one proper file name (no separator, not empty, not
  a dot entry), so joining it to a root names a direct child; and every proper file name passes
  unchanged.\<close>

lemma namespace_is_one_component:
  "(validate_namespace ns = Inr p \<longrightarrow>
      (\<exists>name. proper_name name \<and> p = relative name
        \<and> join root p = Path (is_absolute root) (path_components root @ [name])))
   \<and> (proper_name ns \<longrightarrow> validate_namespace ns = Inr (relative ns))"
  using validate_namespace_ok [of ns p] validate_namespace_proper [of ns]
  by (auto simp: join_def)

text \<open>C32. A maximum is accepted exactly when the 22 bytes of envelope overhead still fit in a
  \<^verbatim>\<open>u64\<close>; then, on a 64-bit target, the decoder never reports an unrepresentable length.\<close>

theorem validated_maximum_is_representable:
  assumes "validate_maximum limit = Inr ()"
  shows "unat limit + 22 < 2 ^ 64 \<and>
    fst (decode_reader (2 ^ 64 - 1) c fmt r limit) \<noteq> Inl (InvalidPayloadLength n)"
proof
  show b: "unat limit + 22 < 2 ^ 64" using assms by (simp add: validate_maximum_ok_iff)
  then have bnd: "unat limit + 22 \<le> 2 ^ 64 - 1" "2 ^ 64 - 1 < (2 ^ 64 :: nat)" by simp_all
  have sec: "read_section k s r' \<noteq> (Inl (InvalidPayloadLength n), r'')" for k s r' r''
    by (auto simp: read_section_def split: prod.splits sum.splits)
  have fin: "read_end r' \<noteq> Inl (InvalidPayloadLength n)" for r'
    by (auto simp: read_end_def split: sum.splits)
  show "fst (decode_reader (2 ^ 64 - 1) c fmt r limit) \<noteq> Inl (InvalidPayloadLength n)"
    using usize_limit_ok [OF bnd] sec fin
    unfolding decode_reader_def decode_reader_with_usize_limit_def Let_def
    by (auto split: prod.splits sum.splits)
qed

theorem validated_maximum_is_representable_witness:
  "fst (decode_reader (2 ^ 64 - 1) crc32c_reference fixture_format [] DEFAULT_MAX_BLOB_SIZE)
     \<noteq> Inl (InvalidPayloadLength 0)"
proof -
  have "validate_maximum DEFAULT_MAX_BLOB_SIZE = Inr ()"
    by (simp add: validate_maximum_ok_iff DEFAULT_MAX_BLOB_SIZE_def)
  from validated_maximum_is_representable [OF this] show ?thesis by simp
qed

end
