(* ===== verification/Unix_Init.thy ===== *)
theory Unix_Init
  imports Unix_Facts
begin

text \<open>
  Facts about \<open>initialize_platform\<close>: the configuration it returns, the one directory it may
  create, and what each of its errors means.
\<close>

definition resolved_root :: "path \<Rightarrow> 'x world \<Rightarrow> path" where
  "resolved_root root w = (if is_absolute root then root else join (cwd w) root)"

lemma fs_current_dir_Inr: "fs_current_dir w = (Inr d, w') \<Longrightarrow> d = cwd w"
  by (auto simp: fs_current_dir_def fs_call_def split: list.splits option.splits)

lemma fs_create_dir_Inr:
  "fs_create_dir p w = (Inr u, w') \<Longrightarrow>
     nodes w p = None \<and> nodes w' = (nodes w)(p \<mapsto> Directory) \<and> cwd w' = cwd w \<and> ext w' = ext w"
  by (auto simp: fs_create_dir_def fs_call_def split: list.splits option.splits node.splits if_splits)

lemma fs_create_dir_Inl:
  "fs_create_dir p w = (Inl e, w') \<Longrightarrow> same_files w w' \<and> (kind e = AlreadyExists \<longrightarrow> nodes w p \<noteq> None)"
  by (auto simp: fs_create_dir_def fs_call_def same_files_def
      split: list.splits option.splits node.splits if_splits)

text \<open>The part after the root is resolved and known to be a directory.\<close>

definition open_namespace ::
    "path \<Rightarrow> path \<Rightarrow> store_config \<Rightarrow> 'x world \<Rightarrow> (store_error + store_config) \<times> 'x world" where
  "open_namespace root ns config w2 =
    (case fs_create_dir ns w2 of
            (Inr _, w3) \<Rightarrow>
              (case sync_directory root OpenRootDirectory SyncRootDirectory w3 of
                 (Inl e, w4) \<Rightarrow> (Inl e, w4)
               | (Inr _, w4) \<Rightarrow> (Inr config, w4))
          | (Inl e, w3) \<Rightarrow>
              if kind e = AlreadyExists then
                (case fs_metadata ns w3 of
                   (Inl e', w4) \<Rightarrow> (Inl (Io InspectNamespace e'), w4)
                 | (Inr metadata', w4) \<Rightarrow>
                     if metadata' \<noteq> Directory then (Inl NamespacePathIsNotDirectory, w4)
                     else (Inr config, w4))
              else (Inl (Io CreateNamespace e), w3))"

lemma open_namespace_ok:
  assumes "open_namespace root ns config w = (Inr c, w')"
  shows "c = config \<and> nodes w' = (nodes w)(ns \<mapsto> Directory) \<and> (nodes w ns = None \<or> nodes w ns = Some Directory)"
proof -
  obtain x w3 where x: "fs_create_dir ns w = (x, w3)" by fastforce
  show ?thesis
  proof (cases x)
    case (Inl e)
    with assms x have m: "fs_metadata ns w3 = (Inr Directory, w')" "c = config"
      by (auto simp: open_namespace_def split: if_splits prod.splits sum.splits)
    with fs_create_dir_Inl [OF x [unfolded Inl]] lookup_Inr(1) [OF m(1)] frame_dests(2) [OF m(1)]
    show ?thesis by (auto simp: same_files_def fun_eq_iff)
  next
    case (Inr u)
    with assms x have "sync_directory root OpenRootDirectory SyncRootDirectory w3 = (Inr (), w')" "c = config"
      by (auto simp: open_namespace_def split: prod.splits sum.splits)
    with fs_create_dir_Inr [OF x [unfolded Inr]] show ?thesis
      by (auto dest: sync_directory_same simp: same_files_def)
  qed
qed

lemma open_namespace_error:
  assumes "open_namespace root ns config w = (Inl e, w')"
  shows "nodes w' = nodes w \<and>
        (e = NamespacePathIsNotDirectory \<and> nodes w ns \<noteq> None \<and> nodes w ns \<noteq> Some Directory
         \<or> (\<exists>x. e = Io InspectNamespace x \<or> e = Io CreateNamespace x))
     \<or> nodes w ns = None \<and> nodes w' = (nodes w)(ns \<mapsto> Directory)
        \<and> (\<exists>x. e = Io OpenRootDirectory x \<or> e = Io SyncRootDirectory x)"
proof -
  obtain x w3 where x: "fs_create_dir ns w = (x, w3)" by fastforce
  show ?thesis
  proof (cases x)
    case (Inl e')
    obtain y w4 where y: "fs_metadata ns w3 = (y, w4)" by fastforce
    note s = fs_create_dir_Inl [OF x [unfolded Inl]] frame_dests(2) [OF y]
    show ?thesis
    proof (cases y)
      case Inl
      with assms x y s \<open>x = Inl e'\<close> show ?thesis
        by (auto simp: open_namespace_def same_files_def split: if_splits)
    next
      case (Inr n)
      with assms x y s \<open>x = Inl e'\<close> lookup_Inr(1) [OF y [unfolded Inr]] show ?thesis
        by (auto simp: open_namespace_def same_files_def split: if_splits)
    qed
  next
    case (Inr u)
    with assms x have s: "sync_directory root OpenRootDirectory SyncRootDirectory w3 = (Inl e, w')"
      by (auto simp: open_namespace_def split: prod.splits sum.splits)
    from fs_create_dir_Inr [OF x [unfolded Inr]] sync_directory_error [OF s] sync_directory_same [OF s]
    show ?thesis by (auto simp: same_files_def)
  qed
qed

lemma initialize_cases:
  assumes "initialize_platform root component fmt limit n w = (res, w')"
  shows "(\<exists>x. res = Inl (Io ResolveCurrentDirectory x)) \<and> nodes w' = nodes w
    \<or> res = Inl RootDoesNotExist \<and> nodes w (resolved_root root w) = None \<and> nodes w' = nodes w
    \<or> res = Inl RootIsNotDirectory \<and> nodes w' = nodes w
        \<and> nodes w (resolved_root root w) \<noteq> None \<and> nodes w (resolved_root root w) \<noteq> Some Directory
    \<or> (\<exists>x. res = Inl (Io InspectRoot x)) \<and> nodes w' = nodes w
    \<or> nodes w (resolved_root root w) = Some Directory \<and> (\<exists>w2. nodes w2 = nodes w \<and>
        open_namespace (resolved_root root w) (join (resolved_root root w) component)
          \<lparr>namespace = join (resolved_root root w) component, format = fmt, maximum = limit,
             cfg_max_concurrent = n\<rparr> w2 = (res, w'))"
proof -
  obtain x w1 where x: "(if \<not> is_absolute root
           then (case fs_current_dir w of
                   (Inl e, w1) \<Rightarrow> (Inl (Io ResolveCurrentDirectory e), w1)
                 | (Inr current_directory, w1) \<Rightarrow> (Inr (join current_directory root), w1))
           else (Inr root, w)) = (x, w1)" by fastforce
  have s1: "same_files w w1"
    using x by (auto dest: frame_dests(1) split: if_splits prod.splits sum.splits)
  note eq = assms [unfolded initialize_platform_def x prod.case]
  show ?thesis
  proof (cases x)
    case (Inl e)
    with x eq s1 show ?thesis by (auto simp: same_files_def split: if_splits prod.splits sum.splits)
  next
    case (Inr root')
    have root: "root' = resolved_root root w"
      using x Inr by (auto simp: resolved_root_def dest: fs_current_dir_Inr split: if_splits prod.splits sum.splits)
    obtain y w2 where y: "fs_metadata root' w1 = (y, w2)" by fastforce
    have s2: "nodes w1 = nodes w" "nodes w2 = nodes w"
      using s1 frame_dests(2) [OF y] by (simp_all add: same_files_def)
    note eq2 = eq [unfolded Inr sum.case y prod.case Let_def]
    show ?thesis
    proof (cases y)
      case (Inl e)
      with eq2 s2 lookup_missing(1) [OF y [unfolded Inl]] root show ?thesis
        by (auto split: if_splits)
    next
      case (Inr m)
      note m = lookup_Inr(1) [OF y [unfolded Inr]]
      show ?thesis
      proof (cases "m = Directory")
        case True
        with Inr eq2 have "open_namespace root' (join root' component)
          \<lparr>namespace = join root' component, format = fmt, maximum = limit, cfg_max_concurrent = n\<rparr> w2 = (res, w')"
          by (simp add: open_namespace_def)
        with m True s2 root show ?thesis by auto
      next
        case False
        with Inr eq2 m s2 root show ?thesis by auto
      qed
    qed
  qed
qed

end
