(* ===== verification/Windows_Store.thy ===== *)
theory Windows_Store
  imports Unix_Init
begin

text \<open>
  The Windows backend, the \<^verbatim>\<open>cfg(windows)\<close> half of \<^verbatim>\<open>src/filesystem/mod.rs\<close>. The Win32 functions of
  \<^verbatim>\<open>windows-sys\<close>, the system clock, directory enumeration and the encoding of paths are the fields of
  \<open>win32\<close>, a parameter of the definitions; a \<^verbatim>\<open>BOOL\<close> is a 32-bit word, zero for failure, after which
  \<^verbatim>\<open>io::Error::last_os_error\<close> tells the reason. A retry loop may run for ever: \<open>None\<close> is not
  returning. Code compiled only for the tests is left out.
\<close>

section \<open>The platform\<close>

type_synonym handle = u64
type_synonym win_bool = "32 word"

record 'x win32 =
  encode_wide :: "path \<Rightarrow> u16 list"
  absolute_path :: "path \<Rightarrow> 'x world \<Rightarrow> (io_error + path) \<times> 'x world"
  create_file :: "u16 list \<Rightarrow> u32 \<Rightarrow> u32 \<Rightarrow> u32 \<Rightarrow> u32 \<Rightarrow> 'x world \<Rightarrow> handle \<times> 'x world"
  write_handle :: "handle \<Rightarrow> bytes \<Rightarrow> 'x world \<Rightarrow> (io_error + unit) \<times> 'x world"
  flush_file_buffers :: "handle \<Rightarrow> 'x world \<Rightarrow> win_bool \<times> 'x world"
  set_file_time :: "handle \<Rightarrow> u32 \<times> u32 \<Rightarrow> 'x world \<Rightarrow> win_bool \<times> 'x world"
  close_handle :: "handle \<Rightarrow> 'x world \<Rightarrow> 'x world"
  move_file_ex :: "u16 list \<Rightarrow> u16 list \<Rightarrow> u32 \<Rightarrow> 'x world \<Rightarrow> win_bool \<times> 'x world"
  delete_file_w :: "u16 list \<Rightarrow> 'x world \<Rightarrow> win_bool \<times> 'x world"
  last_os_error :: "'x world \<Rightarrow> io_error"
  system_now :: "'x world \<Rightarrow> system_time \<times> 'x world"
  win_random :: "nat \<Rightarrow> 'x world \<Rightarrow> (getrandom_error + bytes) \<times> 'x world"
  read_dir :: "path \<Rightarrow> 'x world \<Rightarrow> (io_error + (io_error + string \<times> path) list) \<times> 'x world"

text \<open>Constants of the Win32 headers.\<close>

definition INVALID_HANDLE_VALUE :: handle where "INVALID_HANDLE_VALUE = - 1"
definition GENERIC_WRITE :: u32 where "GENERIC_WRITE = 0x40000000"
definition FILE_WRITE_ATTRIBUTES :: u32 where "FILE_WRITE_ATTRIBUTES = 0x100"
definition FILE_SHARE_ALL :: u32 where "FILE_SHARE_ALL = 7" \<comment> \<open>read, write and delete\<close>
definition CREATE_NEW :: u32 where "CREATE_NEW = 1"
definition OPEN_EXISTING :: u32 where "OPEN_EXISTING = 3"
definition WRITE_THROUGH_FILE :: u32 where \<comment> \<open>\<^verbatim>\<open>FILE_ATTRIBUTE_NORMAL | FILE_FLAG_WRITE_THROUGH\<close>\<close>
  "WRITE_THROUGH_FILE = 0x80000080"
definition FILE_FLAG_BACKUP_SEMANTICS :: u32 where "FILE_FLAG_BACKUP_SEMANTICS = 0x02000000"
definition MOVEFILE_REPLACE_EXISTING :: u32 where "MOVEFILE_REPLACE_EXISTING = 1"
definition MOVEFILE_WRITE_THROUGH :: u32 where "MOVEFILE_WRITE_THROUGH = 8"
definition ERROR_FILE_EXISTS :: u32 where "ERROR_FILE_EXISTS = 80"
definition ERROR_ALREADY_EXISTS :: u32 where "ERROR_ALREADY_EXISTS = 183"

text \<open>\<^verbatim>\<open>io::Error::other\<close>.\<close>

definition other_error :: io_error where
  "other_error = IoError (OtherKind 1) None"

definition checked_mul :: "'a::len word \<Rightarrow> 'a word \<Rightarrow> 'a word option" where
  "checked_mul a b = (if unat a * unat b < 2 ^ LENGTH('a) then Some (a * b) else None)"

text \<open>A Rust \<^verbatim>\<open>loop\<close> whose body returns or goes round again with a new state.\<close>

partial_function (option) retry :: "('s \<Rightarrow> 'r + 's) \<Rightarrow> 's \<Rightarrow> 'r option" where
  "retry body s = (case body s of Inl r \<Rightarrow> Some r | Inr s' \<Rightarrow> retry body s')"

declare retry.simps [code]

section \<open>Paths\<close>

definition SEPARATOR :: u16 where "SEPARATOR = 0x5c"
definition ALTERNATE_SEPARATOR :: u16 where "ALTERNATE_SEPARATOR = 0x2f"

definition VERBATIM_PREFIX :: "u16 list" where
  "VERBATIM_PREFIX = [SEPARATOR, SEPARATOR, 0x3f, SEPARATOR]"

definition DEVICE_PREFIX :: "u16 list" where
  "DEVICE_PREFIX = [SEPARATOR, SEPARATOR, 0x2e, SEPARATOR]"

definition UNC_PREFIX :: "u16 list" where
  "UNC_PREFIX = [SEPARATOR, SEPARATOR, 0x3f, SEPARATOR, 0x55, 0x4e, 0x43, SEPARATOR]"

definition starts_with :: "'a list \<Rightarrow> 'a list \<Rightarrow> bool" where
  "starts_with xs pre \<longleftrightarrow> take (length pre) xs = pre"

text \<open>On the encoded path.\<close>

definition wide_path :: "u16 list \<Rightarrow> u16 list" where
  "wide_path path =
    (let (pre, remainder) =
       (if starts_with path VERBATIM_PREFIX \<or> starts_with path DEVICE_PREFIX then ([], path)
        else if starts_with path [SEPARATOR, SEPARATOR] then (UNC_PREFIX, drop 2 path)
        else (VERBATIM_PREFIX, path))
     in pre @ map (\<lambda>unit. if unit = ALTERNATE_SEPARATOR then SEPARATOR else unit) remainder @ [0])"

abbreviation wide :: "'x win32 \<Rightarrow> path \<Rightarrow> u16 list" where
  "wide w32 p \<equiv> wide_path (encode_wide w32 p)"

section \<open>Moving, deleting, synchronizing\<close>

definition move_file :: "'x win32 \<Rightarrow> path \<Rightarrow> path \<Rightarrow> u32 \<Rightarrow> 'x world \<Rightarrow> (io_error + unit) \<times> 'x world" where
  "move_file w32 source destination flags w =
    (case move_file_ex w32 (wide w32 source) (wide w32 destination) flags w of
       (b, w1) \<Rightarrow> (if b = 0 then Inl (last_os_error w32 w1) else Inr (), w1))"

definition delete_file :: "'x win32 \<Rightarrow> path \<Rightarrow> 'x world \<Rightarrow> (io_error + unit) \<times> 'x world" where
  "delete_file w32 path w =
    (case delete_file_w w32 (wide w32 path) w of
       (b, w1) \<Rightarrow> (if b = 0 then Inl (last_os_error w32 w1) else Inr (), w1))"

definition sync_windows_directory :: "'x win32 \<Rightarrow> store_config \<Rightarrow> 'x world \<Rightarrow> (io_error + unit) \<times> 'x world" where
  "sync_windows_directory w32 config w =
    (case create_file w32 (wide w32 (namespace config)) GENERIC_WRITE FILE_SHARE_ALL OPEN_EXISTING
            FILE_FLAG_BACKUP_SEMANTICS w of
       (h, w1) \<Rightarrow>
         if h = INVALID_HANDLE_VALUE then (Inl (last_os_error w32 w1), w1)
         else (case flush_file_buffers w32 h w1 of
           (b, w2) \<Rightarrow> (if b = 0 then Inl (last_os_error w32 w2) else Inr (), close_handle w32 h w2)))"

section \<open>Staging files\<close>

definition create_new :: "'x win32 \<Rightarrow> path \<Rightarrow> 'x world \<Rightarrow> (store_error + handle) \<times> 'x world" where
  "create_new w32 path w =
    (case create_file w32 (wide w32 path) GENERIC_WRITE 0 CREATE_NEW WRITE_THROUGH_FILE w of
       (h, w1) \<Rightarrow>
         if h = INVALID_HANDLE_VALUE then (Inl (Io OpenAtomicWriter (last_os_error w32 w1)), w1)
         else (Inr h, w1))"

fun write_windows_sections ::
    "'x win32 \<Rightarrow> handle \<Rightarrow> bytes list \<Rightarrow> 'x world \<Rightarrow> (store_error + unit) \<times> 'x world" where
  "write_windows_sections w32 h [] w = (Inr (), w)"
| "write_windows_sections w32 h (sect # sects) w =
    (case write_handle w32 h sect w of
       (Inl e, w1) \<Rightarrow> (Inl (Io WriteEnvelope e), w1)
     | (Inr _, w1) \<Rightarrow> write_windows_sections w32 h sects w1)"

text \<open>The end of both staging functions: flush, and close the handle on every path.\<close>

definition finish_staging ::
    "'x win32 \<Rightarrow> handle \<Rightarrow> (store_error + unit) \<times> 'x world \<Rightarrow> (store_error + unit) \<times> 'x world" where
  "finish_staging w32 h written =
    (case written of
       (Inl e, w2) \<Rightarrow> (Inl e, close_handle w32 h w2)
     | (Inr _, w2) \<Rightarrow>
         (case flush_file_buffers w32 h w2 of
            (b, w3) \<Rightarrow> (if b = 0 then Inl (Io WriteEnvelope (last_os_error w32 w3)) else Inr (), close_handle w32 h w3)))"

definition create_windows_staging ::
    "'x win32 \<Rightarrow> path \<Rightarrow> bytes \<Rightarrow> bytes \<Rightarrow> bytes \<Rightarrow> 'x world \<Rightarrow> (store_error + unit) \<times> 'x world" where
  "create_windows_staging w32 path header payload checksum w =
    (case create_new w32 path w of
       (Inl e, w1) \<Rightarrow> (Inl e, w1)
     | (Inr h, w1) \<Rightarrow> finish_staging w32 h (write_windows_sections w32 h [header, payload, checksum] w1))"

text \<open>What the receiver still holds after \<open>stream_chunks\<close> and \<open>write_stream_envelope\<close>.\<close>

fun chunks_left ::
    "(bytes \<Rightarrow> 'w \<Rightarrow> (io_error + unit) \<times> 'w) \<Rightarrow> u64 \<Rightarrow> u64 \<Rightarrow> save_stream_message list \<Rightarrow> 'w
     \<Rightarrow> save_stream_message list" where
  "chunks_left write_all declared written [] w = []"
| "chunks_left write_all declared written (Chunk chunk # ms) w =
    (case checked_add written (of_nat (length chunk)) of
       None \<Rightarrow> ms
     | Some so_far \<Rightarrow>
         if so_far > declared then ms
         else (case write_all chunk w of
            (Inl _, _) \<Rightarrow> ms
          | (Inr _, w') \<Rightarrow> chunks_left write_all declared so_far ms w'))"
| "chunks_left write_all declared written (Complete # ms) w = ms"

definition envelope_left ::
    "(bytes \<Rightarrow> 'w \<Rightarrow> (io_error + unit) \<times> 'w) \<Rightarrow> store_config \<Rightarrow> 'w \<Rightarrow> u64 \<Rightarrow> save_stream_message list
     \<Rightarrow> save_stream_message list" where
  "envelope_left write_all config w declared_len chunks =
    (case envelope_header (format config) declared_len (maximum config) of
       Inl _ \<Rightarrow> chunks
     | Inr header \<Rightarrow>
         (case write_all header w of
            (Inl _, _) \<Rightarrow> chunks
          | (Inr _, w') \<Rightarrow> chunks_left write_all declared_len 0 chunks w'))"

definition create_windows_streaming_staging ::
    "'x win32 \<Rightarrow> crc32c \<Rightarrow> store_config \<Rightarrow> path \<Rightarrow> u64 \<Rightarrow> save_stream_message list \<Rightarrow> 'x world
     \<Rightarrow> (store_error + unit) \<times> save_stream_message list \<times> 'x world" where
  "create_windows_streaming_staging w32 c config path declared_len chunks w =
    (case create_new w32 path w of
       (Inl e, w1) \<Rightarrow> (Inl e, chunks, w1)
     | (Inr h, w1) \<Rightarrow>
         (case finish_staging w32 h (write_stream_envelope c (write_handle w32 h) config w1 declared_len chunks) of
            (res, w2) \<Rightarrow> (res, envelope_left (write_handle w32 h) config w1 declared_len chunks, w2)))"

section \<open>File times\<close>

definition WINDOWS_EPOCH_OFFSET_100NS :: u64 where
  "WINDOWS_EPOCH_OFFSET_100NS = 116444736000000000"

definition HUNDRED_NS_PER_SECOND :: u64 where
  "HUNDRED_NS_PER_SECOND = 10000000"

definition file_time_ticks :: "u64 \<Rightarrow> u32 \<Rightarrow> u64 option" where
  "file_time_ticks secs subsec_nanos =
    (case checked_mul secs HUNDRED_NS_PER_SECOND of
       None \<Rightarrow> None
     | Some ticks \<Rightarrow>
         (case checked_add ticks (ucast (subsec_nanos div 100)) of
            None \<Rightarrow> None
          | Some ticks \<Rightarrow> checked_add ticks WINDOWS_EPOCH_OFFSET_100NS))"

text \<open>The low and the high half, by the little-endian bytes.\<close>

definition filetime_of :: "u64 \<Rightarrow> u32 \<times> u32" where
  "filetime_of ticks =
    (let b = rev (u64_to_be_bytes ticks)
     in (u32_from_be_bytes (rev (take 4 b)), u32_from_be_bytes (rev (drop 4 b))))"

text \<open>\<^verbatim>\<open>now.duration_since(UNIX_EPOCH)\<close>, as whole seconds and the nanoseconds of the last one.\<close>

definition since_epoch :: "system_time \<Rightarrow> (u64 \<times> u32) option" where
  "since_epoch now = (if now < 0 then None else Some (of_int (now div 10 ^ 9), of_int (now mod 10 ^ 9)))"

definition refresh_windows_clear_age :: "'x win32 \<Rightarrow> path \<Rightarrow> 'x world \<Rightarrow> (io_error + unit) \<times> 'x world" where
  "refresh_windows_clear_age w32 path w =
    (case system_now w32 w of
       (now, w1) \<Rightarrow>
    (case since_epoch now of
       None \<Rightarrow> (Inl other_error, w1)
     | Some (secs, nanos) \<Rightarrow>
    (case file_time_ticks secs nanos of
       None \<Rightarrow> (Inl other_error, w1)
     | Some ticks \<Rightarrow>
    (case create_file w32 (wide w32 path) (or GENERIC_WRITE FILE_WRITE_ATTRIBUTES) 0 OPEN_EXISTING WRITE_THROUGH_FILE w1 of
       (h, w2) \<Rightarrow>
         if h = INVALID_HANDLE_VALUE then (Inl (last_os_error w32 w2), w2)
         else (case set_file_time w32 h (filetime_of ticks) w2 of
           (b, w3) \<Rightarrow>
             if b = 0 then (Inl (last_os_error w32 w3), close_handle w32 h w3)
             else (case flush_file_buffers w32 h w3 of
               (b', w4) \<Rightarrow> (if b' = 0 then Inl (last_os_error w32 w4) else Inr (), close_handle w32 h w4)))))))"

section \<open>Initialization\<close>

definition windows_initialize_platform ::
    "'x win32 \<Rightarrow> path \<Rightarrow> path \<Rightarrow> format_identity \<Rightarrow> u64 \<Rightarrow> nat \<Rightarrow> 'x world
     \<Rightarrow> (store_error + store_config) \<times> 'x world" where
  "windows_initialize_platform w32 root namespace_component fmt limit max_concurrent w =
    (case absolute_path w32 root w of
       (Inl e, w1) \<Rightarrow> (Inl (Io NormalizeRoot e), w1)
     | (Inr root, w1) \<Rightarrow>
    (case fs_metadata root w1 of
       (Inl e, w2) \<Rightarrow>
         (if kind e = NotFound then (Inl RootDoesNotExist, w2) else (Inl (Io InspectRoot e), w2))
     | (Inr metadata, w2) \<Rightarrow>
    if metadata \<noteq> Directory then (Inl RootIsNotDirectory, w2)
    else
      let ns = join root namespace_component;
          config = \<lparr>namespace = ns, format = fmt, maximum = limit, cfg_max_concurrent = max_concurrent\<rparr>
      in (case fs_create_dir ns w2 of
            (Inr _, w3) \<Rightarrow> (Inr config, w3)
          | (Inl e, w3) \<Rightarrow>
              if kind e = AlreadyExists then
                (case fs_metadata ns w3 of
                   (Inl e', w4) \<Rightarrow> (Inl (Io InspectNamespace e'), w4)
                 | (Inr metadata', w4) \<Rightarrow>
                     if metadata' \<noteq> Directory then (Inl NamespacePathIsNotDirectory, w4)
                     else (Inr config, w4))
              else (Inl (Io CreateNamespace e), w3))))"

section \<open>Saving\<close>

definition staging_path :: "store_config \<Rightarrow> string \<Rightarrow> string \<Rightarrow> string \<Rightarrow> path" where
  "staging_path config hash purpose ident =
     join (namespace config)
       (relative (hash @ filename_suffix (format config) @ ''.tmp-v1.'' @ purpose @ ''.'' @ ident))"

text \<open>The end of both saves: move over an absent or an existing blob, then synchronize.\<close>

definition commit_windows_staging ::
    "'x win32 \<Rightarrow> store_config \<Rightarrow> path \<Rightarrow> path \<Rightarrow> 'x world \<Rightarrow> (store_error + unit) \<times> 'x world" where
  "commit_windows_staging w32 config staging path w =
    (case (case move_file w32 staging path MOVEFILE_WRITE_THROUGH w of
             (Inr _, w1) \<Rightarrow> (Inr (), w1)
           | (Inl e, w1) \<Rightarrow>
               if raw_os_error e = Some ERROR_FILE_EXISTS \<or> raw_os_error e = Some ERROR_ALREADY_EXISTS
               then move_file w32 staging path (or MOVEFILE_REPLACE_EXISTING MOVEFILE_WRITE_THROUGH) w1
               else (Inl e, w1)) of
       (Inl e, w2) \<Rightarrow> (Inl (AtomicCommit e), w2)
     | (Inr _, w2) \<Rightarrow>
         (case sync_windows_directory w32 config w2 of
            (Inl e, w3) \<Rightarrow> (Inl (Io SyncNamespaceDirectory e), w3)
          | (Inr _, w3) \<Rightarrow> (Inr (), w3)))"

text \<open>The staging name was taken: the only failures that are tried again.\<close>

fun name_taken :: "store_error \<Rightarrow> bool" where
  "name_taken (Io _ source) = (kind source = AlreadyExists)"
| "name_taken _ = False"

definition windows_save_round ::
    "'x win32 \<Rightarrow> store_config \<Rightarrow> path \<Rightarrow> string \<Rightarrow> bytes \<Rightarrow> bytes \<Rightarrow> bytes \<Rightarrow> 'x world
     \<Rightarrow> ((store_error + unit) \<times> 'x world) + 'x world" where
  "windows_save_round w32 config path hash header payload checksum w =
    (case random_identifier (win_random w32) w of
       (Inl e, w1) \<Rightarrow> Inl (Inl e, w1)
     | (Inr ident, w1) \<Rightarrow>
         let staging = staging_path config hash ''save'' ident in
         (case create_windows_staging w32 staging header payload checksum w1 of
            (Inl e, w2) \<Rightarrow> if name_taken e then Inr w2 else Inl (Inl e, w2)
          | (Inr _, w2) \<Rightarrow> Inl (commit_windows_staging w32 config staging path w2)))"

definition windows_save_blob ::
    "'x win32 \<Rightarrow> crc32c \<Rightarrow> store_config \<Rightarrow> path \<Rightarrow> bytes \<Rightarrow> 'x world
     \<Rightarrow> ((store_error + unit) \<times> 'x world) option" where
  "windows_save_blob w32 c config path payload w =
    (case envelope_parts c (format config) payload (maximum config) of
       Inl e \<Rightarrow> Some (Inl e, w)
     | Inr (header, checksum) \<Rightarrow>
         (case file_stem path of
            None \<Rightarrow> Some (Inl UnexpectedFileType, w)
          | Some hash \<Rightarrow> retry (windows_save_round w32 config path hash header payload checksum) w))"

text \<open>The state of this loop is what the receiver still holds and the world.\<close>

fun windows_stream_round ::
    "'x win32 \<Rightarrow> crc32c \<Rightarrow> store_config \<Rightarrow> path \<Rightarrow> string \<Rightarrow> u64 \<Rightarrow> save_stream_message list \<times> 'x world
     \<Rightarrow> ((store_error + unit) \<times> 'x world) + (save_stream_message list \<times> 'x world)" where
  "windows_stream_round w32 c config path hash declared_len (chunks, w) =
    (case random_identifier (win_random w32) w of
       (Inl e, w1) \<Rightarrow> Inl (Inl e, w1)
     | (Inr ident, w1) \<Rightarrow>
         let staging = staging_path config hash ''save'' ident in
         (case create_windows_streaming_staging w32 c config staging declared_len chunks w1 of
            (Inl e, rest, w2) \<Rightarrow>
              if name_taken e then Inr (rest, w2)
              else Inl (Inl e, snd (delete_file w32 staging w2))
          | (Inr _, rest, w2) \<Rightarrow> Inl (commit_windows_staging w32 config staging path w2)))"

definition windows_save_blob_from_receiver ::
    "'x win32 \<Rightarrow> crc32c \<Rightarrow> store_config \<Rightarrow> path \<Rightarrow> u64 \<Rightarrow> save_stream_message list \<Rightarrow> 'x world
     \<Rightarrow> ((store_error + unit) \<times> 'x world) option" where
  "windows_save_blob_from_receiver w32 c config path declared_len chunks w =
    (case envelope_header (format config) declared_len (maximum config) of
       Inl e \<Rightarrow> Some (Inl e, w)
     | Inr _ \<Rightarrow>
         (case file_stem path of
            None \<Rightarrow> Some (Inl UnexpectedFileType, w)
          | Some hash \<Rightarrow> retry (windows_stream_round w32 c config path hash declared_len) (chunks, w)))"

section \<open>Clearing\<close>

definition windows_clear_round ::
    "'x win32 \<Rightarrow> store_config \<Rightarrow> path \<Rightarrow> string \<Rightarrow> 'x world \<Rightarrow> ((store_error + unit) \<times> 'x world) + 'x world" where
  "windows_clear_round w32 config path hash w =
    (case random_identifier (win_random w32) w of
       (Inl e, w1) \<Rightarrow> Inl (Inl e, w1)
     | (Inr ident, w1) \<Rightarrow>
         let staging = staging_path config hash ''clear'' ident in
         (case move_file w32 path staging MOVEFILE_WRITE_THROUGH w1 of
            (Inr _, w2) \<Rightarrow>
              (case sync_windows_directory w32 config w2 of
                 (Inl e, w3) \<Rightarrow> Inl (Inl (Io SyncNamespaceDirectory e), w3)
               | (Inr _, w3) \<Rightarrow>
                   (case delete_file w32 staging w3 of
                      (Inl e, w4) \<Rightarrow> Inl (Inl (Io RemoveTemporaryFile e), w4)
                    | (Inr _, w4) \<Rightarrow> Inl (Inr (), w4)))
          | (Inl e, w2) \<Rightarrow>
              if kind e = NotFound then Inl (ensure_namespace_available config w2)
              else if kind e = AlreadyExists then Inr w2
              else Inl (Inl (Io RemoveBlob e), w2)))"

definition windows_clear_blob ::
    "'x win32 \<Rightarrow> store_config \<Rightarrow> path \<Rightarrow> 'x world \<Rightarrow> ((store_error + unit) \<times> 'x world) option" where
  "windows_clear_blob w32 config path w =
    (case file_stem path of
       None \<Rightarrow> Some (Inl UnexpectedFileType, w)
     | Some hash \<Rightarrow>
         (case refresh_windows_clear_age w32 path w of
            (Inl e, w1) \<Rightarrow>
              if kind e = NotFound then Some (ensure_namespace_available config w1)
              else Some (Inl (Io RefreshClearStagingAge e), w1)
          | (Inr _, w1) \<Rightarrow> retry (windows_clear_round w32 config path hash) w1))"

section \<open>Quarantine\<close>

definition windows_quarantine_round ::
    "'x win32 \<Rightarrow> store_config \<Rightarrow> path \<Rightarrow> string \<Rightarrow> 'x world
     \<Rightarrow> ((store_error + quarantine_info) \<times> 'x world) + 'x world" where
  "windows_quarantine_round w32 config path hash w =
    (case random_identifier (win_random w32) w of
       (Inl e, w1) \<Rightarrow> Inl (Inl e, w1)
     | (Inr ident, w1) \<Rightarrow>
         let destination = quarantine_destination config hash ident in
         (case move_file w32 path destination MOVEFILE_WRITE_THROUGH w1 of
            (Inr _, w2) \<Rightarrow>
              (let quarantine = \<lparr>quarantine_identifier = ident, diagnostic_path = destination\<rparr> in
               case sync_windows_directory w32 config w2 of
                 (Inl e, w3) \<Rightarrow> Inl (Inl (QuarantineNamespaceSync quarantine e), w3)
               | (Inr _, w3) \<Rightarrow> Inl (Inr quarantine, w3))
          | (Inl e, w2) \<Rightarrow>
              if kind e = NotFound then
                (case ensure_namespace_available config w2 of
                   (Inl e', w3) \<Rightarrow> Inl (Inl e', w3)
                 | (Inr _, w3) \<Rightarrow> Inl (Inl QuarantineSourceMissing, w3))
              else if kind e = AlreadyExists then Inr w2
              else Inl (Inl (QuarantineCommit e), w2)))"

definition windows_quarantine_blob ::
    "'x win32 \<Rightarrow> store_config \<Rightarrow> path \<Rightarrow> 'x world \<Rightarrow> ((store_error + quarantine_info) \<times> 'x world) option" where
  "windows_quarantine_blob w32 config path w =
    (case file_stem path of
       None \<Rightarrow> Some (Inl UnexpectedFileType, w)
     | Some hash \<Rightarrow> retry (windows_quarantine_round w32 config path hash) w)"

section \<open>Cleanup\<close>

text \<open>\<^verbatim>\<open>str::split_once\<close>: around the first occurrence of the pattern.\<close>

fun split_once :: "string \<Rightarrow> string \<Rightarrow> (string \<times> string) option" where
  "split_once pat [] = (if pat = [] then Some ([], []) else None)"
| "split_once pat (x # xs) =
    (if starts_with (x # xs) pat then Some ([], drop (length pat) (x # xs))
     else map_option (\<lambda>(a, b). (x # a, b)) (split_once pat xs))"

definition is_ascii_hexdigit :: "char \<Rightarrow> bool" where
  "is_ascii_hexdigit b \<longleftrightarrow> is_ascii_digit b \<or> 97 \<le> (of_char b :: nat) \<and> (of_char b :: nat) \<le> 102
     \<or> 65 \<le> (of_char b :: nat) \<and> (of_char b :: nat) \<le> 70"

definition is_ascii_uppercase :: "char \<Rightarrow> bool" where
  "is_ascii_uppercase b \<longleftrightarrow> 65 \<le> (of_char b :: nat) \<and> (of_char b :: nat) \<le> 90"

definition is_owned_temporary_filename :: "string \<Rightarrow> string \<Rightarrow> bool" where
  "is_owned_temporary_filename name sfx =
    (let marker = sfx @ ''.tmp-v1.''; lower = list_all (\<lambda>b. is_ascii_hexdigit b \<and> \<not> is_ascii_uppercase b) in
     case split_once marker name of
       None \<Rightarrow> False
     | Some (hash, rest) \<Rightarrow>
         if length hash \<noteq> 64 \<or> \<not> lower hash then False
         else case split_once ''.'' rest of
           None \<Rightarrow> False
         | Some (purpose, ident) \<Rightarrow>
             (purpose = ''save'' \<or> purpose = ''clear'') \<and> length ident = 64 \<and> lower ident)"

text \<open>\<^verbatim>\<open>now.duration_since(time)\<close> is an error for a time in the future.\<close>

definition old_enough :: "system_time \<Rightarrow> duration \<Rightarrow> system_time option \<Rightarrow> bool" where
  "old_enough now minimum_age mtime \<longleftrightarrow>
    (case mtime of Some time \<Rightarrow> time \<le> now \<and> int minimum_age \<le> now - time | None \<Rightarrow> False)"

fun cleanup_entries ::
    "'x win32 \<Rightarrow> string \<Rightarrow> system_time \<Rightarrow> duration \<Rightarrow> (io_error + string \<times> path) list \<Rightarrow> cleanup_report
     \<Rightarrow> 'x world \<Rightarrow> cleanup_report \<times> 'x world" where
  "cleanup_entries w32 sfx now minimum_age [] report w = (report, w)"
| "cleanup_entries w32 sfx now minimum_age (Inl source # entries) report w =
    cleanup_entries w32 sfx now minimum_age entries
      (report\<lparr>failures := failures report @ [\<lparr>failed_identifier = ''<directory-entry>'', failure_source = source\<rparr>]\<rparr>) w"
| "cleanup_entries w32 sfx now minimum_age (Inr (name, path) # entries) report w =
    (let failed = (\<lambda>source. report\<lparr>failures := failures report @ [\<lparr>failed_identifier = name, failure_source = source\<rparr>]\<rparr>) in
     if \<not> is_owned_temporary_filename name sfx then cleanup_entries w32 sfx now minimum_age entries report w
     else case fs_symlink_metadata path w of
       (Inr (Regular _ mtime), w1) \<Rightarrow>
         if \<not> old_enough now minimum_age mtime
         then cleanup_entries w32 sfx now minimum_age entries (report\<lparr>skipped := skipped report @ [name]\<rparr>) w1
         else (case delete_file w32 path w1 of
            (Inr _, w2) \<Rightarrow> cleanup_entries w32 sfx now minimum_age entries (report\<lparr>removed := removed report @ [name]\<rparr>) w2
          | (Inl source, w2) \<Rightarrow> cleanup_entries w32 sfx now minimum_age entries (failed source) w2)
     | (Inr _, w1) \<Rightarrow> cleanup_entries w32 sfx now minimum_age entries (failed other_error) w1
     | (Inl source, w1) \<Rightarrow> cleanup_entries w32 sfx now minimum_age entries (failed source) w1)"

definition windows_cleanup_stale_files ::
    "'x win32 \<Rightarrow> store_config \<Rightarrow> duration \<Rightarrow> 'x world \<Rightarrow> (store_error + cleanup_report) \<times> 'x world" where
  "windows_cleanup_stale_files w32 config minimum_age w =
    (case system_now w32 w of
       (now, w1) \<Rightarrow>
    (case read_dir w32 (namespace config) w1 of
       (Inl e, w2) \<Rightarrow> (Inl (Io EnumerateTemporaryFiles e), w2)
     | (Inr entries, w2) \<Rightarrow>
         (case cleanup_entries w32 (filename_suffix (format config)) now minimum_age entries cleanup_report_default w2 of
            (report, w3) \<Rightarrow> (Inr report, w3))))"

end
