(* ===== verification/Operation.thy ===== *)
theory Operation
  imports Unix_Init Windows_Store
begin

text \<open>
  Operations and their results, \<^verbatim>\<open>src/engine/operation.rs\<close>. A reply channel (\<^verbatim>\<open>Sender\<close>) is its
  number; what is sent on it is a \<open>reply\<close>. An operation carries what its channels will deliver:
  the messages of a streaming save, and how far the consumer of a streaming load goes.
\<close>

type_synonym sender = nat

datatype operation =
    Load sender
  | LoadStream "nat option option" "bool option" sender \<comment> \<open>chunks, acknowledgement\<close>
  | Save bytes sender
  | SaveStream u64 "save_stream_message list" sender
  | Clear sender
  | Inspect sender
  | Quarantine sender

datatype blocking_result =
    LoadResult "store_error + bytes option"
  | LoadStreamResult "store_error + blob_metadata option"
  | SaveResult "store_error + unit"
  | SaveStreamResult "store_error + unit"
  | ClearResult "store_error + unit"
  | InspectResult "store_error + blob_inspection"
  | QuarantineResult "store_error + quarantine_info"

text \<open>What a reply channel carries, by its type.\<close>

datatype reply =
    Loaded "store_error + bytes option"
  | Streamed "store_error + blob_metadata option"
  | Finished "store_error + unit"
  | Inspected "store_error + blob_inspection"
  | Quarantined "store_error + quarantine_info"
  | Cleaned "store_error + cleanup_report"

primrec op_sender :: "operation \<Rightarrow> sender" where
  "op_sender (Load s) = s"
| "op_sender (LoadStream chunks ack s) = s"
| "op_sender (Save payload s) = s"
| "op_sender (SaveStream declared chunks s) = s"
| "op_sender (Clear s) = s"
| "op_sender (Inspect s) = s"
| "op_sender (Quarantine s) = s"

section \<open>Running an operation\<close>

text \<open>
  The backend of the target: \<^verbatim>\<open>cfg(unix)\<close> and \<^verbatim>\<open>cfg(windows)\<close> select one of two functions of the same name in
  \<^verbatim>\<open>src/filesystem/mod.rs\<close>. \<open>None\<close> is a call that does not return.
\<close>

datatype 'x backend = Unix "'x unix_ops" | Windows "'x win32"

fun backend_save ::
    "'x backend \<Rightarrow> crc32c \<Rightarrow> store_config \<Rightarrow> path \<Rightarrow> bytes \<Rightarrow> 'x world
     \<Rightarrow> ((store_error + unit) \<times> 'x world) option" where
  "backend_save (Unix ops) c config path payload w = Some (save_blob ops c config path payload w)"
| "backend_save (Windows w32) c config path payload w = windows_save_blob w32 c config path payload w"

fun backend_save_stream ::
    "'x backend \<Rightarrow> crc32c \<Rightarrow> store_config \<Rightarrow> path \<Rightarrow> u64 \<Rightarrow> save_stream_message list \<Rightarrow> 'x world
     \<Rightarrow> ((store_error + unit) \<times> 'x world) option" where
  "backend_save_stream (Unix ops) c config path declared_len chunks w =
     Some (save_blob_from_receiver ops c config path declared_len chunks w)"
| "backend_save_stream (Windows w32) c config path declared_len chunks w =
     windows_save_blob_from_receiver w32 c config path declared_len chunks w"

fun backend_clear ::
    "'x backend \<Rightarrow> store_config \<Rightarrow> path \<Rightarrow> 'x world \<Rightarrow> ((store_error + unit) \<times> 'x world) option" where
  "backend_clear (Unix ops) config path w = Some (clear_blob config path w)"
| "backend_clear (Windows w32) config path w = windows_clear_blob w32 config path w"

fun backend_quarantine ::
    "'x backend \<Rightarrow> store_config \<Rightarrow> path \<Rightarrow> 'x world \<Rightarrow> ((store_error + quarantine_info) \<times> 'x world) option" where
  "backend_quarantine (Unix ops) config path w = quarantine_blob ops config path w"
| "backend_quarantine (Windows w32) config path w = windows_quarantine_blob w32 config path w"

text \<open>\<open>os\<close> is \<^verbatim>\<open>std::env::consts::OS\<close>.\<close>

fun backend_cleanup ::
    "'x backend \<Rightarrow> string \<Rightarrow> store_config \<Rightarrow> duration \<Rightarrow> 'x world \<Rightarrow> (store_error + cleanup_report) \<times> 'x world" where
  "backend_cleanup (Unix ops) os config minimum_age w = cleanup_stale_files os config minimum_age w"
| "backend_cleanup (Windows w32) os config minimum_age w = windows_cleanup_stale_files w32 config minimum_age w"

text \<open>The environment of a worker: the target's \<^verbatim>\<open>usize::MAX\<close>, the checksum crate and the backend.\<close>

record 'x environment =
  env_usize_max :: nat
  env_crc :: crc32c
  env_backend :: "'x backend"

text \<open>
  The result is \<open>None\<close> when the operation does not return, and has \<open>None\<close> as its first component
  when it panics. The second component is what a streaming load delivered.
\<close>

fun run_owned_operation ::
    "'x environment \<Rightarrow> store_config \<Rightarrow> path \<Rightarrow> operation \<Rightarrow> 'x world
     \<Rightarrow> ((operation \<times> blocking_result) option \<times> bytes list \<times> 'x world) option" where
  "run_owned_operation env config path (Load s) w =
    (case load_blob (env_usize_max env) (env_crc env) config path w of
       (res, w') \<Rightarrow> Some (Some (Load s, LoadResult res), [], w'))"
| "run_owned_operation env config path (LoadStream chunks ack s) w =
    (case (chunks, ack) of
       (Some room, Some acknowledged) \<Rightarrow>
         (case load_blob_into_sender (env_crc env) config path
                 \<lparr>accepts = room, acknowledges = acknowledged\<rparr> w of
            (res, sent, w') \<Rightarrow> Some (Some (LoadStream None None s, LoadStreamResult res), sent, w'))
     | _ \<Rightarrow> Some (None, [], w))"
| "run_owned_operation env config path (Save payload s) w =
    (case backend_save (env_backend env) (env_crc env) config path payload w of
       None \<Rightarrow> None
     | Some (res, w') \<Rightarrow> Some (Some (Save payload s, SaveResult res), [], w'))"
| "run_owned_operation env config path (SaveStream declared_len chunks s) w =
    (case backend_save_stream (env_backend env) (env_crc env) config path declared_len chunks w of
       None \<Rightarrow> None
     | Some (res, w') \<Rightarrow> Some (Some (SaveStream declared_len chunks s, SaveStreamResult res), [], w'))"
| "run_owned_operation env config path (Clear s) w =
    (case backend_clear (env_backend env) config path w of
       None \<Rightarrow> None
     | Some (res, w') \<Rightarrow> Some (Some (Clear s, ClearResult res), [], w'))"
| "run_owned_operation env config path (Inspect s) w =
    (case inspect_blob config path w of
       (res, w') \<Rightarrow> Some (Some (Inspect s, InspectResult res), [], w'))"
| "run_owned_operation env config path (Quarantine s) w =
    (case backend_quarantine (env_backend env) config path w of
       None \<Rightarrow> None
     | Some (res, w') \<Rightarrow> Some (Some (Quarantine s, QuarantineResult res), [], w'))"

section \<open>Delivering\<close>

text \<open>What is sent on which channel; \<open>None\<close> is the \<^verbatim>\<open>unreachable!\<close> branch.\<close>

fun deliver :: "operation \<Rightarrow> blocking_result \<Rightarrow> (sender \<times> reply) option" where
  "deliver (Load s) (LoadResult res) = Some (s, Loaded res)"
| "deliver (LoadStream _ _ s) (LoadStreamResult res) = Some (s, Streamed res)"
| "deliver (Save _ s) (SaveResult res) = Some (s, Finished res)"
| "deliver (SaveStream _ _ s) (SaveStreamResult res) = Some (s, Finished res)"
| "deliver (Clear s) (ClearResult res) = Some (s, Finished res)"
| "deliver (Inspect s) (InspectResult res) = Some (s, Inspected res)"
| "deliver (Quarantine s) (QuarantineResult res) = Some (s, Quarantined res)"
| "deliver _ _ = None"

fun deliver_error :: "operation \<Rightarrow> store_error \<Rightarrow> sender \<times> reply" where
  "deliver_error (Load s) e = (s, Loaded (Inl e))"
| "deliver_error (LoadStream _ _ s) e = (s, Streamed (Inl e))"
| "deliver_error (Save _ s) e = (s, Finished (Inl e))"
| "deliver_error (SaveStream _ _ s) e = (s, Finished (Inl e))"
| "deliver_error (Clear s) e = (s, Finished (Inl e))"
| "deliver_error (Inspect s) e = (s, Inspected (Inl e))"
| "deliver_error (Quarantine s) e = (s, Quarantined (Inl e))"

text \<open>Results of the same kind as the operation: exactly those \<open>deliver\<close> handles.\<close>

definition kinds_match :: "operation \<times> blocking_result \<Rightarrow> bool" where
  "kinds_match p \<longleftrightarrow> deliver (fst p) (snd p) \<noteq> None"

lemma deliver_sender: "deliver op res = Some (s, r) \<Longrightarrow> s = op_sender op"
  by (cases "(op, res)" rule: deliver.cases) auto

lemma deliver_error_sender [simp]: "fst (deliver_error op e) = op_sender op"
  by (cases op) auto

lemma run_owned_operation_kinds:
  assumes "run_owned_operation env config path op w = Some (Some (op', res), sent, w')"
  shows "kinds_match (op', res)" and "op_sender op' = op_sender op"
proof -
  have "kinds_match (op', res) \<and> op_sender op' = op_sender op"
    using assms by (cases op) (auto simp: kinds_match_def split: prod.splits option.splits)
  then show "kinds_match (op', res)" and "op_sender op' = op_sender op" by auto
qed

text \<open>A queued operation still owns its channels, so running it does not panic.\<close>

definition owns_channels :: "operation \<Rightarrow> bool" where
  "owns_channels op \<longleftrightarrow>
    (case op of LoadStream chunks ack _ \<Rightarrow> chunks \<noteq> None \<and> ack \<noteq> None | _ \<Rightarrow> True)"

lemma run_owned_operation_no_panic:
  assumes "owns_channels op"
  shows "run_owned_operation env config path op w \<noteq> Some (None, sent, w')"
  using assms by (cases op) (auto simp: owns_channels_def split: prod.splits option.splits)

lemma run_owned_operation_returns:
  assumes "env_backend env = Unix ops" and "owns_channels op" and "\<forall>s. op \<noteq> Quarantine s"
  shows "\<exists>x sent w'. run_owned_operation env config path op w = Some (Some x, sent, w')"
  using assms by (cases op) (auto simp: owns_channels_def case_prod_unfold)

end
