(* ===== verification/Store_Model.thy ===== *)
theory Store_Model
  imports Operation
begin

text \<open>
  The abstract specification of the store and its refinement by the workers' operations: a finite
  map from key hashes to payloads. \<open>represents\<close> relates a map to the files of the namespace;
  \<open>spec_allows\<close> says which results and which new maps each operation may have. Locale \<open>store_names\<close>
  has the paths of a store, \<open>store_loads\<close> the operations that are the same on either backend, and
  \<open>backed_store\<close> is what the engine relies on; \<open>Unix_Model\<close> and \<open>Windows_Model\<close> provide it.
\<close>

section \<open>Files of a map\<close>

text \<open>The path a worker builds for a key hash (\<^verbatim>\<open>dispatch_if_idle\<close> in \<^verbatim>\<open>src/engine/scheduler.rs\<close>).\<close>

definition worker_path :: "blake3 \<Rightarrow> store_config \<Rightarrow> bytes \<Rightarrow> path" where
  "worker_path b3 config kh =
     join (namespace config) (relative (b3_to_hex b3 kh @ filename_suffix (format config)))"

type_synonym blob_map = "bytes \<Rightarrow> bytes option"

definition entry_of :: "crc32c \<Rightarrow> store_config \<Rightarrow> bytes option \<Rightarrow> node option \<Rightarrow> bool" where
  "entry_of c config v n \<longleftrightarrow>
    (case v of
       None \<Rightarrow> n = None
     | Some p \<Rightarrow> length p \<le> unat (maximum config) \<and> (\<exists>t. n = Some (Regular (envelope_layout c (format config) p) t)))"

definition represents :: "crc32c \<Rightarrow> blake3 \<Rightarrow> store_config \<Rightarrow> blob_map \<Rightarrow> 'x world \<Rightarrow> bool" where
  "represents c b3 config m w \<longleftrightarrow>
     nodes w (namespace config) = Some Directory
     \<and> (\<forall>k. length k = 32 \<longrightarrow> entry_of c config (m k) (nodes w (worker_path b3 config k)))"

section \<open>The specification\<close>

definition sync_failure :: "store_error \<Rightarrow> bool" where
  "sync_failure e \<longleftrightarrow> (\<exists>x. e = Io OpenNamespaceDirectory x \<or> e = Io SyncNamespaceDirectory x)"

text \<open>
  The errors that a save or a clear may report although its change is made, which depends on the
  backend.
\<close>

datatype platform = OnUnix | OnWindows

fun platform_of :: "'x backend \<Rightarrow> platform" where
  "platform_of (Unix ops) = OnUnix"
| "platform_of (Windows w32) = OnWindows"

fun late_save :: "platform \<Rightarrow> store_error \<Rightarrow> bool" where
  "late_save OnUnix e \<longleftrightarrow> (\<exists>x. e = AtomicCommit x)"
| "late_save OnWindows e \<longleftrightarrow> (\<exists>x. e = Io SyncNamespaceDirectory x)"

fun late_clear :: "platform \<Rightarrow> store_error \<Rightarrow> bool" where
  "late_clear OnUnix e \<longleftrightarrow> sync_failure e"
| "late_clear OnWindows e \<longleftrightarrow> (\<exists>x. e = Io SyncNamespaceDirectory x \<or> e = Io RemoveTemporaryFile x)"

fun spec_allows ::
    "platform \<Rightarrow> store_config \<Rightarrow> bytes \<Rightarrow> operation \<Rightarrow> blob_map \<Rightarrow> blocking_result \<Rightarrow> bytes list \<Rightarrow> blob_map \<Rightarrow> bool" where
  "spec_allows plat config k (Load _) m (LoadResult res) sent m' \<longleftrightarrow>
     m' = m \<and> (\<forall>v. res = Inr v \<longrightarrow> v = m k)"
| "spec_allows plat config k (LoadStream _ _ _) m (LoadStreamResult res) sent m' \<longleftrightarrow>
     m' = m \<and> (res = Inr None \<longrightarrow> m k = None)
     \<and> (\<forall>d. res = Inr (Some d) \<longrightarrow> m k = Some (concat sent) \<and> unat (payload_len d) = length (concat sent))
     \<and> (sent \<noteq> [] \<longrightarrow> (\<exists>p. m k = Some p \<and> prefix (concat sent) p))"
| "spec_allows plat config k (Save payload _) m (SaveResult res) sent m' \<longleftrightarrow>
     (case res of
        Inr _ \<Rightarrow> m' = m(k \<mapsto> payload) \<and> length payload \<le> unat (maximum config)
      | Inl e \<Rightarrow> m' = m \<or> late_save plat e \<and> m' = m(k \<mapsto> payload))"
| "spec_allows plat config k (SaveStream declared ms _) m (SaveStreamResult res) sent m' \<longleftrightarrow>
     (case res of
        Inr _ \<Rightarrow> (\<exists>p. completed ms = Some p \<and> length p = unat declared \<and> m' = m(k \<mapsto> p))
      | Inl e \<Rightarrow> m' = m \<or> late_save plat e \<and>
          (\<exists>p. completed ms = Some p \<and> length p = unat declared \<and> m' = m(k \<mapsto> p)))"
| "spec_allows plat config k (Clear _) m (ClearResult res) sent m' \<longleftrightarrow>
     (case res of Inr _ \<Rightarrow> m' = m(k := None) | Inl e \<Rightarrow> m' = m \<or> late_clear plat e \<and> m' = m(k := None))"
| "spec_allows plat config k (Inspect _) m (InspectResult res) sent m' \<longleftrightarrow>
     m' = m \<and> (\<forall>i. res = Inr i \<longrightarrow> inspected_state i = (if m k = None then Absent else Present)
       \<and> size_of_blob i = map_option (\<lambda>p. of_nat (22 + length p)) (m k))"
| "spec_allows plat config k (Quarantine _) m (QuarantineResult res) sent m' \<longleftrightarrow>
     (case res of
        Inr _ \<Rightarrow> m k \<noteq> None \<and> m' = m(k := None)
      | Inl e \<Rightarrow> (\<exists>q x. e = QuarantineNamespaceSync q x) \<and> m k \<noteq> None \<and> m' = m(k := None)
          \<or> m' = m \<and> (e = QuarantineSourceMissing \<longrightarrow> m k = None))"
| "spec_allows plat config k _ m _ sent m' \<longleftrightarrow> False"

definition proper_request :: "bytes \<times> operation \<Rightarrow> bool" where
  "proper_request r \<longleftrightarrow> length (fst r) = 32
     \<and> (case snd r of SaveStream d ms s \<Rightarrow> vec_chunks ms | _ \<Rightarrow> True)"

section \<open>Names\<close>

locale store_names = crc32c_spec c + blake3_spec b3
  for c :: crc32c and b3 :: blake3 +
  fixes config :: store_config
  assumes format_ok: "valid_format (format config)"
begin

abbreviation pathk :: "bytes \<Rightarrow> path" where
  "pathk k \<equiv> worker_path b3 config k"

lemma hex_head: "length k = 32 \<Longrightarrow> b3_to_hex b3 k \<noteq> [] \<and> hd (b3_to_hex b3 k) \<noteq> CHR ''.''"
  using hex_length [of k] hex_digits [of k] by (cases "b3_to_hex b3 k") (auto simp: lower_hex_def)

lemma pathk_inj: "length k = 32 \<Longrightarrow> length k' = 32 \<Longrightarrow> pathk k = pathk k' \<longleftrightarrow> k = k'"
  using hex_inj by (auto simp: worker_path_def join_def)

lemma pathk_not_namespace: "pathk k \<noteq> namespace config"
  by (cases "namespace config") (auto simp: worker_path_def join_def)

lemma pathk_not_quarantine:
  assumes "length k = 32" and "length k' = 32"
  shows "pathk k \<noteq> quarantine_destination config (b3_to_hex b3 k') ident"
proof
  assume "pathk k = quarantine_destination config (b3_to_hex b3 k') ident"
  then have "length (b3_to_hex b3 k @ filename_suffix (format config)) =
      length (b3_to_hex b3 k' @ filename_suffix (format config) @ ''.quarantine-v1.'' @ ident)"
    by (simp add: worker_path_def quarantine_destination_def join_def)
  with hex_length [OF assms(1)] hex_length [OF assms(2)] show False by simp
qed

lemma quarantine_not_namespace: "quarantine_destination config hash ident \<noteq> namespace config"
  by (cases "namespace config") (auto simp: quarantine_destination_def join_def)

lemma stem_worker_path: "length k = 32 \<Longrightarrow> file_stem (pathk k) = Some (b3_to_hex b3 k)"
  using stem_of_canonical [of "filename_suffix (format config)" k] format_ok
  by (simp add: file_stem_def worker_path_def join_def valid_format_def)

lemma tag_length: "length (domain_tag (format config)) = 8"
  using format_ok by (simp add: valid_format_def)

text \<open>How a change of one file acts on the represented map.\<close>

lemma represents_same: "represents c b3 config m w \<Longrightarrow> same_files w w' \<Longrightarrow> represents c b3 config m w'"
  by (simp add: represents_def same_files_def)

lemma represents_update:
  assumes "represents c b3 config m w" and "nodes w' (namespace config) = nodes w (namespace config)"
    and "entry_of c config v (nodes w' (pathk k))"
    and "\<And>k'. k' \<noteq> k \<Longrightarrow> length k' = 32 \<Longrightarrow> nodes w' (pathk k') = nodes w (pathk k')"
  shows "represents c b3 config (m(k := v)) w'"
  using assms by (auto simp: represents_def)

lemma represents_removed:
  assumes "represents c b3 config m w" and "length k = 32" and "nodes w' = (nodes w)(pathk k := None)"
  shows "represents c b3 config (m(k := None)) w'"
  using assms pathk_not_namespace [of k] pathk_inj by (intro represents_update) (auto simp: entry_of_def)

lemma entry_layout:
  assumes "represents c b3 config m w" and "length k = 32" and "nodes w (pathk k) = Some n"
    and "node_bytes n = Some (envelope_layout c (format config) p)" and "length p \<le> unat (maximum config)"
  shows "m k = Some p"
proof (cases "m k")
  case None
  with assms(1-3) show ?thesis by (auto simp: represents_def entry_of_def)
next
  case (Some p')
  with assms have "length p' \<le> unat (maximum config)"
      and "envelope_layout c (format config) p' = envelope_layout c (format config) p"
    by (fastforce simp: represents_def entry_of_def)+
  with parse_layout [OF tag_length] assms(5) Some show ?thesis by (metis sum.inject(2))
qed

lemma entry_None: "represents c b3 config m w \<Longrightarrow> length k = 32 \<Longrightarrow> nodes w (pathk k) = None \<longleftrightarrow> m k = None"
  by (fastforce simp: represents_def entry_of_def split: option.splits)

end

section \<open>Operations that change nothing\<close>

text \<open>They are the same on either backend.\<close>

locale store_loads = store_names c b3 config
  for c :: crc32c and b3 :: blake3 and config :: store_config +
  fixes usize_max :: nat
  assumes maximum_ok: "unat (maximum config) + 22 \<le> usize_max"
    and usize_ok: "usize_max < 2 ^ 64"
begin

lemma maximum_u64: "unat (maximum config) + 22 < 2 ^ 64"
  using maximum_ok usize_ok by simp

lemma load_refines:
  assumes m: "represents c b3 config m w" and k: "length k = 32"
    and ld: "load_blob usize_max c config (pathk k) w = (r, w')"
  shows "spec_allows plat config k (Load s) m (LoadResult r) sent m \<and> represents c b3 config m w'"
proof -
  have "v = m k" if "r = Inr v" for v
  proof (cases v)
    case None
    with that ld have "load_blob usize_max c config (pathk k) w = (Inr None, w')" by simp
    from load_blob_None(1) [OF this] None entry_None [OF m k] show ?thesis by simp
  next
    case (Some p)
    with load_blob_Some [OF crc32c_spec_axioms maximum_ok usize_ok] that ld entry_layout [OF m k]
    show ?thesis by metis
  qed
  with represents_same [OF m load_blob_same [OF ld]] show ?thesis by auto
qed

lemma stream_load_refines:
  assumes m: "represents c b3 config m w" and k: "length k = 32"
    and ld: "load_blob_into_sender c config (pathk k) consumer w = (r, sent, w')"
  shows "spec_allows plat config k (LoadStream x y s) m (LoadStreamResult r) sent m \<and> represents c b3 config m w'"
proof -
  note so = stream_load_sent [OF crc32c_spec_axioms format_ok maximum_u64 ld]
  have none: "r = Inr None \<longrightarrow> m k = None"
    using stream_load_None(1) [of c config "pathk k" consumer w sent w'] ld entry_None [OF m k] by auto
  have pre: "sent \<noteq> [] \<longrightarrow> (\<exists>p. m k = Some p \<and> prefix (concat sent) p)"
    using so entry_layout [OF m k] by metis
  have all: "m k = Some (concat sent) \<and> unat (payload_len d) = length (concat sent)"
    if r: "r = Inr (Some d)" for d
  proof -
    from so [of d] r obtain n p where p: "nodes w (pathk k) = Some n"
        "node_bytes n = Some (envelope_layout c (format config) p)" "length p \<le> unat (maximum config)"
        "concat sent = p" "payload_len d = of_nat (length p)" by blast
    moreover have "unat (of_nat (length p) :: u64) = length p"
      using le_less_trans [OF p(3) unat_u64_less] by simp
    ultimately show ?thesis using entry_layout [OF m k p(1-3)] by simp
  qed
  from none pre all represents_same [OF m stream_load_same [OF ld]] show ?thesis by auto
qed

lemma inspect_refines:
  assumes m: "represents c b3 config m w" and k: "length k = 32"
    and ins: "inspect_blob config (pathk k) w = (r, w')"
  shows "spec_allows plat config k (Inspect s) m (InspectResult r) sent m \<and> represents c b3 config m w'"
proof -
  have "inspected_state i = (if m k = None then Absent else Present)
      \<and> size_of_blob i = map_option (\<lambda>p. of_nat (22 + length p)) (m k)" if "r = Inr i" for i
  proof -
    have "entry_of c config (m k) (nodes w (pathk k))" using m k by (simp add: represents_def)
    with inspect_blob_ok [OF ins [unfolded that]] show ?thesis
      by (auto simp: entry_of_def tag_length split: option.splits)
  qed
  with represents_same [OF m inspect_blob_same [OF ins]] show ?thesis by auto
qed

end

section \<open>Sequences of operations\<close>

text \<open>Operations run one after the other, with the results they give.\<close>

fun run_sequence ::
    "'x environment \<Rightarrow> blake3 \<Rightarrow> store_config \<Rightarrow> (bytes \<times> operation) list \<Rightarrow> 'x world
     \<Rightarrow> ((blocking_result \<times> bytes list) list \<times> 'x world) option" where
  "run_sequence env b3 config [] w = Some ([], w)"
| "run_sequence env b3 config ((k, op) # ops) w =
    (case run_owned_operation env config (worker_path b3 config k) op w of
       Some (Some (op', res), sent, w') \<Rightarrow>
         map_option (\<lambda>(rs, w''). ((res, sent) # rs, w'')) (run_sequence env b3 config ops w')
     | _ \<Rightarrow> None)"

fun spec_sequence ::
    "platform \<Rightarrow> store_config \<Rightarrow> (bytes \<times> operation) list \<Rightarrow> blob_map \<Rightarrow> (blocking_result \<times> bytes list) list \<Rightarrow> blob_map \<Rightarrow> bool" where
  "spec_sequence plat config [] m [] m'' \<longleftrightarrow> m'' = m"
| "spec_sequence plat config ((k, op) # ops) m ((res, sent) # rs) m'' \<longleftrightarrow>
     (\<exists>m'. spec_allows plat config k op m res sent m' \<and> spec_sequence plat config ops m' rs m'')"
| "spec_sequence plat config _ m _ m'' \<longleftrightarrow> False"

lemma run_sequence_returns:
  assumes "env_backend env = Unix ops" and "list_all (\<lambda>(k, op). owns_channels op \<and> (\<forall>s. op \<noteq> Quarantine s)) reqs"
  shows "\<exists>rs w'. run_sequence env b3 config reqs w = Some (rs, w')"
  using assms(2)
proof (induction reqs arbitrary: w)
  case (Cons req reqs)
  obtain k op where req: "req = (k, op)" by (cases req)
  have "owns_channels op" and "\<forall>s. op \<noteq> Quarantine s" using Cons.prems req by auto
  then obtain x sent w1 where "run_owned_operation env config (worker_path b3 config k) op w = Some (Some x, sent, w1)"
    using run_owned_operation_returns [OF assms(1)] by blast
  moreover obtain rs w' where "run_sequence env b3 config reqs w1 = Some (rs, w')"
    using Cons by fastforce
  ultimately show ?case using req by (cases x) simp
qed simp

section \<open>The interface of the engine to a backend\<close>

text \<open>
  Whatever an operation that returns has done, the specification allows it; a cleanup does nothing to
  the map. Both backends are shown to have it.
\<close>

locale backed_store =
  fixes env :: "'x environment" and b3 :: blake3 and config :: store_config
  assumes operation_refines: "represents (env_crc env) b3 config m w \<Longrightarrow> proper_request (k, op) \<Longrightarrow>
      run_owned_operation env config (worker_path b3 config k) op w = Some (Some (op', res), sent, w') \<Longrightarrow>
      \<exists>m'. spec_allows (platform_of (env_backend env)) config k op m res sent m' \<and> represents (env_crc env) b3 config m' w'"
    and cleanup_refines: "represents (env_crc env) b3 config m w \<Longrightarrow>
      backend_cleanup (env_backend env) os config age w = (report, w') \<Longrightarrow> represents (env_crc env) b3 config m w'"
begin

abbreviation plat :: platform where "plat \<equiv> platform_of (env_backend env)"
abbreviation c :: crc32c where "c \<equiv> env_crc env"

lemma sequence_refines:
  assumes "represents c b3 config m w" and "list_all proper_request reqs"
    and "run_sequence env b3 config reqs w = Some (rs, w')"
  shows "\<exists>m'. spec_sequence plat config reqs m rs m' \<and> represents c b3 config m' w'"
  using assms
proof (induction reqs arbitrary: m w rs)
  case (Cons req reqs)
  obtain k op where req: "req = (k, op)" by (cases req)
  with Cons.prems(3) obtain op' res sent w1 rs' where
    run: "run_owned_operation env config (worker_path b3 config k) op w = Some (Some (op', res), sent, w1)"
    and rest: "run_sequence env b3 config reqs w1 = Some (rs', w')" and rs: "rs = (res, sent) # rs'"
    by (auto split: option.splits prod.splits)
  have "proper_request (k, op)" using Cons.prems(2) req by simp
  from operation_refines [OF Cons.prems(1) this run] obtain m1 where
    m1: "spec_allows plat config k op m res sent m1" "represents c b3 config m1 w1" by blast
  from Cons.IH [OF m1(2) _ rest] Cons.prems(2) obtain m' where
    "spec_sequence plat config reqs m1 rs' m'" "represents c b3 config m' w'" by auto
  with m1 req rs show ?case by auto
qed auto

end

end
