(* ===== verification/Unix_Model.thy ===== *)
theory Unix_Model
  imports Store_Model
begin

text \<open>
  The Unix backend provides the store: locale \<open>store_model\<close> collects what it relies on, and each of its
  operations does what the abstract map allows.
\<close>

locale store_model = unix_ops_spec ops hidden staged + store_loads c b3 config usize_max
  for ops :: "'x unix_ops" and hidden :: "path \<Rightarrow> bool"
    and staged :: "fd \<Rightarrow> 'x world \<Rightarrow> (path \<times> bytes) option"
    and c :: crc32c and b3 :: blake3 and config :: store_config and usize_max :: nat +
  assumes namespace_ok: "\<not> hidden (namespace config)"
begin

lemma worker_path_canonical: "pathk k = canonical_path config (b3_to_hex b3 k)"
  by (simp add: worker_path_def canonical_path_def)

lemma pathk_visible: "length k = 32 \<Longrightarrow> \<not> hidden (pathk k)"
  unfolding worker_path_canonical using visible_names(1) hex_head by blast

lemma represents_agree:
  "represents c b3 config m w \<Longrightarrow> agree hidden w w' \<Longrightarrow> represents c b3 config m w'"
  using pathk_visible namespace_ok by (auto simp: represents_def agree_def)

lemma represents_stored:
  assumes m: "represents c b3 config m w" and k: "length k = 32" and "length p \<le> unat (maximum config)"
    and st: "stored hidden (pathk k) (envelope_layout c (format config) p) w w'"
  shows "represents c b3 config (m(k \<mapsto> p)) w'"
proof (rule represents_update [OF m])
  show "nodes w' (namespace config) = nodes w (namespace config)"
    using st namespace_ok pathk_not_namespace [of k] by (metis stored_def)
  show "entry_of c config (Some p) (nodes w' (pathk k))"
    using st assms(3) by (simp add: stored_def entry_of_def)
  show "nodes w' (pathk k') = nodes w (pathk k')" if "k' \<noteq> k" "length k' = 32" for k'
    using st pathk_visible [OF that(2)] pathk_inj [OF that(2) k] that(1) by (simp add: stored_def)
qed

lemma represents_moved:
  assumes m: "represents c b3 config m w" and k: "length k = 32"
    and "set_aside hidden config (b3_to_hex b3 k) w q w'"
  shows "represents c b3 config (m(k := None)) w'" and "m k \<noteq> None"
proof -
  have mv: "moved hidden (pathk k) (quarantine_destination config (b3_to_hex b3 k) (quarantine_identifier q)) w w'"
    using assms(3) unfolding set_aside_def worker_path_canonical by metis
  have "entry_of c config (m k) (nodes w (pathk k))" using m k by (simp add: represents_def)
  moreover have "nodes w (pathk k) \<noteq> None" using mv by (simp add: moved_def)
  ultimately show "m k \<noteq> None" by (auto simp: entry_of_def split: option.splits)
  show "represents c b3 config (m(k := None)) w'"
  proof (rule represents_update [OF m])
    show "nodes w' (namespace config) = nodes w (namespace config)"
      using mv namespace_ok pathk_not_namespace [of k] quarantine_not_namespace by (metis moved_def)
    show "entry_of c config None (nodes w' (pathk k))" using mv by (simp add: moved_def entry_of_def)
    show "nodes w' (pathk k') = nodes w (pathk k')" if "k' \<noteq> k" "length k' = 32" for k'
      using mv pathk_visible [OF that(2)] pathk_inj [OF that(2) k] that(1) pathk_not_quarantine [OF that(2) k]
      by (simp add: moved_def)
  qed
qed

lemma save_refines:
  assumes "represents c b3 config m w" and "length k = 32"
    and "save_effect hidden (pathk k) (envelope_layout c (format config) p) w res w'"
    and "(\<exists>x. res = Inl (AtomicCommit x)) \<or> res = Inr () \<Longrightarrow> length p \<le> unat (maximum config)"
  shows "\<exists>m'. represents c b3 config m' w' \<and>
    (case res of Inr _ \<Rightarrow> m' = m(k \<mapsto> p) \<and> length p \<le> unat (maximum config)
     | Inl e \<Rightarrow> m' = m \<or> (\<exists>x. e = AtomicCommit x) \<and> m' = m(k \<mapsto> p))"
proof (cases res)
  case (Inl e)
  with assms represents_agree [OF assms(1)] represents_stored [OF assms(1,2)] show ?thesis
    by (auto simp: save_effect_def)
next
  case (Inr u)
  with assms represents_stored [OF assms(1,2)] show ?thesis by (auto simp: save_effect_def)
qed

lemma quarantine_refines:
  assumes m: "represents c b3 config m w" and k: "length k = 32"
    and "quarantine_effect hidden config (b3_to_hex b3 k) w res w'"
  shows "\<exists>m'. represents c b3 config m' w' \<and>
     (case res of
        Inr _ \<Rightarrow> m k \<noteq> None \<and> m' = m(k := None)
      | Inl e \<Rightarrow> (\<exists>q x. e = QuarantineNamespaceSync q x) \<and> m k \<noteq> None \<and> m' = m(k := None)
          \<or> m' = m \<and> (e = QuarantineSourceMissing \<longrightarrow> m k = None))"
proof (cases res)
  case (Inl e)
  with assms(3) consider q x where "e = QuarantineNamespaceSync q x"
        "set_aside hidden config (b3_to_hex b3 k) w q w'"
    | "agree hidden w w'" "e = QuarantineSourceMissing \<longrightarrow> nodes w (pathk k) = None"
    by (auto simp: quarantine_effect_def worker_path_canonical)
  then show ?thesis
  proof cases
    case 1
    with represents_moved [OF m k] Inl show ?thesis by auto
  next
    case 2
    with represents_agree [OF m] entry_None [OF m k] Inl show ?thesis by auto
  qed
next
  case (Inr q)
  with assms(3) have "set_aside hidden config (b3_to_hex b3 k) w q w'" by (simp add: quarantine_effect_def)
  with represents_moved [OF m k] Inr show ?thesis by auto
qed

lemma quarantine_blob_effect:
  assumes "length k = 32" and "quarantine_blob ops config (pathk k) w = Some (res, w')"
  shows "quarantine_effect hidden config (b3_to_hex b3 k) w res w'"
  using assms quarantine_loop_effect [of "b3_to_hex b3 k" config w res w'] hex_head [OF assms(1)] namespace_ok
    stem_worker_path [OF assms(1)]
  by (simp add: quarantine_blob_def worker_path_canonical)

abbreviation envk :: "'x environment" where
  "envk \<equiv> \<lparr>env_usize_max = usize_max, env_crc = c, env_backend = Unix ops\<rparr>"

text \<open>One lemma per operation, then all of them.\<close>

lemma save_blob_refines:
  assumes m: "represents c b3 config m w" and k: "length k = 32"
    and sv: "save_blob ops c config (pathk k) payload w = (r, w')"
  shows "\<exists>m'. spec_allows OnUnix config k (Save payload s) m (SaveResult r) sent m' \<and> represents c b3 config m' w'"
proof -
  note eff = save_blob_effect [OF crc32c_spec_axioms sv]
  have "length payload \<le> unat (maximum config)" if "(\<exists>x. r = Inl (AtomicCommit x)) \<or> r = Inr ()"
    using eff(2) that by (auto simp: encode_envelope_eq split: if_splits)
  from save_refines [OF m k eff(1) this] show ?thesis by (cases r) auto
qed

lemma save_stream_refines:
  assumes m: "represents c b3 config m w" and k: "length k = 32" and vec: "vec_chunks ms"
    and sv: "save_blob_from_receiver ops c config (pathk k) declared ms w = (r, w')"
  shows "\<exists>m'. spec_allows OnUnix config k (SaveStream declared ms s) m (SaveStreamResult r) sent m'
    \<and> represents c b3 config m' w'"
  using save_stream_effect [OF crc32c_spec_axioms vec sv]
proof (elim disjE exE conjE)
  assume "agree hidden w w'" and "isl r"
  with represents_agree [OF m] show ?thesis by (cases r) auto
next
  fix p
  assume p: "completed ms = Some p" "length p = unat declared" "length p \<le> unat (maximum config)"
    and eff: "save_effect hidden (pathk k) (envelope_layout c (format config) p) w r w'"
  from save_refines [OF m k eff p(3)] p(1,2) show ?thesis by (cases r) auto
qed

lemma clear_refines:
  assumes m: "represents c b3 config m w" and k: "length k = 32"
    and cl: "clear_blob config (pathk k) w = (r, w')"
  shows "\<exists>m'. spec_allows OnUnix config k (Clear s) m (ClearResult r) sent m' \<and> represents c b3 config m' w'"
proof (cases r)
  case (Inl e)
  from clear_blob_error [OF cl [unfolded Inl]] show ?thesis
  proof (elim disjE conjE)
    assume "nodes w' = nodes w"
    with m have "represents c b3 config m w'" by (simp add: represents_def)
    with Inl show ?thesis by auto
  next
    assume "nodes w' = (nodes w)(pathk k := None)"
      and "\<exists>x. e = Io OpenNamespaceDirectory x \<or> e = Io SyncNamespaceDirectory x"
    with represents_removed [OF m k] Inl show ?thesis by (auto simp: sync_failure_def)
  qed
next
  case (Inr u)
  from clear_blob_ok(1) [OF cl [unfolded Inr]] represents_removed [OF m k] Inr show ?thesis by auto
qed

lemma operation_refines:
  assumes m: "represents c b3 config m w" and req: "proper_request (k, op)"
    and run: "run_owned_operation envk config (pathk k) op w = Some (Some (op', res), sent, w')"
  shows "\<exists>m'. spec_allows OnUnix config k op m res sent m' \<and> represents c b3 config m' w'"
proof -
  have k: "length k = 32" using req by (simp add: proper_request_def)
  note refines = load_refines [OF m k] stream_load_refines [OF m k] save_blob_refines [OF m k]
    clear_refines [OF m k] inspect_refines [OF m k]
  show ?thesis
  proof (cases op)
    case (Load s)
    with run refines(1) show ?thesis by (fastforce split: prod.splits simp del: spec_allows.simps)
  next
    case (LoadStream chunks ack s)
    with run refines(2) show ?thesis
      by (fastforce split: prod.splits option.splits simp del: spec_allows.simps)
  next
    case (Save payload s)
    with run refines(3) show ?thesis by (fastforce split: prod.splits simp del: spec_allows.simps)
  next
    case (SaveStream declared ms s)
    with run req save_stream_refines [OF m k] show ?thesis
      by (fastforce split: prod.splits simp: proper_request_def simp del: spec_allows.simps)
  next
    case (Clear s)
    with run refines(4) show ?thesis by (fastforce split: prod.splits simp del: spec_allows.simps)
  next
    case (Inspect s)
    with run refines(5) show ?thesis by (fastforce split: prod.splits simp del: spec_allows.simps)
  next
    case (Quarantine s)
    then obtain r where q: "quarantine_blob ops config (pathk k) w = Some (r, w')"
        and "res = QuarantineResult r"
      using run by (auto split: prod.splits option.splits)
    with quarantine_refines [OF m k quarantine_blob_effect [OF k q]] Quarantine show ?thesis by auto
  qed
qed

end

sublocale store_model \<subseteq> backed: backed_store envk b3 config
  by unfold_locales (auto simp: cleanup_stale_files_def dest: operation_refines)

context store_model
begin

lemma is_backed: "backed_store envk b3 config"
  by unfold_locales

end

end
