(* ===== verification/Posix.thy ===== *)
theory Posix
  imports Unix_Facts
begin

text \<open>
  An executable implementation of the crates the Unix backend calls, on the file system of
  \<open>File_World\<close>: an atomic writer stages bytes in an anonymous file and publishes them with one
  rename followed by a directory synchronisation that may fail on its own; the entropy source is
  a list. It discharges the contract \<open>unix_ops_spec\<close>.
\<close>

record posix =
  next_fd :: nat
  writers :: "(fd \<times> path \<times> bytes) list"
  entropy :: "bytes list"

type_synonym posix_world = "posix world"

definition bad_descriptor :: io_error where
  "bad_descriptor = os_error 9"

definition set_writers :: "(fd \<times> path \<times> bytes) list \<Rightarrow> posix_world \<Rightarrow> posix_world" where
  "set_writers ws w = w\<lparr>ext := (ext w)\<lparr>writers := ws\<rparr>\<rparr>"

definition posix_random :: "nat \<Rightarrow> posix_world \<Rightarrow> (getrandom_error + bytes) \<times> posix_world" where
  "posix_random n w =
    (case entropy (ext w) of
       [] \<Rightarrow> (Inl 38, w)
     | bs # rest \<Rightarrow>
         (Inr (take n (bs @ replicate n 0)), w\<lparr>ext := (ext w)\<lparr>entropy := rest\<rparr>\<rparr>))"

definition posix_open :: "awf_options \<Rightarrow> path \<Rightarrow> posix_world \<Rightarrow> (io_error + fd) \<times> posix_world" where
  "posix_open options p =
     fs_call (\<lambda>w.
       case nodes w (path_parent p) of
         Some Directory \<Rightarrow>
           (Inr (next_fd (ext w)),
            w\<lparr>ext := (ext w)\<lparr>next_fd := Suc (next_fd (ext w)),
                 writers := (next_fd (ext w), p, []) # writers (ext w)\<rparr>\<rparr>)
       | Some _ \<Rightarrow> (Inl not_a_directory, w)
       | None \<Rightarrow> (Inl not_found, w))"

definition posix_write :: "fd \<Rightarrow> bytes \<Rightarrow> posix_world \<Rightarrow> (io_error + unit) \<times> posix_world" where
  "posix_write fd d =
     fs_call (\<lambda>w.
       case map_of (writers (ext w)) fd of
         None \<Rightarrow> (Inl bad_descriptor, w)
       | Some (p, bs) \<Rightarrow> (Inr (), set_writers ((fd, p, bs @ d) # writers (ext w)) w))"

definition posix_drop :: "fd \<Rightarrow> posix_world \<Rightarrow> posix_world" where
  "posix_drop fd w = set_writers (filter (\<lambda>e. fst e \<noteq> fd) (writers (ext w))) w"

definition posix_commit :: "fd \<Rightarrow> posix_world \<Rightarrow> (io_error + unit) \<times> posix_world" where
  "posix_commit fd w =
    (case map_of (writers (ext w)) fd of
       None \<Rightarrow> (Inl bad_descriptor, w)
     | Some (p, bs) \<Rightarrow>
         (case fs_call (\<lambda>w. if nodes w p = Some Directory then (Inl is_a_directory, w)
                  else (Inr (), w\<lparr>nodes := (nodes w)(p \<mapsto> Regular bs None)\<rparr>)) (posix_drop fd w) of
            (Inl e, w1) \<Rightarrow> (Inl e, w1)
          | (Inr _, w1) \<Rightarrow> fs_call (\<lambda>w. (Inr (), w)) w1))"

definition posix_rename :: "path \<Rightarrow> path \<Rightarrow> posix_world \<Rightarrow> (errno + unit) \<times> posix_world" where
  "posix_rename src dst w =
    (case fs_call (\<lambda>w. (Inr (), w)) w of
       (Inl e, w1) \<Rightarrow> (Inl (Errno (case raw_os_error e of None \<Rightarrow> 0 | Some code \<Rightarrow> code)), w1)
     | (Inr _, w1) \<Rightarrow>
         if nodes w1 src = None then (Inl NOENT, w1)
         else if nodes w1 dst \<noteq> None then (Inl EXIST, w1)
         else (Inr (), w1\<lparr>nodes := (nodes w1)(dst := nodes w1 src, src := None)\<rparr>))"

definition posix_ops :: "posix unix_ops" where
  "posix_ops = \<lparr>getrandom_fill = posix_random, awf_open = posix_open, awf_write_all = posix_write,
     awf_commit = posix_commit, awf_drop = posix_drop, rename_noreplace = posix_rename\<rparr>"

definition posix_hidden :: "path \<Rightarrow> bool" where
  "posix_hidden p \<longleftrightarrow> path_components p \<noteq> [] \<and> take 1 (last (path_components p)) = ''.''"

definition posix_staged :: "fd \<Rightarrow> posix_world \<Rightarrow> (path \<times> bytes) option" where
  "posix_staged fd w = map_of (writers (ext w)) fd"

lemmas posix_defs = posix_ops_def posix_random_def posix_open_def posix_write_def posix_drop_def
  posix_commit_def posix_rename_def posix_staged_def set_writers_def

lemma fs_call_cases:
  assumes "fs_call body w = (x, w')"
  shows "(\<exists>code. x = Inl (os_error code)) \<and> w' = w\<lparr>faults := tl (faults w)\<rparr>
    \<or> (\<exists>fs. body (w\<lparr>faults := fs\<rparr>) = (x, w'))"
proof (cases "faults w")
  case Nil
  then have "w\<lparr>faults := []\<rparr> = w" by simp
  moreover have "body w = (x, w')" using assms Nil by (simp add: fs_call_def)
  ultimately show ?thesis by (intro disjI2 exI [of _ "[]"]) simp
next
  case (Cons f fs)
  with assms show ?thesis by (cases f) (auto simp: fs_call_def)
qed

interpretation posix: unix_ops_spec posix_ops posix_hidden posix_staged
proof
  fix p assume "posix_hidden p"
  then show "\<exists>name. path_components p \<noteq> [] \<and> last (path_components p) = CHR ''.'' # name"
    by (cases "last (path_components p)") (auto simp: posix_hidden_def)
next
  fix w :: posix_world and fd p bs u w'
  assume "posix_staged fd w = Some (p, bs)" and c: "awf_commit posix_ops fd w = (Inr u, w')"
  then obtain w1 where w1: "fs_call (\<lambda>w. if nodes w p = Some Directory then (Inl is_a_directory, w)
                  else (Inr (), w\<lparr>nodes := (nodes w)(p \<mapsto> Regular bs None)\<rparr>)) (posix_drop fd w) = (Inr (), w1)"
      and "fs_call (\<lambda>w. (Inr (), w)) w1 = (Inr (), w')"
    by (auto simp: posix_ops_def posix_commit_def posix_staged_def split: prod.splits sum.splits)
  then show "stored posix_hidden p bs w w'"
    using fs_call_cases [OF w1] fs_call_cases [of _ w1]
    by (fastforce simp: stored_def posix_drop_def set_writers_def split: if_splits)
next
  fix w :: posix_world and fd p bs e w'
  assume st: "posix_staged fd w = Some (p, bs)" and c: "awf_commit posix_ops fd w = (Inl e, w')"
  obtain x w1 where w1: "fs_call (\<lambda>w. if nodes w p = Some Directory then (Inl is_a_directory, w)
                  else (Inr (), w\<lparr>nodes := (nodes w)(p \<mapsto> Regular bs None)\<rparr>)) (posix_drop fd w) = (x, w1)"
    by fastforce
  show "agree posix_hidden w w' \<or> stored posix_hidden p bs w w'"
  proof (cases x)
    case (Inl e')
    with st c w1 have "w' = w1" by (simp add: posix_ops_def posix_commit_def posix_staged_def)
    with Inl fs_call_cases [OF w1] show ?thesis
      by (auto simp: agree_def posix_drop_def set_writers_def split: if_splits)
  next
    case (Inr u)
    with st c w1 have "fs_call (\<lambda>w. (Inr (), w)) w1 = (Inl e, w')"
      by (simp add: posix_ops_def posix_commit_def posix_staged_def)
    from fs_call_cases [OF this] fs_call_cases [OF w1] Inr show ?thesis
      by (auto simp: stored_def posix_drop_def set_writers_def split: if_splits)
  qed
next
  fix src dst and w :: posix_world and u w'
  assume "src \<noteq> dst" and "rename_noreplace posix_ops src dst w = (Inr u, w')"
  then show "moved posix_hidden src dst w w'"
    by (auto simp: posix_ops_def posix_rename_def moved_def fs_call_def
        split: prod.splits sum.splits if_splits list.splits option.splits)
next
  fix src dst and w :: posix_world and code w'
  assume "rename_noreplace posix_ops src dst w = (Inl code, w')"
  then show "agree posix_hidden w w' \<and> (code = NOENT \<longrightarrow> nodes w src = None) \<and> (code = EXIST \<longrightarrow> nodes w dst \<noteq> None)"
    by (auto simp: posix_ops_def posix_rename_def agree_def fs_call_def
        split: prod.splits sum.splits if_splits list.splits option.splits)
qed (auto simp: posix_defs agree_def fs_call_def split: list.splits option.splits node.splits)

end
