(* ===== verification/Store_Instance.thy ===== *)
theory Store_Instance
  imports Unix_Model Posix Blake3 Crc32c
begin

text \<open>
  The interface \<open>store_model\<close> holds of the executable crates: the CRC-32C of \<open>Crc32c\<close>, the BLAKE3 of
  \<open>Blake3\<close> and the file operations of \<open>Posix\<close>, with the configuration of the examples. Without
  scheduled failures these operations succeed, so a save ends in the stored envelope.
\<close>

interpretation example_store: store_model posix_ops posix_hidden posix_staged crc32c_reference
    blake3_reference sample_config "2 ^ 64 - 1"
  by unfold_locales (simp_all add: sample_config_def valid_fixture_format posix_hidden_def)

definition example_world :: posix_world where
  "example_world = \<lparr>nodes = [Path True [''root''] \<mapsto> Directory, Path True [''root'', ''ns''] \<mapsto> Directory],
     faults = [], plans = [], cwd = Path True [],
     ext = \<lparr>next_fd = 0, writers = [], entropy = [replicate 32 0xab]\<rparr>\<rparr>"

definition example_key :: bytes where
  "example_key = replicate 32 7"

abbreviation example_path :: path where
  "example_path \<equiv> worker_path blake3_reference sample_config example_key"

lemma example_world_simps [simp]:
  "faults example_world = []" "plans example_world = []" "ext example_world = \<lparr>next_fd = 0, writers = [], entropy = [replicate 32 0xab]\<rparr>"
  "nodes example_world (namespace sample_config) = Some Directory" "cwd example_world = Path True []"
  by (simp_all add: example_world_def sample_config_def)

lemma example_key_length [simp]: "length example_key = 32"
  by (simp add: example_key_def)

lemma worker_path_parent [simp]: "path_parent (worker_path b3 config k) = namespace config"
  by (simp add: path_parent_def worker_path_def join_def)

lemma example_absent [simp]: "nodes example_world (worker_path blake3_reference sample_config k) = None"
  by (simp add: example_world_def worker_path_def join_def sample_config_def)

section \<open>Undisturbed writes\<close>

lemma posix_save_undisturbed:
  assumes "crc32c_spec c" and "faults w = []" and "nodes w (path_parent p) = Some Directory"
    and "nodes w p \<noteq> Some Directory" and "length payload \<le> unat (maximum config)"
  shows "\<exists>x. save_blob posix_ops c config p payload w =
    (Inr (), w\<lparr>ext := x, nodes := (nodes w)(p \<mapsto> Regular (envelope_layout c (format config) payload) None)\<rparr>)"
proof -
  have "length payload < 2 ^ 64" using le_less_trans [OF assms(5) unat_u64_less] .
  then have "encode_envelope c (format config) payload (maximum config) = Inr (envelope_layout c (format config) payload)"
    using crc32c_spec.encode_envelope_eq [OF assms(1)] assms(5) by simp
  then obtain h k where "envelope_parts c (format config) payload (maximum config) = Inr (h, k)"
      and env: "h @ payload @ k = envelope_layout c (format config) payload"
    by (auto simp: encode_envelope_def split: sum.splits)
  with assms(2-4) show ?thesis
    by (simp add: save_blob_def posix_ops_def posix_open_def posix_write_def posix_commit_def
        posix_drop_def set_writers_def fs_call_def) (rule exI, rule refl)
qed

end
