(* ===== verification/Unix_Props.thy ===== *)
theory Unix_Props
  imports Store_Instance
begin

text \<open>
  The properties of the Unix backend and of the worker operations: atomic replacement, durable
  round trip, loads that never mutate and never return a corrupted payload, quarantine, namespace
  initialization, and the refinement of the abstract map.
\<close>

lemma store_modelD:
  assumes "store_model ops hidden staged c b3 config usize_max"
  shows "crc32c_spec c" and "unix_ops_spec ops hidden staged" and "valid_format (format config)"
    and "unat (maximum config) + 22 \<le> usize_max" and "usize_max < 2 ^ 64"
    and "unat (maximum config) + 22 < 2 ^ 64" and "store_names c b3 config"
  using assms by (auto simp: store_model_def store_loads_def store_loads_axioms_def store_names_def store_names_axioms_def)

text \<open>The example store with one blob in it.\<close>

definition example_payload :: bytes where
  "example_payload = [1, 2, 3]"

definition example_stored :: posix_world where
  "example_stored = example_world\<lparr>nodes := (nodes example_world)(example_path \<mapsto>
     Regular (envelope_layout crc32c_reference (format sample_config) example_payload) None)\<rparr>"

lemma example_stored_simps [simp]:
  "faults example_stored = []" "plans example_stored = []"
  "nodes example_stored example_path =
     Some (Regular (envelope_layout crc32c_reference (format sample_config) example_payload) None)"
  "nodes example_stored (namespace sample_config) = Some Directory"
  "length example_payload \<le> unat (maximum sample_config)"
  using example_store.pathk_not_namespace [of example_key]
  by (simp_all add: example_stored_def example_payload_def sample_config_def) (simp add: example_world_def)

lemma example_gentle [simp]: "next_gentle example_stored" "next_gentle (example_stored\<lparr>plans := []\<rparr>)"
  by (simp_all add: next_gentle_def)

lemmas example_model = example_store.store_model_axioms

section \<open>Saving\<close>

text \<open>C2. A save is old-or-new, whatever fails: the canonical path holds afterwards what it held
  before or the complete new envelope, no other published path changes, success means the new
  envelope, and a change is possible only on success or on a commit error.\<close>

theorem save_is_old_or_new:
  assumes "store_model ops hidden staged c b3 config usize_max" and "length k = 32"
    and "save_blob ops c config (worker_path b3 config k) payload w = (res, w')"
  shows "let p = worker_path b3 config k;
       new = (\<lambda>n. \<exists>t. n = Some (Regular (envelope_layout c (format config) payload) t))
     in (nodes w' p = nodes w p \<or> new (nodes w' p))
    \<and> (\<forall>q. \<not> hidden q \<longrightarrow> q \<noteq> p \<longrightarrow> nodes w' q = nodes w q)
    \<and> (res = Inr () \<longrightarrow> new (nodes w' p))
    \<and> (nodes w' p \<noteq> nodes w p \<longrightarrow> res = Inr () \<or> (\<exists>x. res = Inl (AtomicCommit x)))"
  using unix_ops_spec.save_blob_effect(1) [OF store_modelD(2,1) [OF assms(1)] assms(3)]
    store_model.pathk_visible [OF assms(1,2)]
  by (cases res) (auto simp: Let_def save_effect_def agree_def stored_def)

theorem save_is_old_or_new_witness:
  "\<exists>t. nodes (snd (save_blob posix_ops crc32c_reference sample_config example_path [9] example_stored)) example_path
     = Some (Regular (envelope_layout crc32c_reference (format sample_config) [9]) t)"
proof -
  have "\<exists>x. save_blob posix_ops crc32c_reference sample_config example_path [9] example_stored =
      (Inr (), example_stored\<lparr>ext := x, nodes := (nodes example_stored)(example_path \<mapsto>
         Regular (envelope_layout crc32c_reference (format sample_config) [9]) None)\<rparr>)"
    by (rule posix_save_undisturbed [OF reference.crc32c_spec_axioms]) (simp_all, simp add: sample_config_def)
  then have "save_blob posix_ops crc32c_reference sample_config example_path [9] example_stored = (Inr (),
      snd (save_blob posix_ops crc32c_reference sample_config example_path [9] example_stored))" by auto
  from save_is_old_or_new [OF example_model example_key_length this] show ?thesis by (simp add: Let_def)
qed

text \<open>C33. Round trip through the file system: after a save that reported success, a load that meets no
  failure of the operating system returns exactly the saved payload.\<close>

theorem save_then_load:
  assumes "store_model ops hidden staged c b3 config usize_max" and "length k = 32"
    and "save_blob ops c config (worker_path b3 config k) payload w = (Inr (), w')"
    and "faults w' = []" and "next_gentle w'"
  shows "fst (load_blob usize_max c config (worker_path b3 config k) w') = Inr (Some payload)"
proof -
  note D = store_modelD [OF assms(1)]
  note eff = unix_ops_spec.save_blob_effect [OF D(2,1) assms(3)]
  from eff(1) obtain t where n: "nodes w' (worker_path b3 config k) =
      Some (Regular (envelope_layout c (format config) payload) t)"
    by (auto simp: save_effect_def stored_def)
  have "length payload \<le> unat (maximum config)"
    using eff(2) by (auto simp: crc32c_spec.encode_envelope_eq [OF D(1)] split: if_splits)
  then have "parse_envelope c (format config) (maximum config) (envelope_layout c (format config) payload) = Inr payload"
    using parse_layout D(3) by (simp add: valid_format_def)
  with n show ?thesis by (simp add: load_blob_undisturbed [OF D(1,4,5) assms(4,5)])
qed

theorem save_then_load_witness:
  "fst (load_blob (2 ^ 64 - 1) crc32c_reference sample_config example_path
     (snd (save_blob posix_ops crc32c_reference sample_config example_path example_payload example_world)))
   = Inr (Some example_payload)"
proof -
  obtain x where "save_blob posix_ops crc32c_reference sample_config example_path example_payload example_world =
      (Inr (), example_world\<lparr>ext := x, nodes := (nodes example_world)(example_path \<mapsto>
         Regular (envelope_layout crc32c_reference (format sample_config) example_payload) None)\<rparr>)"
    using posix_save_undisturbed [OF reference.crc32c_spec_axioms, of example_world example_path example_payload sample_config]
    by auto
  from save_then_load [OF example_model example_key_length this] this show ?thesis
    by (simp add: next_gentle_def)
qed

text \<open>C34. A streaming save is old-or-new as well, and it publishes only a complete input: unless the
  sender marked completion after exactly the declared number of bytes, within the maximum, nothing
  published changes and an error is reported; otherwise the save is that of the bytes sent.\<close>

theorem stream_save_publishes_complete_input:
  assumes "store_model ops hidden staged c b3 config usize_max" and "length k = 32" and "vec_chunks ms"
    and "save_blob_from_receiver ops c config (worker_path b3 config k) declared ms w = (res, w')"
  shows "(\<forall>q. \<not> hidden q \<longrightarrow> nodes w' q = nodes w q) \<and> isl res
    \<or> (\<exists>p. completed ms = Some p \<and> length p = unat declared \<and> length p \<le> unat (maximum config)
        \<and> (\<exists>t. nodes w' (worker_path b3 config k) = Some (Regular (envelope_layout c (format config) p) t))
        \<and> (\<forall>q. \<not> hidden q \<longrightarrow> q \<noteq> worker_path b3 config k \<longrightarrow> nodes w' q = nodes w q)
        \<and> (res = Inr () \<or> (\<exists>x. res = Inl (AtomicCommit x))))"
  using unix_ops_spec.save_stream_effect [OF store_modelD(2,1) [OF assms(1)] assms(3,4)]
  by (cases res) (auto simp: save_effect_def agree_def stored_def)

theorem stream_save_publishes_complete_input_witness:
  "nodes (snd (save_blob_from_receiver posix_ops crc32c_reference sample_config example_path 3
      [Chunk [4, 5]] example_stored)) example_path = nodes example_stored example_path"
proof -
  have "save_blob_from_receiver posix_ops crc32c_reference sample_config example_path 3 [Chunk [4, 5]] example_stored =
    (fst (save_blob_from_receiver posix_ops crc32c_reference sample_config example_path 3 [Chunk [4, 5]] example_stored),
     snd (save_blob_from_receiver posix_ops crc32c_reference sample_config example_path 3 [Chunk [4, 5]] example_stored))"
    by simp
  from stream_save_publishes_complete_input [OF example_model example_key_length _ this]
    example_store.pathk_visible [OF example_key_length]
  show ?thesis by simp
qed

section \<open>Loading\<close>

text \<open>C10. A load changes no file, reports absence only for a missing blob in an available namespace,
  and returns a payload only if the stored bytes are exactly its envelope: no failure, interruption
  or short read makes it return anything else.\<close>

theorem load_returns_stored_payload:
  assumes "store_model ops hidden staged c b3 config usize_max"
    and "load_blob usize_max c config path w = (res, w')"
  shows "same_files w w'
    \<and> (res = Inr None \<longrightarrow> nodes w path = None \<and> nodes w (namespace config) = Some Directory)
    \<and> (\<forall>p. res = Inr (Some p) \<longrightarrow> (\<exists>n. nodes w path = Some n \<and> length p \<le> unat (maximum config)
          \<and> node_bytes n = Some (envelope_layout c (format config) p)))"
  using load_blob_same [OF assms(2)] load_blob_None [of usize_max c config path w w']
    load_blob_Some [OF store_modelD(1,4,5) [OF assms(1)], of path w _ w'] assms(2)
  by auto

theorem load_returns_stored_payload_witness:
  "same_files example_world (snd (load_blob (2 ^ 64 - 1) crc32c_reference sample_config example_path example_world))"
proof -
  have "load_blob (2 ^ 64 - 1) crc32c_reference sample_config example_path example_world =
    (fst (load_blob (2 ^ 64 - 1) crc32c_reference sample_config example_path example_world),
     snd (load_blob (2 ^ 64 - 1) crc32c_reference sample_config example_path example_world))" by simp
  from load_returns_stored_payload [OF example_model this] show ?thesis by simp
qed

text \<open>C35. Without failures of the operating system a load is determined by the file: absence needs the
  namespace directory, a directory is unreadable, and any other file gives its payload or the
  first defect of its envelope.\<close>

theorem load_result_from_stored_bytes:
  assumes "store_model ops hidden staged c b3 config usize_max" and "faults w = []" and "next_gentle w"
  shows "fst (load_blob usize_max c config path w) =
    (case nodes w path of
       None \<Rightarrow>
         (case nodes w (namespace config) of
            Some Directory \<Rightarrow> Inr None
          | Some _ \<Rightarrow> Inl NamespacePathIsNotDirectory
          | None \<Rightarrow> Inl (Io InspectNamespace not_found))
     | Some Directory \<Rightarrow> Inl (Io ReadEnvelope is_a_directory)
     | Some (Regular bs _) \<Rightarrow> map_sum id Some (parse_envelope c (format config) (maximum config) bs)
     | Some (Irregular bs) \<Rightarrow> map_sum id Some (parse_envelope c (format config) (maximum config) bs))"
  using load_blob_undisturbed [OF store_modelD(1,4,5) [OF assms(1)] assms(2,3), of path]
  by (auto simp: ensure_namespace_undisturbed [OF assms(2)] split: option.splits node.splits)

theorem load_result_from_stored_bytes_witness:
  "fst (load_blob (2 ^ 64 - 1) crc32c_reference sample_config (Path True [''root'']) example_world) =
     Inl (Io ReadEnvelope is_a_directory)"
  by (subst load_result_from_stored_bytes [OF example_model])
    (simp_all add: next_gentle_def example_world_def)

text \<open>C36. A streaming load delivers no byte of an invalid blob: whatever it sends is a prefix of the
  payload of a completely valid stored envelope, in chunks of 1 to 65536 bytes, and it reports
  metadata only after the whole payload was delivered and acknowledged. It changes no file.\<close>

theorem stream_load_validates_before_output:
  assumes "store_model ops hidden staged c b3 config usize_max"
    and "load_blob_into_sender c config path consumer w = (res, sent, w')"
  shows "same_files w w'
    \<and> (sent \<noteq> [] \<or> res = Inr (Some d) \<longrightarrow>
        (\<exists>n p. nodes w path = Some n \<and> node_bytes n = Some (envelope_layout c (format config) p)
          \<and> length p \<le> unat (maximum config) \<and> prefix (concat sent) p
          \<and> (\<forall>x\<in>set sent. 0 < length x \<and> length x \<le> STREAM_CHUNK_SIZE)
          \<and> (res = Inr (Some d) \<longrightarrow>
               concat sent = p \<and> payload_len d = of_nat (length p) \<and> acknowledges consumer)))
    \<and> (res = Inr None \<longrightarrow> nodes w path = None \<and> nodes w (namespace config) = Some Directory \<and> sent = [])"
proof (intro conjI)
  show "same_files w w'" by (rule stream_load_same [OF assms(2)])
  show "res = Inr None \<longrightarrow> nodes w path = None \<and> nodes w (namespace config) = Some Directory \<and> sent = []"
    using stream_load_None [of c config path consumer w sent w'] assms(2) by simp
qed (intro impI, rule stream_load_sent [OF store_modelD(1,3,6) [OF assms(1)] assms(2)])

theorem stream_load_validates_before_output_witness:
  "same_files example_stored (snd (snd (load_blob_into_sender crc32c_reference sample_config example_path
      \<lparr>accepts = Some 0, acknowledges = True\<rparr> example_stored)))"
proof -
  let ?r = "load_blob_into_sender crc32c_reference sample_config example_path
      \<lparr>accepts = Some 0, acknowledges = True\<rparr> example_stored"
  have "?r = (fst ?r, fst (snd ?r), snd (snd ?r))" by simp
  from stream_load_validates_before_output [OF example_model this] show ?thesis by simp
qed

text \<open>C37. A streaming load of a valid blob, without failures and with a consumer that stays and
  acknowledges, delivers the whole payload and reports its length.\<close>

theorem stream_load_delivers_payload:
  assumes "store_model ops hidden staged c b3 config usize_max"
    and "faults w = []" and "next_gentle w" and "next_gentle (w\<lparr>plans := tl (plans w)\<rparr>)"
    and "nodes w path = Some n" and "node_bytes n = Some (envelope_layout c (format config) p)"
    and "length p \<le> unat (maximum config)" and "accepts consumer = None" and "acknowledges consumer"
  shows "fst (load_blob_into_sender c config path consumer w) = Inr (Some \<lparr>payload_len = of_nat (length p)\<rparr>)
    \<and> concat (fst (snd (load_blob_into_sender c config path consumer w))) = p"
proof -
  let ?r = "load_blob_into_sender c config path consumer w"
  have "?r = (fst ?r, fst (snd ?r), snd (snd ?r))" by simp
  from stream_load_complete [OF store_modelD(1,3,6) [OF assms(1)] assms(2-9) this] show ?thesis .
qed

theorem stream_load_delivers_payload_witness:
  "concat (fst (snd (load_blob_into_sender crc32c_reference sample_config example_path
      \<lparr>accepts = None, acknowledges = True\<rparr> example_stored))) = example_payload"
  by (rule conjunct2 [OF stream_load_delivers_payload [OF example_model,
        where n = "Regular (envelope_layout crc32c_reference (format sample_config) example_payload) None"]]) simp_all

section \<open>Clearing\<close>

text \<open>C38. Clearing removes exactly the canonical path: success means it is gone (and, when it was
  already missing, that the namespace is available); an error either changes nothing or follows
  a removal whose directory synchronisation failed; without failures it succeeds.\<close>

theorem clear_removes_exactly_the_blob:
  "(clear_blob config path w = (Inr u, w') \<longrightarrow> nodes w' = (nodes w)(path := None)
      \<and> (nodes w path = None \<longrightarrow> nodes w (namespace config) = Some Directory))
   \<and> (clear_blob config path w = (Inl e, w') \<longrightarrow> nodes w' = nodes w
      \<or> nodes w' = (nodes w)(path := None)
        \<and> (\<exists>x. e = Io OpenNamespaceDirectory x \<or> e = Io SyncNamespaceDirectory x))
   \<and> (faults w = [] \<and> nodes w (namespace config) = Some Directory \<and> path \<noteq> namespace config
        \<and> nodes w path \<noteq> Some Directory \<longrightarrow>
      clear_blob config path w = (Inr (), w\<lparr>nodes := (nodes w)(path := None)\<rparr>))"
proof -
  have "nodes w' = (nodes w)(path := None) \<and> (nodes w path = None \<longrightarrow> nodes w (namespace config) = Some Directory)"
    if "clear_blob config path w = (Inr u, w')" using clear_blob_ok [OF that] by simp
  with clear_blob_error [of config path w e w'] clear_blob_undisturbed [of w config path]
  show ?thesis by (intro conjI impI) (rule conjunct1, blast, blast, blast, blast)
qed

theorem clear_removes_exactly_the_blob_witness:
  "nodes (snd (clear_blob sample_config example_path example_stored)) example_path = None"
proof -
  have "clear_blob sample_config example_path example_stored =
      (Inr (), example_stored\<lparr>nodes := (nodes example_stored)(example_path := None)\<rparr>)"
    by (rule mp [OF conjunct2 [OF conjunct2 [OF clear_removes_exactly_the_blob]]])
      (simp add: example_store.pathk_not_namespace)
  then show ?thesis by simp
qed

section \<open>Quarantine\<close>

text \<open>C39. Quarantine moves the blob, bytes untouched, to a name that did not exist and carries a fresh
  64-digit identifier, changing nothing else that is published; this holds also when only the
  directory synchronisation failed afterwards. Any other error leaves everything in place, and a
  missing source is reported only when it is missing in an available namespace.\<close>

theorem quarantine_moves_aside:
  assumes "store_model ops hidden staged c b3 config usize_max" and "length k = 32"
    and "quarantine_blob ops config (worker_path b3 config k) w = Some (res, w')"
  shows "case res of
      Inr q \<Rightarrow> set_aside hidden config (b3_to_hex b3 k) w q w'
    | Inl e \<Rightarrow>
        (\<exists>q x. e = QuarantineNamespaceSync q x \<and> set_aside hidden config (b3_to_hex b3 k) w q w')
        \<or> (\<forall>q x. e \<noteq> QuarantineNamespaceSync q x) \<and> (\<forall>p. \<not> hidden p \<longrightarrow> nodes w' p = nodes w p)
          \<and> (e = QuarantineSourceMissing \<longrightarrow>
               nodes w (worker_path b3 config k) = None \<and> nodes w (namespace config) = Some Directory)"
  using store_model.quarantine_blob_effect [OF assms]
  by (cases res) (simp_all add: quarantine_effect_def agree_def store_model.worker_path_canonical [OF assms(1)])

text \<open>C40. The retry loop of the quarantine returns as soon as a drawn identifier gives a free name (or
  the entropy source fails): if that happens within some number of draws, it returns.\<close>

theorem quarantine_returns:
  assumes "store_model ops hidden staged c b3 config usize_max" and "length k = 32"
    and "fresh_within n ops config (worker_path b3 config k) (b3_to_hex b3 k) w"
  shows "\<exists>r. quarantine_blob ops config (worker_path b3 config k) w = Some r"
  using unix_ops_spec.quarantine_loop_returns [OF store_modelD(2) [OF assms(1)] assms(3)]
    store_names.stem_worker_path [OF store_modelD(7) [OF assms(1)] assms(2)]
  by (simp add: quarantine_blob_def)

lemma example_fresh:
  "fresh_within 1 posix_ops sample_config example_path (b3_to_hex blake3_reference example_key) example_stored"
proof -
  have "nodes example_stored (quarantine_destination sample_config (b3_to_hex blake3_reference example_key) ident) = None" for ident
    using example_store.pathk_not_quarantine [OF example_key_length example_key_length, of ident]
    by (simp add: example_stored_def example_world_def quarantine_destination_def join_def sample_config_def)
  then show ?thesis
    by (simp add: random_identifier_hex posix_ops_def posix_random_def Let_def
        split: prod.splits list.splits sum.splits)
qed

theorem quarantine_returns_witness:
  "\<exists>r. quarantine_blob posix_ops sample_config example_path example_stored = Some r"
  by (rule quarantine_returns [OF example_model example_key_length example_fresh])

theorem quarantine_moves_aside_witness:
  "\<exists>res w'. quarantine_blob posix_ops sample_config example_path example_stored = Some (res, w')
     \<and> (\<forall>q. res = Inr q \<longrightarrow> set_aside posix_hidden sample_config (b3_to_hex blake3_reference example_key) example_stored q w')"
proof -
  obtain res w' where q: "quarantine_blob posix_ops sample_config example_path example_stored = Some (res, w')"
    using posix.quarantine_loop_returns [OF example_fresh]
      example_store.stem_worker_path [OF example_key_length] by (auto simp: quarantine_blob_def)
  from quarantine_moves_aside [OF example_model example_key_length q] q show ?thesis by auto
qed

section \<open>Initialization\<close>

text \<open>Opening resolves the root against the current directory once, requires it to be a directory,
  and creates at most the namespace directory: on success that directory exists and nothing else
  changed; each error names its cause, and the namespace can have been created only when
  synchronising the root failed.\<close>

lemma initialize_creates_only_the_namespace:
  assumes "initialize_platform root component fmt limit n w = (res, w')"
  shows "let root' = resolved_root root w; ns = join root' component in
     (\<forall>config. res = Inr config \<longrightarrow>
        config = \<lparr>namespace = ns, format = fmt, maximum = limit, cfg_max_concurrent = n\<rparr>
        \<and> nodes w root' = Some Directory \<and> (nodes w ns = None \<or> nodes w ns = Some Directory)
        \<and> nodes w' = (nodes w)(ns \<mapsto> Directory))
   \<and> (\<forall>e. res = Inl e \<longrightarrow> nodes w' = nodes w
        \<or> nodes w ns = None \<and> nodes w' = (nodes w)(ns \<mapsto> Directory)
          \<and> (\<exists>x. e = Io OpenRootDirectory x \<or> e = Io SyncRootDirectory x))
   \<and> (res = Inl RootDoesNotExist \<longrightarrow> nodes w root' = None)
   \<and> (res = Inl RootIsNotDirectory \<longrightarrow> nodes w root' \<noteq> None \<and> nodes w root' \<noteq> Some Directory)
   \<and> (res = Inl NamespacePathIsNotDirectory \<longrightarrow> nodes w ns \<noteq> None \<and> nodes w ns \<noteq> Some Directory)"
  using initialize_cases [OF assms]
proof (elim disjE conjE exE)
  fix w2
  assume r: "nodes w (resolved_root root w) = Some Directory" and w2: "nodes w2 = nodes w"
    and o: "open_namespace (resolved_root root w) (join (resolved_root root w) component)
          \<lparr>namespace = join (resolved_root root w) component, format = fmt, maximum = limit,
             cfg_max_concurrent = n\<rparr> w2 = (res, w')"
  show ?thesis
  proof (cases res)
    case (Inl e)
    from open_namespace_error [OF o [unfolded Inl]] r w2 Inl show ?thesis by (auto simp: Let_def)
  next
    case (Inr config)
    from open_namespace_ok [OF o [unfolded Inr]] r w2 Inr show ?thesis by (auto simp: Let_def)
  qed
qed (auto simp: Let_def)

section \<open>Refinement\<close>

text \<open>The worker operations implement a map from key hashes to payloads: starting from files that
  represent a map, any sequence of operations gives only results the map specification allows,
  step by step, and ends in files that represent the resulting map, whatever failures occur.\<close>

lemma operations_refine_map:
  assumes "store_model ops hidden staged c b3 config usize_max"
    and "represents c b3 config m w" and "list_all proper_request reqs"
    and "run_sequence \<lparr>env_usize_max = usize_max, env_crc = c, env_backend = Unix ops\<rparr> b3 config reqs w = Some (rs, w')"
  shows "\<exists>m'. spec_sequence OnUnix config reqs m rs m' \<and> represents c b3 config m' w'"
  using backed_store.sequence_refines [OF store_model.is_backed [OF assms(1)]] assms(2-4) by fastforce

end
