(* ===== verification/Worker_Pool.thy ===== *)
theory Worker_Pool
  imports Store_Model
begin

text \<open>
  The worker pool, \<^verbatim>\<open>src/engine/workers.rs\<close>. The pool owns both ends of its unbounded job channel:
  \<open>sender_open\<close> is the \<^verbatim>\<open>Option<Sender>\<close>, \<open>jobs\<close> the jobs not yet received, \<open>handles\<close> the number of
  threads started. A thread may fail to start: \<open>spawns\<close> is the schedule of those failures
  (exhausted: every start succeeds). \<open>exit_panicked\<close> says whether some thread ends by a panic.
\<close>

text \<open>The boxed closures the coordinator submits.\<close>

datatype job =
    OperationJob bytes operation
  | MaintenanceJob "duration option" sender

record worker_pool =
  sender_open :: bool
  jobs :: "job list"
  handles :: nat
  capacity :: nat
  spawns :: "bool list"
  exit_panicked :: bool

definition pool_new :: "nat \<Rightarrow> bool list \<Rightarrow> bool \<Rightarrow> store_error + worker_pool" where
  "pool_new n spawn_failures panics =
     Inr \<lparr>sender_open = True, jobs = [], handles = 0, capacity = n, spawns = spawn_failures,
          exit_panicked = panics\<rparr>"

function prepare :: "nat \<Rightarrow> worker_pool \<Rightarrow> (store_error + unit) \<times> worker_pool" where
  "prepare required_workers p =
    (if handles p < min required_workers (capacity p) then
       (case spawns p of
          True # rest \<Rightarrow> (Inl WorkerUnavailable, p\<lparr>spawns := rest\<rparr>)
        | _ \<Rightarrow> prepare required_workers (p\<lparr>spawns := tl (spawns p), handles := Suc (handles p)\<rparr>))
     else (Inr (), p))"
  by pat_completeness auto
termination
  by (relation "measure (\<lambda>(r, p). capacity p - handles p)") auto

declare prepare.simps [simp del]

definition execute :: "job \<Rightarrow> worker_pool \<Rightarrow> (store_error + unit) \<times> worker_pool" where
  "execute job p =
    (if sender_open p then (Inr (), p\<lparr>jobs := jobs p @ [job]\<rparr>) else (Inl WorkerUnavailable, p))"

definition prepare_dispatch :: "worker_pool \<Rightarrow> store_error + unit" where
  "prepare_dispatch p = Inr ()"

definition pool_shutdown :: "worker_pool \<Rightarrow> (store_error + unit) \<times> worker_pool" where
  "pool_shutdown p =
    (if exit_panicked p then Inl ShutdownFailure else Inr (),
     p\<lparr>sender_open := False, handles := 0\<rparr>)"

section \<open>Facts\<close>

lemma prepare_done: "min r (capacity p) \<le> handles p \<Longrightarrow> prepare r p = (Inr (), p)"
  by (subst prepare.simps) (simp add: min_def split: if_splits)

lemma prepare_spawn:
  assumes "handles p < min r (capacity p)" and "take 1 (spawns p) \<noteq> [True]"
  shows "prepare r p = prepare r (p\<lparr>spawns := tl (spawns p), handles := Suc (handles p)\<rparr>)"
  using assms by (subst prepare.simps) (auto split: list.splits bool.splits)

lemma prepare_fail:
  assumes "handles p < min r (capacity p)" and "spawns p = True # rest"
  shows "prepare r p = (Inl WorkerUnavailable, p\<lparr>spawns := rest\<rparr>)"
  using assms by (subst prepare.simps) simp

lemma prepare_rule [case_names enough fail spawn]:
  assumes "\<And>p. min r (capacity p) \<le> handles p \<Longrightarrow> P p (Inr (), p)"
    and "\<And>p rest. handles p < min r (capacity p) \<Longrightarrow> spawns p = True # rest \<Longrightarrow>
      P p (Inl WorkerUnavailable, p\<lparr>spawns := rest\<rparr>)"
    and "\<And>p y. handles p < min r (capacity p) \<Longrightarrow>
      P (p\<lparr>spawns := tl (spawns p), handles := Suc (handles p)\<rparr>) y \<Longrightarrow> P p y"
  shows "P p (prepare r p)"
proof (induction "capacity p - handles p" arbitrary: p)
  case 0
  then show ?case using assms(1) [of p] prepare_done [of r p] by simp
next
  case (Suc n)
  show ?case
  proof (cases "handles p < min r (capacity p)")
    case False
    then have "min r (capacity p) \<le> handles p" by linarith
    then show ?thesis using assms(1) prepare_done by metis
  next
    case more: True
    show ?thesis
    proof (cases "\<exists>rest. spawns p = True # rest")
      case True
      then show ?thesis using assms(2) more prepare_fail by metis
    next
      case False
      then have "take 1 (spawns p) \<noteq> [True]" by (cases "spawns p") auto
      from prepare_spawn [OF more this] assms(3) [OF more] Suc(1) Suc(2) show ?thesis by simp
    qed
  qed
qed

text \<open>Preparing starts threads and nothing else; it fails only when a thread fails to start.\<close>

lemma prepare_frame':
  "jobs (snd (prepare r p)) = jobs p \<and> sender_open (snd (prepare r p)) = sender_open p
     \<and> capacity (snd (prepare r p)) = capacity p \<and> exit_panicked (snd (prepare r p)) = exit_panicked p
     \<and> handles p \<le> handles (snd (prepare r p))"
  by (rule prepare_rule [where P = "\<lambda>p y. jobs (snd y) = jobs p \<and> sender_open (snd y) = sender_open p
     \<and> capacity (snd y) = capacity p \<and> exit_panicked (snd y) = exit_panicked p
     \<and> handles p \<le> handles (snd y)"]) auto

lemma prepare_frame:
  "prepare r p = (x, p') \<Longrightarrow> jobs p' = jobs p \<and> sender_open p' = sender_open p \<and> capacity p' = capacity p
     \<and> exit_panicked p' = exit_panicked p \<and> handles p \<le> handles p'"
  using prepare_frame' [of r p] by simp

lemma prepare_ok: "prepare r p = (Inr u, p') \<Longrightarrow> min r (capacity p) \<le> handles p'"
  using prepare_rule [where P = "\<lambda>p y. (\<exists>u. fst y = Inr u) \<longrightarrow> min r (capacity p) \<le> handles (snd y)", of r p]
  by auto

lemma set_tlD: "x \<in> set (tl xs) \<Longrightarrow> x \<in> set xs"
  by (cases xs) auto

lemma prepare_error: "prepare r p = (Inl e, p') \<Longrightarrow> e = WorkerUnavailable \<and> True \<in> set (spawns p)"
  using prepare_rule [where P = "\<lambda>p y. (\<forall>e. fst y = Inl e \<longrightarrow> e = WorkerUnavailable \<and> True \<in> set (spawns p))", of r p]
  by (auto dest: set_tlD)

end
