(* ===== verification/Scheduler.thy ===== *)
theory Scheduler
  imports Worker_Pool "HOL-Library.AList" "HOL-Library.Multiset"
begin

text \<open>
  The coordinator, \<^verbatim>\<open>src/engine/scheduler.rs\<close> with the events of \<^verbatim>\<open>src/engine/event.rs\<close> and the
  lifecycle of \<^verbatim>\<open>src/engine/lifecycle.rs\<close>. The record \<open>coordinator\<close> holds the local variables of
  \<^verbatim>\<open>run_scheduler\<close>, the shared lifecycle and the coordinator's channel, and logs what was sent on
  the reply channels (\<open>replies\<close>) and which reply channels were dropped unused (\<open>dropped\<close>): a
  disconnected channel is how a client learns of a lost operation.

  Every completion sender is a clone of the one coordinator channel, so it is not represented.
  The iteration order of the hash map of queues is a parameter \<open>iter\<close>. Test hooks and benchmark
  events are left out.
\<close>

section \<open>Events and state\<close>

datatype lifecycle = Open | Closing | Closed | ShutdownFailed | Failed

datatype coordinator_event =
    Submission bytes operation
  | Completion bytes "(operation \<times> blocking_result) option"
  | Maintenance "duration option" sender
  | MaintenanceCompletion "(sender \<times> (store_error + cleanup_report)) option"
  | Flush sender
  | Close sender

datatype pending_event =
    PendingSubmission bytes operation
  | PendingMaintenance "duration option" sender
  | PendingFlush sender
  | PendingClose sender

type_synonym queue_map = "(bytes \<times> operation list) list"

record coordinator =
  queues :: queue_map
  active :: "bytes list"
  pending :: "pending_event list"
  maintenance_active :: bool
  lifecycle :: lifecycle
  pool :: worker_pool
  inbox :: "coordinator_event list"
  replies :: "(sender \<times> reply) list"
  dropped :: "sender list"

definition send :: "coordinator_event \<Rightarrow> coordinator \<Rightarrow> coordinator" where
  "send ev st = st\<lparr>inbox := inbox st @ [ev]\<rparr>"

definition answer :: "sender \<times> reply \<Rightarrow> coordinator \<Rightarrow> coordinator" where
  "answer r st = st\<lparr>replies := replies st @ [r]\<rparr>"

definition drop_sender :: "sender \<Rightarrow> coordinator \<Rightarrow> coordinator" where
  "drop_sender s st = st\<lparr>dropped := dropped st @ [s]\<rparr>"

section \<open>Queues\<close>

definition queue_of :: "queue_map \<Rightarrow> bytes \<Rightarrow> operation list" where
  "queue_of qs k = (case map_of qs k of None \<Rightarrow> [] | Some q \<Rightarrow> q)"

text \<open>\<^verbatim>\<open>queues.entry(key).or_default().push_back(..)\<close>\<close>

definition enqueue :: "bytes \<Rightarrow> operation \<Rightarrow> coordinator \<Rightarrow> coordinator" where
  "enqueue k op st = st\<lparr>queues := AList.update k (queue_of (queues st) k @ [op]) (queues st)\<rparr>"

text \<open>Remove an entry whose queue is empty.\<close>

definition prune :: "bytes \<Rightarrow> queue_map \<Rightarrow> queue_map" where
  "prune k qs = (if map_of qs k = Some [] then AList.delete k qs else qs)"

definition queues_empty :: "coordinator \<Rightarrow> bool" where
  "queues_empty st \<longleftrightarrow> list_all (\<lambda>e. snd e = []) (queues st)"

section \<open>Dispatching\<close>

definition dispatch_if_idle :: "store_config \<Rightarrow> bytes \<Rightarrow> coordinator \<Rightarrow> coordinator" where
  "dispatch_if_idle config k st =
    (if k \<in> set (active st) \<or> length (active st) \<ge> cfg_max_concurrent config then st
     else case queue_of (queues st) k of
       [] \<Rightarrow> st
     | op # rest \<Rightarrow>
         let st1 = st\<lparr>queues := AList.update k rest (queues st)\<rparr> in
         (case prepare (length (active st) + 1) (pool st) of
            (Inl e, pool') \<Rightarrow>
              answer (deliver_error op e) (st1\<lparr>pool := pool', queues := prune k (queues st1)\<rparr>)
          | (Inr _, pool') \<Rightarrow>
              (case prepare_dispatch pool' of
                 Inl e \<Rightarrow>
                   answer (deliver_error op e) (st1\<lparr>pool := pool', queues := prune k (queues st1)\<rparr>)
               | Inr _ \<Rightarrow>
                   let st2 = st1\<lparr>active := List.insert k (active st)\<rparr> in
                   (case execute (OperationJob k op) pool' of
                      (Inr _, pool'') \<Rightarrow> st2\<lparr>pool := pool''\<rparr>
                    | (Inl _, pool'') \<Rightarrow>
                        send (Completion k None) (drop_sender (op_sender op) (st2\<lparr>pool := pool''\<rparr>))))))"

definition dispatchable :: "(queue_map \<Rightarrow> bytes list) \<Rightarrow> coordinator \<Rightarrow> bytes option" where
  "dispatchable iter st =
     find (\<lambda>k. queue_of (queues st) k \<noteq> [] \<and> k \<notin> set (active st)) (iter (queues st))"

definition queued :: "queue_map \<Rightarrow> operation list" where
  "queued qs = concat (map snd qs)"

lemma mset_queued_update:
  "mset (queued (AList.update k v qs)) + mset (queue_of qs k) = mset (queued qs) + mset v"
  by (induction qs) (auto simp: queued_def queue_of_def)

lemma queued_prune: "distinct (map fst qs) \<Longrightarrow> mset (queued (prune k qs)) = mset (queued qs)"
proof (induction qs)
  case (Cons e qs)
  then show ?case
    by (auto simp: prune_def queued_def AList.delete_notin_dom split: if_splits)
qed (simp add: prune_def)

lemma queued_take:
  assumes "queue_of qs k = op # rest"
  shows "mset (queued qs) = add_mset op (mset (queued (AList.update k rest qs)))"
  using mset_queued_update [of k rest qs] assms by simp

lemma dispatch_if_idle_frame [simp]:
  "pending (dispatch_if_idle config k st) = pending st"
  "maintenance_active (dispatch_if_idle config k st) = maintenance_active st"
  "lifecycle (dispatch_if_idle config k st) = lifecycle st"
  by (auto simp: dispatch_if_idle_def answer_def send_def drop_sender_def Let_def
      split: list.splits prod.splits sum.splits)

lemma length_prune: "length (queued (prune k qs)) \<le> length (queued qs)"
proof -
  have "length (queued (AList.delete k qs)) \<le> length (queued qs)"
    by (induction qs) (auto simp: queued_def)
  then show ?thesis by (simp add: prune_def)
qed

lemma dispatch_decreases:
  assumes "k \<notin> set (active st)" and "length (active st) < cfg_max_concurrent config"
    and "queue_of (queues st) k \<noteq> []"
  shows "length (queued (queues (dispatch_if_idle config k st))) < length (queued (queues st))"
proof -
  obtain op rest where q: "queue_of (queues st) k = op # rest" using assms(3) by (cases "queue_of (queues st) k") auto
  let ?u = "AList.update k rest (queues st)"
  have "length (queued ?u) < length (queued (queues st))"
    using queued_take [OF q] by (metis lessI size_add_mset size_mset)
  moreover have "queues (dispatch_if_idle config k st) = ?u \<or> queues (dispatch_if_idle config k st) = prune k ?u"
    using assms q by (auto simp: dispatch_if_idle_def answer_def send_def drop_sender_def Let_def
      split: prod.splits sum.splits)
  ultimately show ?thesis using length_prune [of k ?u] by auto
qed

function dispatch_available ::
    "(queue_map \<Rightarrow> bytes list) \<Rightarrow> store_config \<Rightarrow> coordinator \<Rightarrow> coordinator" where
  "dispatch_available iter config st =
    (if length (active st) < cfg_max_concurrent config then
       (case dispatchable iter st of
          None \<Rightarrow> st
        | Some k \<Rightarrow> dispatch_available iter config (dispatch_if_idle config k st))
     else st)"
  by pat_completeness auto
termination
proof (relation "measure (\<lambda>(iter, config, st). length (queued (queues st)))", goal_cases)
  case (2 iter config st k)
  then show ?case
    using dispatch_decreases [of k st config] by (auto simp: dispatchable_def find_Some_iff)
qed simp

declare dispatch_available.simps [simp del]

section \<open>Maintenance and the pending queue\<close>

definition dispatch_maintenance :: "duration option \<Rightarrow> sender \<Rightarrow> coordinator \<Rightarrow> coordinator" where
  "dispatch_maintenance minimum_age s st =
    (case prepare 1 (pool st) of
       (Inl e, pool') \<Rightarrow>
         send (MaintenanceCompletion None) (answer (s, Cleaned (Inl e)) (st\<lparr>pool := pool'\<rparr>))
     | (Inr _, pool') \<Rightarrow>
         (case prepare_dispatch pool' of
            Inl e \<Rightarrow>
              send (MaintenanceCompletion None) (answer (s, Cleaned (Inl e)) (st\<lparr>pool := pool'\<rparr>))
          | Inr _ \<Rightarrow>
              (case execute (MaintenanceJob minimum_age s) pool' of
                 (Inr _, pool'') \<Rightarrow> st\<lparr>pool := pool''\<rparr>
               | (Inl _, pool'') \<Rightarrow>
                   send (MaintenanceCompletion None) (drop_sender s (st\<lparr>pool := pool''\<rparr>)))))"

function advance_loop :: "store_config \<Rightarrow> coordinator \<Rightarrow> coordinator" where
  "advance_loop config st =
    (case pending st of
       PendingMaintenance minimum_age s # rest \<Rightarrow>
         if active st \<noteq> [] \<or> \<not> queues_empty st then st
         else dispatch_maintenance minimum_age s (st\<lparr>pending := rest, maintenance_active := True\<rparr>)
     | PendingSubmission k op # rest \<Rightarrow>
         advance_loop config (dispatch_if_idle config k (enqueue k op (st\<lparr>pending := rest\<rparr>)))
     | PendingFlush s # rest \<Rightarrow>
         if active st \<noteq> [] \<or> \<not> queues_empty st then st
         else advance_loop config (answer (s, Finished (Inr ())) (st\<lparr>pending := rest\<rparr>))
     | PendingClose s # rest \<Rightarrow> st
     | [] \<Rightarrow> st)"
  by pat_completeness auto
termination
  by (relation "measure (\<lambda>(config, st). length (pending st))") (auto simp: enqueue_def answer_def)

declare advance_loop.simps [simp del]

definition advance_pending_if_ready :: "store_config \<Rightarrow> coordinator \<Rightarrow> coordinator" where
  "advance_pending_if_ready config st =
    (if maintenance_active st then st else advance_loop config st)"

section \<open>The event loop\<close>

text \<open>
  One arm per event. The result tells whether control reaches the shutdown check after the
  \<^verbatim>\<open>match\<close> (a \<^verbatim>\<open>continue\<close> skips it); \<open>None\<close> is a panic of the coordinator.
\<close>

definition on_submission ::
    "(queue_map \<Rightarrow> bytes list) \<Rightarrow> store_config \<Rightarrow> bytes \<Rightarrow> operation \<Rightarrow> coordinator \<Rightarrow> coordinator \<times> bool" where
  "on_submission iter config k op st =
    (if lifecycle st \<noteq> Open then (answer (deliver_error op StoreClosed) st, False)
     else if maintenance_active st \<or> pending st \<noteq> []
     then (st\<lparr>pending := pending st @ [PendingSubmission k op]\<rparr>, False)
     else (dispatch_available iter config (dispatch_if_idle config k (enqueue k op st)), True))"

text \<open>The bookkeeping for a finished key, before its result is delivered.\<close>

definition release_key ::
    "(queue_map \<Rightarrow> bytes list) \<Rightarrow> store_config \<Rightarrow> bytes \<Rightarrow> coordinator \<Rightarrow> coordinator" where
  "release_key iter config k st =
    (let st1 = st\<lparr>active := removeAll k (active st)\<rparr>;
         st2 = dispatch_available iter config (dispatch_if_idle config k st1)
     in if k \<notin> set (active st2) then st2\<lparr>queues := prune k (queues st2)\<rparr> else st2)"

definition on_completion ::
    "(queue_map \<Rightarrow> bytes list) \<Rightarrow> store_config \<Rightarrow> bytes \<Rightarrow> (operation \<times> blocking_result) option
     \<Rightarrow> coordinator \<Rightarrow> (coordinator \<times> bool) option" where
  "on_completion iter config k outcome st =
    (let st1 = release_key iter config k st
     in case outcome of
          None \<Rightarrow> Some (advance_pending_if_ready config st1, True)
        | Some (op, res) \<Rightarrow>
            (case deliver op res of
               None \<Rightarrow> None
             | Some r \<Rightarrow> Some (advance_pending_if_ready config (answer r st1), True)))"

definition on_maintenance ::
    "store_config \<Rightarrow> duration option \<Rightarrow> sender \<Rightarrow> coordinator \<Rightarrow> coordinator \<times> bool" where
  "on_maintenance config minimum_age s st =
    (if lifecycle st \<noteq> Open then (answer (s, Cleaned (Inl StoreClosed)) st, False)
     else (advance_pending_if_ready config
             (st\<lparr>pending := pending st @ [PendingMaintenance minimum_age s]\<rparr>), True))"

definition on_maintenance_completion ::
    "store_config \<Rightarrow> (sender \<times> (store_error + cleanup_report)) option \<Rightarrow> coordinator \<Rightarrow> coordinator \<times> bool" where
  "on_maintenance_completion config outcome st =
    (let st1 = st\<lparr>maintenance_active := False\<rparr>;
         st2 = (case outcome of None \<Rightarrow> st1 | Some (s, res) \<Rightarrow> answer (s, Cleaned res) st1)
     in (advance_pending_if_ready config st2, True))"

definition on_flush :: "store_config \<Rightarrow> sender \<Rightarrow> coordinator \<Rightarrow> coordinator \<times> bool" where
  "on_flush config s st =
    (if lifecycle st \<noteq> Open then (answer (s, Finished (Inl StoreClosed)) st, False)
     else (advance_pending_if_ready config (st\<lparr>pending := pending st @ [PendingFlush s]\<rparr>), True))"

definition on_close :: "store_config \<Rightarrow> sender \<Rightarrow> coordinator \<Rightarrow> coordinator \<times> bool" where
  "on_close config s st =
    (let st1 = (case lifecycle st of
                  Open \<Rightarrow> st\<lparr>lifecycle := Closing, pending := pending st @ [PendingClose s]\<rparr>
                | Closing \<Rightarrow> st\<lparr>pending := pending st @ [PendingClose s]\<rparr>
                | Closed \<Rightarrow> answer (s, Finished (Inr ())) st
                | _ \<Rightarrow> answer (s, Finished (Inl ShutdownFailure)) st)
     in (advance_pending_if_ready config st1, True))"

fun handle_event ::
    "(queue_map \<Rightarrow> bytes list) \<Rightarrow> store_config \<Rightarrow> coordinator_event \<Rightarrow> coordinator \<Rightarrow> (coordinator \<times> bool) option" where
  "handle_event iter config (Submission k op) st = Some (on_submission iter config k op st)"
| "handle_event iter config (Completion k outcome) st = on_completion iter config k outcome st"
| "handle_event iter config (Maintenance age s) st = Some (on_maintenance config age s st)"
| "handle_event iter config (MaintenanceCompletion outcome) st = Some (on_maintenance_completion config outcome st)"
| "handle_event iter config (Flush s) st = Some (on_flush config s st)"
| "handle_event iter config (Close s) st = Some (on_close config s st)"

section \<open>Shutdown\<close>

definition close_reply :: "store_error + unit \<Rightarrow> sender \<Rightarrow> sender \<times> reply" where
  "close_reply outcome s = (s, Finished (if \<not> isl outcome then Inr () else Inl ShutdownFailure))"

fun answer_closes :: "store_error + unit \<Rightarrow> pending_event list \<Rightarrow> (sender \<times> reply) list \<times> pending_event list" where
  "answer_closes outcome (PendingClose s # rest) =
    (case answer_closes outcome rest of (rs, rest') \<Rightarrow> (close_reply outcome s # rs, rest'))"
| "answer_closes outcome rest = ([], rest)"

fun drain_reply :: "store_error + unit \<Rightarrow> coordinator_event \<Rightarrow> (sender \<times> reply) list" where
  "drain_reply outcome (Close s) = [close_reply outcome s]"
| "drain_reply outcome (Submission k op) = [deliver_error op StoreClosed]"
| "drain_reply outcome (Maintenance age s) = [(s, Cleaned (Inl StoreClosed))]"
| "drain_reply outcome (Flush s) = [(s, Finished (Inl StoreClosed))]"
| "drain_reply outcome _ = []"

text \<open>The senders inside events that are discarded, and inside the pending events left over, are dropped.\<close>

fun drain_dropped :: "coordinator_event \<Rightarrow> sender list" where
  "drain_dropped (Completion k (Some (op, res))) = [op_sender op]"
| "drain_dropped (MaintenanceCompletion (Some (s, res))) = [s]"
| "drain_dropped _ = []"

primrec pending_sender :: "pending_event \<Rightarrow> sender" where
  "pending_sender (PendingSubmission k op) = op_sender op"
| "pending_sender (PendingMaintenance age s) = s"
| "pending_sender (PendingFlush s) = s"
| "pending_sender (PendingClose s) = s"

definition close_ready :: "coordinator \<Rightarrow> bool" where
  "close_ready st \<longleftrightarrow>
     (case pending st of PendingClose _ # _ \<Rightarrow> True | _ \<Rightarrow> False)
     \<and> active st = [] \<and> queues_empty st \<and> \<not> maintenance_active st"

definition end_lifecycle :: "store_error + unit \<Rightarrow> lifecycle" where
  "end_lifecycle outcome = (if \<not> isl outcome then Closed else ShutdownFailed)"

definition shut_down :: "coordinator \<Rightarrow> coordinator" where
  "shut_down st =
    (case pool_shutdown (pool st) of
       (outcome, pool') \<Rightarrow>
         (case answer_closes outcome (pending st) of
            (rs, rest) \<Rightarrow>
              st\<lparr>pool := pool', lifecycle := end_lifecycle outcome,
                 pending := [], inbox := [],
                 dropped := dropped st @ concat (map drain_dropped (inbox st)) @ map pending_sender rest,
                 replies := replies st @ rs @ concat (map (drain_reply outcome) (inbox st))\<rparr>))"

text \<open>
  One turn of the loop on the next event: the new state and whether the coordinator returned;
  \<open>None\<close> is a panic. The caller has taken the event from the channel.
\<close>

definition scheduler_turn ::
    "(queue_map \<Rightarrow> bytes list) \<Rightarrow> store_config \<Rightarrow> coordinator_event \<Rightarrow> coordinator \<Rightarrow> (coordinator \<times> bool) option" where
  "scheduler_turn iter config ev st =
    (case handle_event iter config ev st of
       None \<Rightarrow> None
     | Some (st1, check) \<Rightarrow>
         if check \<and> close_ready st1 then Some (shut_down st1, True) else Some (st1, False))"

text \<open>The end of the loop when every sender of the channel is gone: no submission, no queued operation
  and no job is left, since each holds a sender.\<close>

definition disconnected :: "coordinator \<Rightarrow> coordinator" where
  "disconnected st = st\<lparr>pool := snd (pool_shutdown (pool st)), lifecycle := Closed, pending := [],
     dropped := dropped st @ map pending_sender (pending st)\<rparr>"

section \<open>After a panic of the coordinator\<close>

fun failure_reply :: "coordinator_event \<Rightarrow> (sender \<times> reply) list" where
  "failure_reply (Submission k op) = [deliver_error op EngineFailed]"
| "failure_reply (Maintenance age s) = [(s, Cleaned (Inl EngineFailed))]"
| "failure_reply (MaintenanceCompletion (Some (s, res))) = [(s, Cleaned (Inl EngineFailed))]"
| "failure_reply (MaintenanceCompletion None) = []"
| "failure_reply (Flush s) = [(s, Finished (Inl EngineFailed))]"
| "failure_reply (Close s) = [(s, Finished (Inl ShutdownFailure))]"
| "failure_reply (Completion k (Some (op, res))) = [deliver_error op EngineFailed]"
| "failure_reply (Completion k None) = []"

definition fail_queued_after_coordinator_panic :: "coordinator \<Rightarrow> coordinator" where
  "fail_queued_after_coordinator_panic st =
     st\<lparr>inbox := [], replies := replies st @ concat (map failure_reply (inbox st))\<rparr>"

end
