(* ===== verification/Scheduler_Facts.thy ===== *)
theory Scheduler_Facts
  imports Scheduler
begin

text \<open>
  The coordinator as a step relation: \<open>micro\<close> has one rule per elementary action of the dispatch
  and pending loops, and every arm of the event loop is an entry action followed by such steps.
  An invariant is proved on the elementary actions and lifted to the arms.
\<close>

section \<open>Elementary actions\<close>

definition idle :: "coordinator \<Rightarrow> bool" where
  "idle st \<longleftrightarrow> active st = [] \<and> queues_empty st \<and> \<not> maintenance_active st"

inductive micro :: "store_config \<Rightarrow> coordinator \<Rightarrow> coordinator \<Rightarrow> bool" for config where
  start: "k \<notin> set (active st) \<Longrightarrow> length (active st) < cfg_max_concurrent config \<Longrightarrow>
    queue_of (queues st) k = op # rest \<Longrightarrow>
    prepare (length (active st) + 1) (pool st) = (Inr (), p) \<Longrightarrow> sender_open p \<Longrightarrow>
    micro config st (st\<lparr>queues := AList.update k rest (queues st), active := k # active st,
      pool := p\<lparr>jobs := jobs p @ [OperationJob k op]\<rparr>\<rparr>)"
| lose: "k \<notin> set (active st) \<Longrightarrow> length (active st) < cfg_max_concurrent config \<Longrightarrow>
    queue_of (queues st) k = op # rest \<Longrightarrow>
    prepare (length (active st) + 1) (pool st) = (Inr (), p) \<Longrightarrow> \<not> sender_open p \<Longrightarrow>
    micro config st (send (Completion k None) (drop_sender (op_sender op)
      (st\<lparr>queues := AList.update k rest (queues st), active := k # active st, pool := p\<rparr>)))"
| refuse: "k \<notin> set (active st) \<Longrightarrow> length (active st) < cfg_max_concurrent config \<Longrightarrow>
    queue_of (queues st) k = op # rest \<Longrightarrow>
    prepare (length (active st) + 1) (pool st) = (Inl e, p) \<Longrightarrow>
    micro config st (answer (deliver_error op e)
      (st\<lparr>pool := p, queues := prune k (AList.update k rest (queues st))\<rparr>))"
| admit: "\<not> maintenance_active st \<Longrightarrow> pending st = PendingSubmission k op # rest \<Longrightarrow>
    micro config st (enqueue k op (st\<lparr>pending := rest\<rparr>))"
| flush: "idle st \<Longrightarrow> pending st = PendingFlush s # rest \<Longrightarrow>
    micro config st (answer (s, Finished (Inr ())) (st\<lparr>pending := rest\<rparr>))"
| maintain: "idle st \<Longrightarrow> pending st = PendingMaintenance age s # rest \<Longrightarrow>
    micro config st (dispatch_maintenance age s (st\<lparr>pending := rest, maintenance_active := True\<rparr>))"

abbreviation micros :: "store_config \<Rightarrow> coordinator \<Rightarrow> coordinator \<Rightarrow> bool" where
  "micros config \<equiv> (micro config)\<^sup>*\<^sup>*"

lemma dispatch_if_idle_micros: "micros config st (dispatch_if_idle config k st)"
proof (cases "k \<in> set (active st) \<or> length (active st) \<ge> cfg_max_concurrent config \<or> queue_of (queues st) k = []")
  case True
  then have "dispatch_if_idle config k st = st" by (auto simp: dispatch_if_idle_def)
  then show ?thesis by simp
next
  case False
  then obtain op rest where q: "queue_of (queues st) k = op # rest" by (cases "queue_of (queues st) k") auto
  obtain x p where prep: "prepare (length (active st) + 1) (pool st) = (x, p)" by fastforce
  have "micro config st (dispatch_if_idle config k st)"
  proof (cases x)
    case (Inl e)
    then show ?thesis
      using False q prep micro.refuse [of k st config op rest e p]
      by (simp add: dispatch_if_idle_def Let_def answer_def)
  next
    case (Inr u)
    then show ?thesis
      using False q prep micro.start [of k st config op rest p] micro.lose [of k st config op rest p]
      by (cases "sender_open p")
        (simp_all add: dispatch_if_idle_def Let_def prepare_dispatch_def execute_def send_def drop_sender_def
          List.insert_def)
  qed
  then show ?thesis by (rule r_into_rtranclp)
qed

lemma dispatch_available_micros: "micros config st (dispatch_available iter config st)"
proof (induction iter config st rule: dispatch_available.induct)
  case (1 iter config st)
  show ?case
  proof (cases "dispatchable iter st")
    case None
    then show ?thesis by (simp add: dispatch_available.simps [of iter config st])
  next
    case (Some k)
    show ?thesis
    proof (cases "length (active st) < cfg_max_concurrent config")
      case True
      with 1 Some dispatch_if_idle_micros [of config st k] show ?thesis
        by (auto simp: dispatch_available.simps [of iter config st])
    qed (simp add: dispatch_available.simps [of iter config st])
  qed
qed

lemma advance_loop_micros: "\<not> maintenance_active st \<Longrightarrow> micros config st (advance_loop config st)"
proof (induction config st rule: advance_loop.induct)
  case (1 config st)
  note step = advance_loop.simps [of config st]
  show ?case
  proof (cases "pending st")
    case Nil
    then show ?thesis by (simp add: step)
  next
    case (Cons pe rest)
    show ?thesis
    proof (cases pe)
      case (PendingSubmission k op)
      let ?st = "enqueue k op (st\<lparr>pending := rest\<rparr>)"
      have "micros config st ?st" using micro.admit [of st k op rest config] 1(3) Cons PendingSubmission by blast
      moreover have "micros config ?st (dispatch_if_idle config k ?st)" by (rule dispatch_if_idle_micros)
      moreover have "micros config (dispatch_if_idle config k ?st) (advance_loop config (dispatch_if_idle config k ?st))"
        using 1(1) [OF Cons PendingSubmission] 1(3) by (simp add: enqueue_def)
      ultimately show ?thesis using Cons PendingSubmission by (simp add: step)
    next
      case (PendingMaintenance age s)
      then show ?thesis
        using Cons 1(3) micro.maintain [of st age s rest config] by (auto simp: step idle_def)
    next
      case (PendingFlush s)
      then show ?thesis
        using Cons 1(2) [OF Cons PendingFlush] 1(3) micro.flush [of st s rest config]
        by (auto simp: step idle_def answer_def intro: converse_rtranclp_into_rtranclp)
    qed (use Cons in \<open>simp add: step\<close>)
  qed
qed

lemma advance_pending_micros: "micros config st (advance_pending_if_ready config st)"
  using advance_loop_micros [of st config] by (simp add: advance_pending_if_ready_def)

lemma micros_invariant:
  assumes "micros config st st'" and "P st" and "\<And>s s'. micro config s s' \<Longrightarrow> P s \<Longrightarrow> P s'"
  shows "P st'"
  using assms(1,2) by (induction rule: rtranclp_induct) (auto intro: assms(3))

section \<open>Work in flight\<close>

fun job_key :: "job \<Rightarrow> bytes list" where
  "job_key (OperationJob k op) = [k]"
| "job_key (MaintenanceJob age s) = []"

fun completion_key :: "coordinator_event \<Rightarrow> bytes list" where
  "completion_key (Completion k outcome) = [k]"
| "completion_key _ = []"

text \<open>The keys of the operations handed to the workers whose completion the coordinator has not
  processed; \<open>run\<close> are the jobs the workers have taken.\<close>

definition flight :: "job list \<Rightarrow> coordinator \<Rightarrow> bytes list" where
  "flight run st = concat (map job_key (jobs (pool st) @ run)) @ concat (map completion_key (inbox st))"

definition maintenances :: "job list \<Rightarrow> coordinator \<Rightarrow> nat" where
  "maintenances run st = length (filter (\<lambda>j. job_key j = []) (jobs (pool st) @ run))
     + length (filter (\<lambda>ev. \<exists>x. ev = MaintenanceCompletion x) (inbox st))"

definition flight_inv :: "store_config \<Rightarrow> job list \<Rightarrow> coordinator \<Rightarrow> bool" where
  "flight_inv config run st \<longleftrightarrow>
     distinct (map fst (queues st)) \<and> distinct (active st)
     \<and> length (active st) \<le> cfg_max_concurrent config
     \<and> mset (flight run st) = mset (active st)"

definition maintenance_inv :: "job list \<Rightarrow> coordinator \<Rightarrow> bool" where
  "maintenance_inv run st \<longleftrightarrow>
     maintenances run st = (if maintenance_active st then 1 else 0)
     \<and> (maintenance_active st \<longrightarrow> active st = [] \<and> queues_empty st)"

lemma distinct_keys_update [simp]: "distinct (map fst qs) \<Longrightarrow> distinct (map fst (AList.update k v qs))"
  by (rule distinct_update)

lemma distinct_keys_prune [simp]: "distinct (map fst qs) \<Longrightarrow> distinct (map fst (prune k qs))"
  by (simp add: prune_def distinct_delete)

lemmas update_simps = send_def answer_def drop_sender_def enqueue_def

lemma prepare_jobs:
  "prepare r p = (x, p') \<Longrightarrow> jobs p' = jobs p" "prepare r p = (x, p') \<Longrightarrow> sender_open p' = sender_open p"
  "prepare r p = (x, p') \<Longrightarrow> capacity p' = capacity p"
  using prepare_frame [of r p x p'] by simp_all

lemma dispatch_maintenance_cases:
  obtains e p where "prepare 1 (pool st) = (Inl e, p)"
      "dispatch_maintenance age s st = send (MaintenanceCompletion None) (answer (s, Cleaned (Inl e)) (st\<lparr>pool := p\<rparr>))"
  | p where "prepare 1 (pool st) = (Inr (), p)" "sender_open p"
      "dispatch_maintenance age s st = st\<lparr>pool := p\<lparr>jobs := jobs p @ [MaintenanceJob age s]\<rparr>\<rparr>"
  | p where "prepare 1 (pool st) = (Inr (), p)" "\<not> sender_open p"
      "dispatch_maintenance age s st = send (MaintenanceCompletion None) (drop_sender s (st\<lparr>pool := p\<rparr>))"
proof (cases "prepare 1 (pool st)")
  case (Pair x p)
  then show ?thesis using that
    by (cases x; cases "sender_open p") (auto simp: dispatch_maintenance_def prepare_dispatch_def execute_def)
qed

lemma queues_empty_queue_of: "queues_empty st \<Longrightarrow> queue_of (queues st) k = []"
  by (fastforce simp: queues_empty_def queue_of_def list_all_iff split: option.splits dest: map_of_SomeD)

lemma flight_micro:
  assumes "micro config st st'" and "flight_inv config run st"
  shows "flight_inv config run st'"
  using assms
proof (cases rule: micro.cases)
  case (maintain age s rest)
  show ?thesis
    unfolding maintain(1)
    by (rule dispatch_maintenance_cases [of "st\<lparr>pending := rest, maintenance_active := True\<rparr>" age s])
      (use assms(2) in \<open>auto simp: flight_inv_def flight_def update_simps prepare_jobs\<close>)
qed (auto simp: flight_inv_def flight_def update_simps prepare_jobs)

lemma maintenance_micro:
  assumes "micro config st st'" and "maintenance_inv run st"
  shows "maintenance_inv run st'"
  using assms
proof (cases rule: micro.cases)
  case (maintain age s rest)
  show ?thesis
    unfolding maintain(1)
    by (rule dispatch_maintenance_cases [of "st\<lparr>pending := rest, maintenance_active := True\<rparr>" age s])
      (use assms(2) maintain(2) in \<open>auto simp: maintenance_inv_def maintenances_def update_simps prepare_jobs
        idle_def queues_empty_def\<close>)
qed (auto simp: maintenance_inv_def maintenances_def update_simps prepare_jobs queues_empty_queue_of idle_def)

section \<open>Accounts\<close>

fun job_sender :: "job \<Rightarrow> sender" where
  "job_sender (OperationJob k op) = op_sender op"
| "job_sender (MaintenanceJob age s) = s"

fun event_senders :: "coordinator_event \<Rightarrow> sender list" where
  "event_senders (Submission k op) = [op_sender op]"
| "event_senders (Completion k (Some (op, res))) = [op_sender op]"
| "event_senders (Completion k None) = []"
| "event_senders (Maintenance age s) = [s]"
| "event_senders (MaintenanceCompletion (Some (s, res))) = [s]"
| "event_senders (MaintenanceCompletion None) = []"
| "event_senders (Flush s) = [s]"
| "event_senders (Close s) = [s]"

text \<open>The reply channels still owed an answer, and those that got one or were dropped.\<close>

definition owed :: "job list \<Rightarrow> coordinator \<Rightarrow> sender multiset" where
  "owed run st = mset (concat (map event_senders (inbox st))) + mset (map op_sender (queued (queues st)))
     + mset (map pending_sender (pending st)) + mset (map job_sender (jobs (pool st) @ run))"

definition settled :: "coordinator \<Rightarrow> sender multiset" where
  "settled st = mset (map fst (replies st)) + mset (dropped st)"

definition account :: "job list \<Rightarrow> coordinator \<Rightarrow> sender multiset" where
  "account run st = owed run st + settled st"

lemma queued_put:
  "mset (queued (AList.update k (queue_of qs k @ [op]) qs)) = add_mset op (mset (queued qs))"
  using mset_queued_update [of k "queue_of qs k @ [op]" qs] by simp

lemma account_queued:
  "mset (queued qs) = add_mset op (mset (queued qs')) \<Longrightarrow>
     mset (map op_sender (queued qs)) = add_mset (op_sender op) (mset (map op_sender (queued qs')))"
  by (metis image_mset_add_mset mset_map)

lemma account_micro:
  assumes "micro config st st'" and "distinct (map fst (queues st))"
  shows "account run st' = account run st"
  using assms
proof (cases rule: micro.cases)
  case (start k op rest p)
  then show ?thesis using account_queued [OF queued_take [OF start(4)]]
    by (simp add: account_def owed_def settled_def prepare_jobs)
next
  case (lose k op rest p)
  then show ?thesis using account_queued [OF queued_take [OF lose(4)]]
    by (simp add: account_def owed_def settled_def prepare_jobs update_simps)
next
  case (refuse k op rest e p)
  have "mset (queued (prune k (AList.update k rest (queues st)))) = mset (queued (AList.update k rest (queues st)))"
    using assms(2) by (intro queued_prune) simp
  then have "mset (map op_sender (queued (prune k (AList.update k rest (queues st))))) =
      mset (map op_sender (queued (AList.update k rest (queues st))))" by (metis mset_map)
  with refuse account_queued [OF queued_take [OF refuse(4)]] show ?thesis
    by (simp add: account_def owed_def settled_def prepare_jobs update_simps del: mset_map)
next
  case (admit k op rest)
  then show ?thesis using account_queued [OF queued_put [of k "queues st" op]]
    by (simp add: account_def owed_def settled_def update_simps)
next
  case (flush s rest)
  then show ?thesis by (simp add: account_def owed_def settled_def update_simps)
next
  case (maintain age s rest)
  show ?thesis
    unfolding maintain(1)
    by (rule dispatch_maintenance_cases [of "st\<lparr>pending := rest, maintenance_active := True\<rparr>" age s])
      (use maintain(3) in \<open>auto simp: account_def owed_def settled_def prepare_jobs update_simps\<close>)
qed

section \<open>Order\<close>

fun client_senders :: "coordinator_event \<Rightarrow> sender list" where
  "client_senders (Submission k op) = [op_sender op]"
| "client_senders (Maintenance age s) = [s]"
| "client_senders (Flush s) = [s]"
| "client_senders (Close s) = [s]"
| "client_senders _ = []"

fun job_for :: "bytes \<Rightarrow> job \<Rightarrow> sender list" where
  "job_for k (OperationJob k' op) = (if k' = k then [op_sender op] else [])"
| "job_for k (MaintenanceJob age s) = []"

text \<open>The requests not yet admitted, in order of arrival; the senders of admitted and unfinished work;
  and the operations of a key that the workers have.\<close>

definition waiting :: "coordinator \<Rightarrow> sender list" where
  "waiting st = map pending_sender (pending st) @ concat (map client_senders (inbox st))"

definition admitted :: "job list \<Rightarrow> coordinator \<Rightarrow> sender set" where
  "admitted run st = op_sender ` set (queued (queues st)) \<union> job_sender ` set (jobs (pool st) @ run)"

definition flying :: "bytes \<Rightarrow> job list \<Rightarrow> coordinator \<Rightarrow> sender list" where
  "flying k run st = concat (map (job_for k) (jobs (pool st) @ run))"

text \<open>\<open>fin\<close> gives the finished operations of every key, oldest first. Senders are numbered in the order
  in which the requests were made.\<close>

definition order_inv :: "(bytes \<Rightarrow> sender list) \<Rightarrow> job list \<Rightarrow> coordinator \<Rightarrow> bool" where
  "order_inv fin run st \<longleftrightarrow>
     sorted_wrt (<) (waiting st)
     \<and> (\<forall>x \<in> admitted run st \<union> (\<Union>k. set (fin k)). \<forall>y \<in> set (waiting st). x < y)
     \<and> (\<forall>k. sorted_wrt (<) (fin k @ flying k run st @ map op_sender (queue_of (queues st) k)))"

lemma queue_of_update: "queue_of (AList.update k v qs) k' = (if k' = k then v else queue_of qs k')"
  by (simp add: queue_of_def update_conv')

lemma queue_of_prune: "distinct (map fst qs) \<Longrightarrow> queue_of (prune k qs) k' = queue_of qs k'"
  by (auto simp: queue_of_def prune_def delete_conv')

lemma set_queued: "set (queued qs) = (\<Union>(k, q) \<in> set qs. set q)"
  by (auto simp: queued_def)

lemma queue_of_queued: "set (queue_of qs k) \<subseteq> set (queued qs)"
proof (cases "map_of qs k")
  case (Some q)
  then have "(k, q) \<in> set qs" by (rule map_of_SomeD)
  with Some show ?thesis by (auto simp: queue_of_def set_queued)
qed (simp add: queue_of_def)

lemma flying_admitted: "set (flying k run st) \<subseteq> admitted run st"
proof
  fix x
  assume "x \<in> set (flying k run st)"
  then obtain j where j: "j \<in> set (jobs (pool st) @ run)" "x \<in> set (job_for k j)"
    by (auto simp: flying_def)
  then have "x = job_sender j" by (cases j rule: job_sender.cases) (auto split: if_splits)
  with j(1) show "x \<in> admitted run st" by (simp add: admitted_def)
qed

lemma flying_grounded:
  assumes "flight_inv config run st" and "k \<notin> set (active st)"
  shows "flying k run st = []"
proof -
  have "set (flight run st) = set (active st)"
    using assms(1) by (metis flight_inv_def set_mset_mset)
  then have "k \<notin> set (concat (map job_key (jobs (pool st) @ run)))"
    using assms(2) by (auto simp: flight_def)
  then have "job_for k j = []" if "j \<in> set (jobs (pool st) @ run)" for j
    using that by (cases j) fastforce+
  then show ?thesis by (simp add: flying_def)
qed

lemma admitted_less:
  "order_inv fin run st \<Longrightarrow> x \<in> admitted run st \<or> x \<in> set (fin k) \<Longrightarrow> y \<in> set (waiting st) \<Longrightarrow> x < y"
  by (auto simp: order_inv_def)

text \<open>Admitting a request keeps the order: it is newer than everything admitted before.\<close>

lemma order_admit:
  assumes "order_inv fin run st" and "waiting st = op_sender op # ys" and "waiting st' = ys"
    and "queues st' = AList.update k (queue_of (queues st) k @ [op]) (queues st)" and "pool st' = pool st"
  shows "order_inv fin run st'"
proof -
  let ?x = "op_sender op"
  have adm: "admitted run st' = insert ?x (admitted run st)"
    using queued_put [of k "queues st" op] assms(4,5)
    by (auto simp: admitted_def) (metis add_mset_commute image_eqI insert_iff set_mset_add_mset_insert set_mset_mset)+
  have old: "y < ?x" if "y \<in> admitted run st \<or> y \<in> set (fin k')" for y k'
    using admitted_less [OF assms(1) that] assms(2) by simp
  have "sorted_wrt (<) (fin k' @ flying k' run st' @ map op_sender (queue_of (queues st') k'))" for k'
  proof -
    have "sorted_wrt (<) (fin k' @ flying k' run st @ map op_sender (queue_of (queues st) k'))"
      using assms(1) by (simp add: order_inv_def)
    moreover have "y < ?x" if "y \<in> set (fin k' @ flying k' run st @ map op_sender (queue_of (queues st) k'))" for y
      using that old flying_admitted [of k' run st] queue_of_queued [of "queues st" k']
      by (fastforce simp: admitted_def)
    ultimately show ?thesis using assms(4,5)
      by (auto simp: queue_of_update flying_def sorted_wrt_append)
  qed
  then show ?thesis using assms(1-3) adm by (auto simp: order_inv_def)
qed

lemma order_shrink:
  assumes "order_inv fin run st" and "sorted_wrt (<) (waiting st')" and "set (waiting st') \<subseteq> set (waiting st)"
    and "\<And>x y. x \<in> admitted run st' - admitted run st \<Longrightarrow> y \<in> set (waiting st') \<Longrightarrow> x < y"
    and "\<And>k. sorted_wrt (<) (fin k @ flying k run st' @ map op_sender (queue_of (queues st') k))"
  shows "order_inv fin run st'"
  using assms by (fastforce simp: order_inv_def)

lemma admitted_start:
  assumes "queue_of (queues st) k = op # rest" and "queues st' = AList.update k rest (queues st)"
    and "jobs (pool st') = jobs (pool st) @ [OperationJob k op]"
  shows "admitted run st' = admitted run st"
proof -
  have "set (queued (queues st)) = insert op (set (queued (AList.update k rest (queues st))))"
    using queued_take [OF assms(1)] by (metis set_mset_add_mset_insert set_mset_mset)
  with assms(2,3) show ?thesis by (auto simp: admitted_def)
qed

lemma admitted_remove:
  assumes "queue_of (queues st) k = op # rest" and "set (queued (queues st')) = set (queued (AList.update k rest (queues st)))"
    and "jobs (pool st') = jobs (pool st)"
  shows "admitted run st' \<subseteq> admitted run st"
proof -
  have "set (queued (queues st)) = insert op (set (queued (AList.update k rest (queues st))))"
    using queued_take [OF assms(1)] by (metis set_mset_add_mset_insert set_mset_mset)
  with assms(2,3) show ?thesis by (auto simp: admitted_def)
qed

lemma flying_start:
  assumes "flying k run st = []" and "jobs (pool st') = jobs (pool st) @ [OperationJob k op]"
  shows "flying k' run st' = (if k' = k then [op_sender op] else flying k' run st)"
proof (cases "k' = k")
  case True
  have "concat (map (job_for k) (jobs (pool st))) = []" "concat (map (job_for k) run) = []"
    using assms(1) by (auto simp: flying_def)
  with True assms(2) show ?thesis by (simp add: flying_def del: concat_eq_Nil_conv)
qed (use assms(2) in \<open>simp add: flying_def\<close>)

lemma order_micro:
  assumes "micro config st st'" and "order_inv fin run st" and "flight_inv config run st"
  shows "order_inv fin run st'"
  using assms(1)
proof (cases rule: micro.cases)
  note sorted = assms(2) [unfolded order_inv_def, THEN conjunct2, THEN conjunct2, rule_format]
  have w: "sorted_wrt (<) (waiting st)" using assms(2) by (simp add: order_inv_def)
  {
    case (start k op rest p)
    show ?thesis
    proof (rule order_shrink [OF assms(2)])
      show "sorted_wrt (<) (fin k' @ flying k' run st' @ map op_sender (queue_of (queues st') k'))" for k'
        using sorted [of k'] start flying_start [OF flying_grounded [OF assms(3) start(2)], of st' op k']
        by (auto simp: queue_of_update prepare_jobs flying_grounded [OF assms(3) start(2)])
    qed (use w start admitted_start [OF start(4), of st'] in \<open>auto simp: waiting_def prepare_jobs\<close>)
  next
    case (lose k op rest p)
    show ?thesis
    proof (rule order_shrink [OF assms(2)])
      show "sorted_wrt (<) (fin k' @ flying k' run st' @ map op_sender (queue_of (queues st') k'))" for k'
        using sorted [of k'] lose by (auto simp: queue_of_update flying_def prepare_jobs update_simps sorted_wrt_append)
    qed (use w lose admitted_remove [OF lose(4), of st'] in \<open>auto simp: waiting_def prepare_jobs update_simps\<close>)
  next
    case (refuse k op rest e p)
    have d: "distinct (map fst (queues st))" using assms(3) by (simp add: flight_inv_def)
    show ?thesis
    proof (rule order_shrink [OF assms(2)])
      show "sorted_wrt (<) (fin k' @ flying k' run st' @ map op_sender (queue_of (queues st') k'))" for k'
        using sorted [of k'] refuse d
        by (auto simp: queue_of_update queue_of_prune flying_def prepare_jobs update_simps sorted_wrt_append)
      have "set (queued (queues st')) = set (queued (AList.update k rest (queues st)))"
        using refuse queued_prune [of "AList.update k rest (queues st)" k] d
        by (simp add: update_simps) (metis set_mset_mset)
      from admitted_remove [OF refuse(4) this] refuse
      show "x < y" if "x \<in> admitted run st' - admitted run st" for x y
        using that by (auto simp: update_simps prepare_jobs)
    qed (use w refuse in \<open>auto simp: waiting_def prepare_jobs update_simps\<close>)
  next
    case (admit k op rest)
    show ?thesis
      by (rule order_admit [OF assms(2), of op "tl (waiting st)"])
        (use admit in \<open>simp_all add: waiting_def update_simps\<close>)
  next
    case (flush s rest)
    then show ?thesis
      by (intro order_shrink [OF assms(2)]) (use w sorted in \<open>auto simp: waiting_def update_simps admitted_def flying_def\<close>)
  next
    case (maintain age s rest)
    show ?thesis
      unfolding maintain(1)
    proof (rule dispatch_maintenance_cases [of "st\<lparr>pending := rest, maintenance_active := True\<rparr>" age s], goal_cases)
      case (1 e p)
      then show ?case using w sorted maintain(3)
        by (intro order_shrink [OF assms(2)]) (auto simp: waiting_def update_simps admitted_def flying_def prepare_jobs)
    next
      case (2 p)
      then show ?case using w sorted maintain(3)
        by (intro order_shrink [OF assms(2)]) (auto simp: waiting_def update_simps admitted_def flying_def prepare_jobs)
    next
      case (3 p)
      then show ?case using w sorted maintain(3)
        by (intro order_shrink [OF assms(2)]) (auto simp: waiting_def update_simps admitted_def flying_def prepare_jobs)
    qed
  }
qed

end
