(* ===== verification/Scheduler_Arms.thy ===== *)
theory Scheduler_Arms
  imports Scheduler_Facts
begin

text \<open>
  What every turn of the event loop keeps: the invariants of \<open>Scheduler_Facts\<close>, the shape of the
  pending queue, that no queue waits while a worker slot is free, and that something is in flight
  whenever an event is pending.
\<close>

section \<open>All invariants of the elementary actions\<close>

definition closes :: "pending_event list \<Rightarrow> bool" where
  "closes ps \<longleftrightarrow> list_all (\<lambda>p. \<exists>s. p = PendingClose s) ps"

definition closeless :: "pending_event list \<Rightarrow> bool" where
  "closeless ps \<longleftrightarrow> list_all (\<lambda>p. \<forall>s. p \<noteq> PendingClose s) ps"

text \<open>An open store has no close pending; a closing one ends in closes.\<close>

definition shape_inv :: "coordinator \<Rightarrow> bool" where
  "shape_inv st \<longleftrightarrow>
     lifecycle st = Open \<and> closeless (pending st)
     \<or> lifecycle st = Closing \<and> (\<exists>xs ys. pending st = xs @ ys \<and> closeless xs \<and> closes ys \<and> ys \<noteq> [])"

text \<open>No entry of the queue map is empty and unused, but for the keys of \<open>K\<close>.\<close>

definition tidy :: "bytes set \<Rightarrow> coordinator \<Rightarrow> bool" where
  "tidy K st \<longleftrightarrow> (\<forall>(k, q) \<in> set (queues st). q \<noteq> [] \<or> k \<in> set (active st) \<or> k \<in> K)"

definition pool_inv :: "store_config \<Rightarrow> coordinator \<Rightarrow> bool" where
  "pool_inv config st \<longleftrightarrow> sender_open (pool st) \<and> capacity (pool st) = cfg_max_concurrent config
     \<and> (jobs (pool st) \<noteq> [] \<longrightarrow> 0 < cfg_max_concurrent config \<longrightarrow> 0 < handles (pool st))"

definition basic_inv :: "store_config \<Rightarrow> (bytes \<Rightarrow> sender list) \<Rightarrow> job list \<Rightarrow> coordinator \<Rightarrow> bool" where
  "basic_inv config fin run st \<longleftrightarrow>
     flight_inv config run st \<and> maintenance_inv run st \<and> order_inv fin run st \<and> shape_inv st \<and> pool_inv config st"

lemma closeless_simps [simp]:
  "closeless []" "closeless (p # ps) \<longleftrightarrow> (\<forall>s. p \<noteq> PendingClose s) \<and> closeless ps"
  "closeless (ps @ qs) \<longleftrightarrow> closeless ps \<and> closeless qs"
  by (simp_all add: closeless_def)

lemma closes_simps [simp]:
  "closes []" "closes (p # ps) \<longleftrightarrow> (\<exists>s. p = PendingClose s) \<and> closes ps"
  "closes (ps @ qs) \<longleftrightarrow> closes ps \<and> closes qs"
  by (simp_all add: closes_def)

lemma shape_pop:
  assumes "shape_inv st" and "pending st = p # rest" and "\<forall>s. p \<noteq> PendingClose s"
    and "pending st' = rest" and "lifecycle st' = lifecycle st"
  shows "shape_inv st'"
proof -
  have "\<exists>xs ys. rest = xs @ ys \<and> closeless xs \<and> closes ys \<and> ys \<noteq> []"
    if "p # rest = xs @ ys" "closeless xs" "closes ys" "ys \<noteq> []" for xs ys
    using that assms(3) by (cases xs) auto
  then show ?thesis using assms by (auto simp: shape_inv_def) 
qed

lemma dispatch_maintenance_frame':
  "pending (dispatch_maintenance age s st) = pending st \<and> lifecycle (dispatch_maintenance age s st) = lifecycle st
   \<and> queues (dispatch_maintenance age s st) = queues st \<and> active (dispatch_maintenance age s st) = active st
   \<and> maintenance_active (dispatch_maintenance age s st) = maintenance_active st"
proof (rule dispatch_maintenance_cases [of st age s], goal_cases)
  case (1 e p)
  show ?case unfolding 1(2) by (simp add: update_simps)
next
  case (2 p)
  show ?case unfolding 2(3) by simp
next
  case (3 p)
  show ?case unfolding 3(3) by (simp add: update_simps)
qed

lemmas dispatch_maintenance_frame [simp] =
  dispatch_maintenance_frame' [THEN conjunct1]
  dispatch_maintenance_frame' [THEN conjunct2, THEN conjunct1]
  dispatch_maintenance_frame' [THEN conjunct2, THEN conjunct2, THEN conjunct1]
  dispatch_maintenance_frame' [THEN conjunct2, THEN conjunct2, THEN conjunct2, THEN conjunct1]
  dispatch_maintenance_frame' [THEN conjunct2, THEN conjunct2, THEN conjunct2, THEN conjunct2]

lemma shape_micro: "micro config st st' \<Longrightarrow> shape_inv st \<Longrightarrow> shape_inv st'"
proof (induction rule: micro.induct)
  case (admit st k op rest)
  then show ?case by (auto simp: update_simps elim!: shape_pop)
next
  case (flush st s rest)
  then show ?case by (auto simp: update_simps elim!: shape_pop)
next
  case (maintain st age s rest)
  then show ?case by (auto elim!: shape_pop)
qed (auto simp: shape_inv_def update_simps)

lemma pool_micro:
  assumes "micro config st st'" and "pool_inv config st"
  shows "pool_inv config st'"
  using assms
proof (cases rule: micro.cases)
  case (start k op rest p)
  then have "min (length (active st) + 1) (capacity (pool st)) \<le> handles p" by (intro prepare_ok)
  with start assms(2) prepare_frame [OF start(5)] show ?thesis by (auto simp: pool_inv_def)
next
  case (lose k op rest p)
  with assms(2) prepare_frame [OF lose(5)] show ?thesis by (auto simp: pool_inv_def)
next
  case (refuse k op rest e p)
  with assms(2) prepare_frame [OF refuse(5)] show ?thesis by (auto simp: pool_inv_def update_simps)
next
  case (maintain age s rest)
  let ?st = "st\<lparr>pending := rest, maintenance_active := True\<rparr>"
  show ?thesis
    unfolding maintain(1)
  proof (rule dispatch_maintenance_cases [of ?st age s], goal_cases)
    case (1 e p)
    with assms(2) prepare_frame [OF 1(1)] show ?case by (auto simp: pool_inv_def update_simps)
  next
    case (2 p)
    have "min 1 (capacity (pool st)) \<le> handles p" using prepare_ok [OF 2(1)] by simp
    with 2 assms(2) prepare_frame [OF 2(1)] show ?case by (auto simp: pool_inv_def)
  next
    case (3 p)
    with assms(2) prepare_frame [OF 3(1)] show ?case by (auto simp: pool_inv_def)
  qed
qed (auto simp: pool_inv_def update_simps)

lemma basic_micro: "micro config st st' \<Longrightarrow> basic_inv config fin run st \<Longrightarrow> basic_inv config fin run st'"
  unfolding basic_inv_def
  by (blast intro: flight_micro maintenance_micro order_micro shape_micro pool_micro)

lemma basic_micros: "micros config st st' \<Longrightarrow> basic_inv config fin run st \<Longrightarrow> basic_inv config fin run st'"
  by (erule micros_invariant) (auto intro: basic_micro)

lemma account_micros:
  assumes "micros config st st'" and "flight_inv config run st"
  shows "account run st' = account run st"
proof -
  have "flight_inv config run st' \<and> account run st' = account run st"
    by (rule micros_invariant [OF assms(1)])
      (use assms(2) flight_micro account_micro in \<open>auto simp: flight_inv_def\<close>)
  then show ?thesis by simp
qed

section \<open>Entry actions\<close>

lemma delete_sub: "e \<in> set (AList.delete k qs) \<Longrightarrow> e \<in> set qs"
  by (induction qs) (auto split: if_splits)

lemma basic_prune:
  assumes "basic_inv config fin run st"
  shows "basic_inv config fin run (st\<lparr>queues := prune k (queues st)\<rparr>)"
proof -
  have d: "distinct (map fst (queues st))" using assms by (simp add: basic_inv_def flight_inv_def)
  have "set (queued (prune k (queues st))) = set (queued (queues st))"
    using queued_prune [OF d] by (metis set_mset_mset)
  then have "order_inv fin run (st\<lparr>queues := prune k (queues st)\<rparr>)"
    using assms by (simp add: basic_inv_def order_inv_def waiting_def admitted_def flying_def queue_of_prune [OF d])
  moreover have "queues_empty (st\<lparr>queues := prune k (queues st)\<rparr>)" if "queues_empty st"
    using that by (auto simp: queues_empty_def prune_def list_all_iff dest: delete_sub)
  ultimately show ?thesis using assms
    by (auto simp: basic_inv_def flight_inv_def maintenance_inv_def maintenances_def flight_def shape_inv_def pool_inv_def)
qed

lemma basic_answer [simp]: "basic_inv config fin run (answer r st) = basic_inv config fin run st"
  by (simp add: basic_inv_def flight_inv_def maintenance_inv_def order_inv_def shape_inv_def pool_inv_def
      maintenances_def flight_def waiting_def admitted_def flying_def answer_def queues_empty_def)

text \<open>Taking a client event from the channel.\<close>

lemma basic_client_event:
  assumes "basic_inv config fin run (st\<lparr>inbox := ev # inbox st\<rparr>)" and "\<forall>k x. ev \<noteq> Completion k x"
    and "\<forall>x. ev \<noteq> MaintenanceCompletion x"
  shows "basic_inv config fin run st"
  using assms(1) assms(2,3)
  by (cases ev) (auto simp: basic_inv_def flight_inv_def maintenance_inv_def order_inv_def shape_inv_def pool_inv_def
      maintenances_def flight_def waiting_def admitted_def flying_def queues_empty_def sorted_wrt_append)

lemma basic_defer:
  assumes "basic_inv config fin run (st\<lparr>inbox := ev # inbox st\<rparr>)" and "client_senders ev = [pending_sender p]"
    and "lifecycle st = Open" and "\<forall>s. p \<noteq> PendingClose s"
  shows "basic_inv config fin run (st\<lparr>pending := pending st @ [p]\<rparr>)"
proof -
  have "waiting (st\<lparr>pending := pending st @ [p]\<rparr>) = waiting (st\<lparr>inbox := ev # inbox st\<rparr>)"
    using assms(2) by (simp add: waiting_def)
  moreover have "\<forall>k x. ev \<noteq> Completion k x" "\<forall>x. ev \<noteq> MaintenanceCompletion x" using assms(2) by auto
  ultimately show ?thesis
    using assms basic_client_event [OF assms(1)]
    by (auto simp: basic_inv_def flight_inv_def maintenance_inv_def order_inv_def shape_inv_def pool_inv_def
      maintenances_def flight_def admitted_def flying_def queues_empty_def)
qed

lemma basic_close:
  assumes "basic_inv config fin run (st\<lparr>inbox := Close s # inbox st\<rparr>)"
  shows "basic_inv config fin run (st\<lparr>lifecycle := Closing, pending := pending st @ [PendingClose s]\<rparr>)"
proof -
  let ?st = "st\<lparr>lifecycle := Closing, pending := pending st @ [PendingClose s]\<rparr>"
  have "waiting ?st = waiting (st\<lparr>inbox := Close s # inbox st\<rparr>)" by (simp add: waiting_def)
  moreover have "shape_inv ?st"
  proof -
    have "shape_inv st" using assms by (simp add: basic_inv_def shape_inv_def)
    then obtain xs ys where "pending st = xs @ ys" "closeless xs" "closes ys"
      by (auto simp: shape_inv_def) (metis append_Nil2 closes_simps(1))
    then have "pending ?st = xs @ (ys @ [PendingClose s]) \<and> closeless xs \<and> closes (ys @ [PendingClose s])
        \<and> ys @ [PendingClose s] \<noteq> []" by simp
    then have "\<exists>xs ys. pending ?st = xs @ ys \<and> closeless xs \<and> closes ys \<and> ys \<noteq> []" by (intro exI)
    then show ?thesis by (simp add: shape_inv_def)
  qed
  ultimately show ?thesis
    using basic_client_event [OF assms]
    assms by (auto simp: basic_inv_def flight_inv_def maintenance_inv_def order_inv_def pool_inv_def
      maintenances_def flight_def admitted_def flying_def queues_empty_def)
qed

lemma basic_enqueue:
  assumes "basic_inv config fin run (st\<lparr>inbox := Submission k op # inbox st\<rparr>)"
    and "pending st = []" and "\<not> maintenance_active st"
  shows "basic_inv config fin run (enqueue k op st)"
proof -
  have "order_inv fin run (st\<lparr>inbox := Submission k op # inbox st\<rparr>)" using assms(1) by (simp add: basic_inv_def)
  then have "order_inv fin run (enqueue k op st)"
    by (rule order_admit [where k = k and ys = "waiting st"]) (use assms(2) in \<open>simp_all add: waiting_def update_simps\<close>)
  then show ?thesis
    using basic_client_event [OF assms(1)] assms(3)
    by (auto simp: basic_inv_def flight_inv_def maintenance_inv_def shape_inv_def pool_inv_def
      maintenances_def flight_def update_simps)
qed

lemma basic_completion:
  assumes "basic_inv config fin run (st\<lparr>inbox := Completion k outcome # inbox st\<rparr>)"
  shows "basic_inv config fin run (st\<lparr>active := removeAll k (active st)\<rparr>)"
proof -
  have f: "distinct (active st)" "mset (flight run (st\<lparr>inbox := Completion k outcome # inbox st\<rparr>)) = mset (active st)"
    using assms by (auto simp: basic_inv_def flight_inv_def)
  have "mset (removeAll k (active st)) = mset (active st) - {#k#}"
    using distinct_remove1_removeAll [OF f(1), of k] by (metis mset_remove1)
  also have "\<dots> = mset (flight run st)" using f(2) by (simp add: flight_def flip: f(2))
  finally have m: "mset (flight run st) = mset (removeAll k (active st))" ..
  have "length (removeAll k (active st)) \<le> cfg_max_concurrent config"
    by (rule le_trans [OF length_removeAll_less_eq]) (use assms in \<open>simp add: basic_inv_def flight_inv_def\<close>)
  with m f(1) assms have "flight_inv config run (st\<lparr>active := removeAll k (active st)\<rparr>)"
    by (simp add: basic_inv_def flight_inv_def flight_def distinct_removeAll)
  moreover have "maintenance_inv run (st\<lparr>active := removeAll k (active st)\<rparr>)"
    using assms by (auto simp: basic_inv_def maintenance_inv_def maintenances_def queues_empty_def)
  ultimately show ?thesis using assms
    by (simp add: basic_inv_def order_inv_def shape_inv_def pool_inv_def waiting_def admitted_def flying_def)
qed

lemma basic_maintenance_completion:
  assumes "basic_inv config fin run (st\<lparr>inbox := MaintenanceCompletion outcome # inbox st\<rparr>)"
  shows "basic_inv config fin run (st\<lparr>maintenance_active := False\<rparr>)"
  using assms
  by (auto simp: basic_inv_def flight_inv_def maintenance_inv_def order_inv_def shape_inv_def pool_inv_def
      maintenances_def flight_def waiting_def admitted_def flying_def queues_empty_def split: if_splits)

lemma basic_release:
  assumes "basic_inv config fin run (st\<lparr>inbox := Completion k outcome # inbox st\<rparr>)"
  shows "basic_inv config fin run (release_key iter config k st)"
proof -
  note st2 = basic_micros [OF dispatch_available_micros basic_micros [OF dispatch_if_idle_micros
    basic_completion [OF assms]], of iter k]
  from st2 basic_prune [OF st2, of k] show ?thesis by (simp add: release_key_def Let_def)
qed

lemma on_completion_cases:
  assumes "on_completion iter config k outcome st = Some (st', check)"
  obtains "outcome = None" "st' = advance_pending_if_ready config (release_key iter config k st)" check
  | op res r where "outcome = Some (op, res)" "deliver op res = Some r"
      "st' = advance_pending_if_ready config (answer r (release_key iter config k st))" check
  using assms by (auto simp: on_completion_def Let_def split: option.splits)

section \<open>Turns keep the invariants\<close>

lemma handle_event_basic:
  assumes inv: "basic_inv config fin run (st\<lparr>inbox := ev # inbox st\<rparr>)"
    and "handle_event iter config ev st = Some (st', check)"
  shows "basic_inv config fin run st'"
proof -
  have adv: "basic_inv config fin run (advance_pending_if_ready config s)" if "basic_inv config fin run s" for s
    using that advance_pending_micros basic_micros by blast
  have disp: "basic_inv config fin run (dispatch_available iter config (dispatch_if_idle config k s))"
    if "basic_inv config fin run s" for s k
    by (rule basic_micros [OF dispatch_available_micros basic_micros [OF dispatch_if_idle_micros that]])
  note client = basic_client_event [OF inv]
  show ?thesis
  proof (cases ev)
    case (Submission k op)
    then show ?thesis
      using assms(2) client inv basic_defer [OF inv, of "PendingSubmission k op"] disp [OF basic_enqueue]
      by (auto simp: on_submission_def split: if_splits)
  next
    case (Completion k outcome)
    have "basic_inv config fin run (release_key iter config k st)"
      using basic_release inv Completion by blast
    then show ?thesis using on_completion_cases [of iter config k outcome st st' check] assms(2) Completion adv
      by fastforce
  next
    case (Maintenance age s)
    then show ?thesis
      using assms(2) client basic_defer [OF inv, of "PendingMaintenance age s"] adv
      by (auto simp: on_maintenance_def split: if_splits)
  next
    case (MaintenanceCompletion outcome)
    then show ?thesis
      using assms(2) adv basic_maintenance_completion [where st = st] inv
      by (auto simp: on_maintenance_completion_def Let_def split: option.splits)
  next
    case (Flush s)
    then show ?thesis
      using assms(2) client basic_defer [OF inv, of "PendingFlush s"] adv
      by (auto simp: on_flush_def split: if_splits)
  next
    case (Close s)
    have "lifecycle st = Open \<or> lifecycle st = Closing"
      using inv by (auto simp: basic_inv_def shape_inv_def)
    then have "st' = advance_pending_if_ready config
        (st\<lparr>lifecycle := Closing, pending := pending st @ [PendingClose s]\<rparr>)"
      using assms(2) Close by (cases st) (auto simp: on_close_def)
    with adv basic_close inv Close show ?thesis by blast
  qed
qed

end
