(* ===== verification/Scheduler_Progress.thy ===== *)
theory Scheduler_Progress
  imports Scheduler_Arms
begin

text \<open>
  Progress of the coordinator: no queue waits while a worker slot is free, nothing is pending while
  the engine is idle, every turn conserves the account of reply channels and lowers a weight. So a
  state without work in flight owes no reply, and the coordinator cannot turn forever.
\<close>

section \<open>Frames\<close>

lemma dispatch_available_frame [simp]:
  "pending (dispatch_available iter config st) = pending st"
  "maintenance_active (dispatch_available iter config st) = maintenance_active st"
  "lifecycle (dispatch_available iter config st) = lifecycle st"
proof -
  have "pending (dispatch_available iter config st) = pending st
      \<and> maintenance_active (dispatch_available iter config st) = maintenance_active st
      \<and> lifecycle (dispatch_available iter config st) = lifecycle st"
  proof (induction iter config st rule: dispatch_available.induct)
    case (1 iter config st)
    then show ?case
      by (simp add: dispatch_available.simps [of iter config st] split: option.split)
  qed
  then show "pending (dispatch_available iter config st) = pending st"
    "maintenance_active (dispatch_available iter config st) = maintenance_active st"
    "lifecycle (dispatch_available iter config st) = lifecycle st" by auto
qed

lemma lifecycle_micro: "micro config st st' \<Longrightarrow> lifecycle st' = lifecycle st"
  by (induction rule: micro.induct) (simp_all add: update_simps)

lemma lifecycle_advance [simp]: "lifecycle (advance_pending_if_ready config st) = lifecycle st"
  by (rule micros_invariant [OF advance_pending_micros]) (auto dest: lifecycle_micro)

section \<open>No queue waits for a free slot\<close>

definition conserving :: "store_config \<Rightarrow> coordinator \<Rightarrow> bool" where
  "conserving config st \<longleftrightarrow> length (active st) \<ge> cfg_max_concurrent config
     \<or> (\<forall>k. queue_of (queues st) k \<noteq> [] \<longrightarrow> k \<in> set (active st))"

text \<open>The iteration of a hash map visits exactly its entries.\<close>

definition iterates :: "(queue_map \<Rightarrow> bytes list) \<Rightarrow> bool" where
  "iterates iter \<longleftrightarrow> (\<forall>qs. set (iter qs) = fst ` set qs)"

lemma queue_of_key: "queue_of qs k \<noteq> [] \<Longrightarrow> k \<in> fst ` set qs"
  by (auto simp: queue_of_def split: option.splits dest: map_of_SomeD intro: rev_image_eqI)

lemma dispatch_available_conserving:
  assumes "iterates iter"
  shows "conserving config (dispatch_available iter config st)"
  using assms
proof (induction iter config st rule: dispatch_available.induct)
  case (1 iter config st)
  show ?case
  proof (cases "dispatchable iter st")
    case None
    then have "\<forall>k \<in> fst ` set (queues st). queue_of (queues st) k = [] \<or> k \<in> set (active st)"
      using 1(2) by (auto simp: dispatchable_def find_None_iff iterates_def)
    then have "\<forall>k. queue_of (queues st) k \<noteq> [] \<longrightarrow> k \<in> set (active st)"
      using queue_of_key by blast
    with None show ?thesis by (simp add: dispatch_available.simps [of iter config st] conserving_def)
  next
    case (Some k)
    with 1 show ?thesis
      by (simp add: dispatch_available.simps [of iter config st]) (simp add: conserving_def)
  qed
qed

lemma dispatch_if_idle_cases:
  obtains "dispatch_if_idle config k st = st"
      "k \<in> set (active st) \<or> length (active st) \<ge> cfg_max_concurrent config \<or> queue_of (queues st) k = []"
  | op rest where "queue_of (queues st) k = op # rest" "k \<notin> set (active st)"
      "queues (dispatch_if_idle config k st) = AList.update k rest (queues st)"
      "active (dispatch_if_idle config k st) = k # active st"
  | op rest where "queue_of (queues st) k = op # rest" "k \<notin> set (active st)"
      "queues (dispatch_if_idle config k st) = prune k (AList.update k rest (queues st))"
      "active (dispatch_if_idle config k st) = active st"
proof (cases "k \<in> set (active st) \<or> length (active st) \<ge> cfg_max_concurrent config \<or> queue_of (queues st) k = []")
  case True
  then have "dispatch_if_idle config k st = st" by (auto simp: dispatch_if_idle_def)
  with True that(1) show ?thesis by blast
next
  case False
  then obtain op rest where q: "queue_of (queues st) k = op # rest" by (cases "queue_of (queues st) k") auto
  obtain x p where prep: "prepare (length (active st) + 1) (pool st) = (x, p)" by fastforce
  show ?thesis
  proof (cases x)
    case (Inl e)
    then show ?thesis using False q prep that(3) [of op rest]
      by (simp add: dispatch_if_idle_def Let_def answer_def)
  next
    case (Inr u)
    then show ?thesis using False q prep that(2) [of op rest]
      by (cases "sender_open p")
        (simp_all add: dispatch_if_idle_def Let_def prepare_dispatch_def execute_def send_def drop_sender_def
          List.insert_def)
  qed
qed

lemma distinct_keys_dispatch:
  "distinct (map fst (queues st)) \<Longrightarrow> distinct (map fst (queues (dispatch_if_idle config k st)))"
  by (rule dispatch_if_idle_cases [of config k st]) auto

lemma enqueue_conserving:
  assumes "conserving config st" and "distinct (map fst (queues st))"
  shows "conserving config (dispatch_if_idle config k (enqueue k op st))"
proof (cases "length (active st) \<ge> cfg_max_concurrent config")
  case True
  then have "dispatch_if_idle config k (enqueue k op st) = enqueue k op st"
    by (simp add: dispatch_if_idle_def enqueue_def)
  with True show ?thesis by (simp add: conserving_def enqueue_def)
next
  case False
  with assms(1) have c: "queue_of (queues st) k' \<noteq> [] \<Longrightarrow> k' \<in> set (active st)" for k'
    by (simp add: conserving_def)
  have e: "queue_of (queues (enqueue k op st)) k' = (if k' = k then queue_of (queues st) k @ [op] else queue_of (queues st) k')"
    "active (enqueue k op st) = active st" for k'
    by (simp_all add: enqueue_def queue_of_update)
  have d: "distinct (map fst (queues (enqueue k op st)))" using assms(2) by (simp add: enqueue_def)
  show ?thesis
  proof (rule dispatch_if_idle_cases [of config k "enqueue k op st"], goal_cases)
    case 1
    then have "k \<in> set (active st)" using False e by auto
    with 1 c e show ?case by (auto simp: conserving_def)
  next
    case (2 op' rest)
    with c e show ?case by (auto simp: conserving_def queue_of_update split: if_splits)
  next
    case (3 op' rest)
    then have "queue_of (queues st) k = []" using c e by auto
    with 3 e(1) [of k] have "rest = []" by simp
    with 3 c e d show ?case by (auto simp: conserving_def queue_of_update queue_of_prune)
  qed
qed

lemma advance_loop_conserving:
  "conserving config st \<Longrightarrow> distinct (map fst (queues st)) \<Longrightarrow> conserving config (advance_loop config st)"
proof (induction config st rule: advance_loop.induct)
  case (1 config st)
  note step = advance_loop.simps [of config st]
  show ?case
  proof (cases "pending st")
    case (Cons pe rest)
    have pop: "conserving config (st\<lparr>pending := rest, maintenance_active := b\<rparr>)" "conserving config (st\<lparr>pending := rest\<rparr>)" for b
      using 1(3) by (simp_all add: conserving_def)
    show ?thesis
    proof (cases pe)
      case (PendingSubmission k op)
      have "distinct (map fst (queues (dispatch_if_idle config k (enqueue k op (st\<lparr>pending := rest\<rparr>)))))"
        using 1(4) by (intro distinct_keys_dispatch) (simp add: enqueue_def)
      with 1(1) [OF Cons PendingSubmission enqueue_conserving [OF pop(2)]] 1(4) Cons PendingSubmission show ?thesis
        by (simp add: step)
    next
      case (PendingMaintenance age s)
      with pop(1) [of True] 1(3) Cons show ?thesis
        by (auto simp: step conserving_def queues_empty_queue_of)
    next
      case (PendingFlush s)
      show ?thesis
      proof (cases "active st \<noteq> [] \<or> \<not> queues_empty st")
        case False
        then have "conserving config (advance_loop config (answer (s, Finished (Inr ())) (st\<lparr>pending := rest\<rparr>)))"
          using 1(2) [OF Cons PendingFlush False] pop(2) 1(4) by (simp add: conserving_def answer_def)
        with False Cons PendingFlush show ?thesis by (simp add: step)
      qed (use 1(3) Cons PendingFlush in \<open>simp add: step\<close>)
    qed (use Cons 1(3) in \<open>simp add: step\<close>)
  qed (use 1(3) in \<open>simp add: step\<close>)
qed

lemma advance_conserving:
  "conserving config st \<Longrightarrow> distinct (map fst (queues st)) \<Longrightarrow> conserving config (advance_pending_if_ready config st)"
  by (simp add: advance_pending_if_ready_def advance_loop_conserving)

lemma release_conserving:
  assumes "iterates iter" and "basic_inv config fin run (st\<lparr>inbox := Completion k outcome # inbox st\<rparr>)"
  shows "conserving config (release_key iter config k st)"
proof -
  let ?st = "dispatch_available iter config (dispatch_if_idle config k (st\<lparr>active := removeAll k (active st)\<rparr>))"
  have "basic_inv config fin run ?st"
    by (rule basic_micros [OF dispatch_available_micros basic_micros [OF dispatch_if_idle_micros basic_completion [OF assms(2)]]])
  then have "distinct (map fst (queues ?st))" by (simp add: basic_inv_def flight_inv_def)
  with dispatch_available_conserving [OF assms(1)] show ?thesis
    by (auto simp: release_key_def Let_def conserving_def queue_of_prune)
qed

section \<open>Nothing pending while idle\<close>

definition close_first :: "coordinator \<Rightarrow> bool" where
  "close_first st \<longleftrightarrow> (case pending st of PendingClose _ # _ \<Rightarrow> True | _ \<Rightarrow> False)"

lemma close_ready_iff: "close_ready st \<longleftrightarrow> close_first st \<and> idle st"
  by (simp add: close_ready_def close_first_def idle_def)

definition prompt :: "coordinator \<Rightarrow> bool" where
  "prompt st \<longleftrightarrow> pending st = [] \<or> \<not> idle st \<or> close_first st"

lemma advance_loop_prompt: "prompt (advance_loop config st)"
proof (induction config st rule: advance_loop.induct)
  case (1 config st)
  note step = advance_loop.simps [of config st]
  show ?case
  proof (cases "pending st")
    case (Cons pe rest)
    then show ?thesis
      using 1 by (cases pe) (auto simp: step prompt_def idle_def close_first_def)
  qed (simp add: step prompt_def)
qed

lemma advance_prompt: "prompt (advance_pending_if_ready config st)"
  using advance_loop_prompt by (simp add: advance_pending_if_ready_def prompt_def idle_def)

lemma prompt_answer [simp]: "prompt (answer r st) = prompt st"
  by (simp add: prompt_def answer_def idle_def queues_empty_def close_first_def)

lemma conserving_answer [simp]: "conserving config (answer r st) = conserving config st"
  by (simp add: conserving_def answer_def)

text \<open>What holds between turns.\<close>

definition progress_inv :: "store_config \<Rightarrow> coordinator \<Rightarrow> bool" where
  "progress_inv config st \<longleftrightarrow> conserving config st \<and> (pending st \<noteq> [] \<longrightarrow> \<not> idle st)"

lemma handle_event_progress:
  assumes "iterates iter" and "progress_inv config st" and "basic_inv config fin run (st\<lparr>inbox := ev # inbox st\<rparr>)"
    and "handle_event iter config ev st = Some (st', check)"
  shows "conserving config st' \<and> prompt st' \<and> (\<not> check \<longrightarrow> (pending st' \<noteq> [] \<longrightarrow> \<not> idle st'))"
proof -
  have d: "distinct (map fst (queues st))" using assms(3) by (simp add: basic_inv_def flight_inv_def)
  have c: "conserving config st" and p: "pending st \<noteq> [] \<Longrightarrow> \<not> idle st"
    using assms(2) by (auto simp: progress_inv_def)
  have adv: "conserving config (advance_pending_if_ready config s) \<and> prompt (advance_pending_if_ready config s)"
    if "queues s = queues st" "active s = active st" for s
    using advance_conserving [of config s] advance_prompt [of config s] c d that by (simp add: conserving_def)
  have rej: "conserving config (answer r st) \<and> prompt (answer r st) \<and> (pending (answer r st) \<noteq> [] \<longrightarrow> \<not> idle (answer r st))" for r
    using c p by (auto simp: prompt_def answer_def idle_def queues_empty_def conserving_def)
  show ?thesis
  proof (cases ev)
    case (Submission k op)
    have "\<not> idle (st\<lparr>pending := q\<rparr>)" if "maintenance_active st \<or> pending st \<noteq> []" for q
      using that p by (auto simp: idle_def queues_empty_def)
    with Submission assms(4) c p dispatch_available_conserving [OF assms(1)] show ?thesis
      by (auto simp: on_submission_def prompt_def update_simps conserving_def idle_def queues_empty_def split: if_splits)
  next
    case (Completion k outcome)
    have "basic_inv config fin run (release_key iter config k st)"
      using basic_release assms(3) Completion by blast
    then have d': "distinct (map fst (queues (release_key iter config k st)))"
      by (simp add: basic_inv_def flight_inv_def)
    note rel = release_conserving [OF assms(1)] assms(3) [unfolded Completion]
    from assms(4) have "on_completion iter config k outcome st = Some (st', check)" by (simp add: Completion)
    then show ?thesis
    proof (cases rule: on_completion_cases)
      case 1
      with advance_conserving [OF rel(1) [OF rel(2)] d'] advance_prompt show ?thesis by simp
    next
      case (2 op res r)
      have "conserving config (answer r (release_key iter config k st))" using rel by auto
      with 2 advance_conserving [OF this] d' advance_prompt show ?thesis by (simp add: answer_def)
    qed
  next
    case (Maintenance age s)
    then show ?thesis using assms(4) rej adv [of "st\<lparr>pending := pending st @ [PendingMaintenance age s]\<rparr>"]
      by (auto simp: on_maintenance_def split: if_splits)
  next
    case (MaintenanceCompletion outcome)
    then show ?thesis using assms(4) adv
      by (auto simp: on_maintenance_completion_def Let_def update_simps split: option.splits)
  next
    case (Flush s)
    then show ?thesis using assms(4) rej adv [of "st\<lparr>pending := pending st @ [PendingFlush s]\<rparr>"]
      by (auto simp: on_flush_def split: if_splits)
  next
    case (Close s)
    then show ?thesis using assms(4) adv
      by (auto simp: on_close_def Let_def update_simps split: lifecycle.splits)
  qed
qed

lemma turn_progress:
  assumes "iterates iter" and "progress_inv config st" and "basic_inv config fin run (st\<lparr>inbox := ev # inbox st\<rparr>)"
    and "scheduler_turn iter config ev st = Some (st', False)"
  shows "progress_inv config st'"
proof -
  from assms(4) obtain check where h: "handle_event iter config ev st = Some (st', check)"
      and n: "\<not> (check \<and> close_ready st')"
    by (auto simp: scheduler_turn_def split: option.splits if_splits)
  from handle_event_progress [OF assms(1-3) h] n show ?thesis
    by (auto simp: progress_inv_def prompt_def close_ready_iff)
qed

section \<open>Nothing is owed when nothing is in flight\<close>

lemma queued_empty:
  assumes "distinct (map fst qs)" and "\<And>k. queue_of qs k = []"
  shows "queued qs = []"
proof -
  have "q = []" if "(k, q) \<in> set qs" for k q
    using that assms(2) [of k] map_of_is_SomeI [OF assms(1) that] by (simp add: queue_of_def)
  then show ?thesis by (auto simp: queued_def)
qed

lemma quiescent_owes_nothing:
  assumes "flight_inv config [] st" and "maintenance_inv [] st" and "progress_inv config st"
    and "0 < cfg_max_concurrent config" and "inbox st = []" and "jobs (pool st) = []"
  shows "owed [] st = {#}"
proof -
  have a: "active st = []" using assms(1,5,6) by (simp add: flight_inv_def flight_def)
  moreover have "\<not> maintenance_active st"
    using assms(2,5,6) by (auto simp: maintenance_inv_def maintenances_def split: if_splits)
  moreover have q: "queue_of (queues st) k = []" for k
    using assms(3,4) a by (auto simp: progress_inv_def conserving_def)
  then have "queued (queues st) = []"
    using assms(1) queued_empty by (auto simp: flight_inv_def)
  moreover from this have "queues_empty st" by (auto simp: queued_def queues_empty_def list_all_iff)
  ultimately show ?thesis using assms(3,5,6) by (auto simp: owed_def progress_inv_def idle_def)
qed

end
