(* ===== verification/Scheduler_Account.thy ===== *)
theory Scheduler_Account
  imports Scheduler_Progress
begin

text \<open>
  Where replies come from. \<open>H\<close> is the list of all requests ever made, the request at position \<open>s\<close>
  having \<open>s\<close> as its reply channel; \<open>R\<close> holds the replies the finished jobs have produced. Every
  request is answered or dropped at most once and, while it is not, it is still in the engine; every
  reply on an operation's channel is that operation's result or an error of the coordination; a
  successful flush finds no older request unanswered.
\<close>

section \<open>A rule for the arms of the event loop\<close>

fun deferred :: "coordinator_event \<Rightarrow> pending_event option" where
  "deferred (Submission k op) = Some (PendingSubmission k op)"
| "deferred (Maintenance age s) = Some (PendingMaintenance age s)"
| "deferred (Flush s) = Some (PendingFlush s)"
| "deferred _ = None"

fun rejection :: "coordinator_event \<Rightarrow> (sender \<times> reply) list" where
  "rejection (Submission k op) = [deliver_error op StoreClosed]"
| "rejection (Maintenance age s) = [(s, Cleaned (Inl StoreClosed))]"
| "rejection (Flush s) = [(s, Finished (Inl StoreClosed))]"
| "rejection _ = []"

lemma handle_event_rule:
  assumes h: "handle_event iter config ev st = Some (st', check)"
    and live: "lifecycle st = Open \<or> lifecycle st = Closing"
    and micro: "\<And>s s'. micro config s s' \<Longrightarrow> P s \<Longrightarrow> P s'"
    and reject: "\<And>r. lifecycle st \<noteq> Open \<Longrightarrow> rejection ev = [r] \<Longrightarrow> P (answer r st)"
    and postpone: "\<And>p. lifecycle st = Open \<Longrightarrow> deferred ev = Some p \<Longrightarrow> P (st\<lparr>pending := pending st @ [p]\<rparr>)"
    and enq: "\<And>k op. ev = Submission k op \<Longrightarrow> pending st = [] \<Longrightarrow> \<not> maintenance_active st \<Longrightarrow> P (enqueue k op st)"
    and start: "\<And>k outcome. ev = Completion k outcome \<Longrightarrow> Q (st\<lparr>active := removeAll k (active st)\<rparr>)"
    and microQ: "\<And>s s'. micro config s s' \<Longrightarrow> Q s \<Longrightarrow> Q s'"
    and pruneQ: "\<And>s k. Q s \<Longrightarrow> Q (s\<lparr>queues := prune k (queues s)\<rparr>)"
    and lost: "\<And>s k. ev = Completion k None \<Longrightarrow> Q s \<Longrightarrow> P s"
    and delivered: "\<And>s k op res r. ev = Completion k (Some (op, res)) \<Longrightarrow> deliver op res = Some r \<Longrightarrow> Q s \<Longrightarrow> P (answer r s)"
    and cleaned: "\<And>s res. ev = MaintenanceCompletion (Some (s, res)) \<Longrightarrow>
      P (answer (s, Cleaned res) (st\<lparr>maintenance_active := False\<rparr>))"
    and uncleaned: "ev = MaintenanceCompletion None \<Longrightarrow> P (st\<lparr>maintenance_active := False\<rparr>)"
    and close: "\<And>s. ev = Close s \<Longrightarrow> P (st\<lparr>lifecycle := Closing, pending := pending st @ [PendingClose s]\<rparr>)"
  shows "P st'"
proof -
  have ms: "micros config s s' \<Longrightarrow> P s \<Longrightarrow> P s'" for s s' by (erule micros_invariant) (auto intro: micro)
  have msQ: "micros config s s' \<Longrightarrow> Q s \<Longrightarrow> Q s'" for s s' by (erule micros_invariant) (auto intro: microQ)
  have adv: "P (advance_pending_if_ready config s)" if "P s" for s by (rule ms [OF advance_pending_micros that])
  show ?thesis
  proof (cases ev)
    case (Submission k op)
    have "P (dispatch_available iter config (dispatch_if_idle config k (enqueue k op st)))"
      if "pending st = []" "\<not> maintenance_active st"
      by (rule ms [OF dispatch_available_micros ms [OF dispatch_if_idle_micros enq [OF Submission that]]])
    with h Submission reject postpone show ?thesis by (auto simp: on_submission_def split: if_splits)
  next
    case (Completion k outcome)
    have "Q (dispatch_available iter config (dispatch_if_idle config k (st\<lparr>active := removeAll k (active st)\<rparr>)))"
      by (rule msQ [OF dispatch_available_micros msQ [OF dispatch_if_idle_micros start [OF Completion]]])
    then have q: "Q (release_key iter config k st)" using pruneQ by (simp add: release_key_def Let_def)
    from h have "on_completion iter config k outcome st = Some (st', check)" by (simp add: Completion)
    then show ?thesis
    proof (cases rule: on_completion_cases)
      case 1
      with adv lost [OF _ q] Completion show ?thesis by blast
    next
      case (2 op res r)
      with adv delivered [OF _ _ q] Completion show ?thesis by blast
    qed
  next
    case (Maintenance age s)
    with h reject postpone adv show ?thesis by (auto simp: on_maintenance_def split: if_splits)
  next
    case (MaintenanceCompletion outcome)
    with h cleaned uncleaned adv show ?thesis
      by (auto simp: on_maintenance_completion_def Let_def split: option.splits)
  next
    case (Flush s)
    with h reject postpone adv show ?thesis by (auto simp: on_flush_def split: if_splits)
  next
    case (Close s)
    then have "st' = advance_pending_if_ready config
        (st\<lparr>lifecycle := Closing, pending := pending st @ [PendingClose s]\<rparr>)"
      using h live by (cases st) (auto simp: on_close_def)
    with adv close [OF Close] show ?thesis by blast
  qed
qed

section \<open>Accounts of the arms\<close>

lemma account_answer: "account run (answer r st) = add_mset (fst r) (account run st)"
  by (simp add: account_def owed_def settled_def answer_def)

lemma account_prune:
  assumes "distinct (map fst (queues st))"
  shows "account run (st\<lparr>queues := prune k (queues st)\<rparr>) = account run st"
  using queued_prune [OF assms, of k] by (simp add: account_def owed_def settled_def)

lemma account_enqueue: "account run (enqueue k op st) = add_mset (op_sender op) (account run st)"
  using account_queued [OF queued_put [of k "queues st" op]]
  by (simp add: account_def owed_def settled_def update_simps)

lemma account_defer: "account run (st\<lparr>pending := pending st @ [p]\<rparr>) = add_mset (pending_sender p) (account run st)"
  "account run (st\<lparr>lifecycle := l, pending := pending st @ [p]\<rparr>) = add_mset (pending_sender p) (account run st)"
  by (simp_all add: account_def owed_def settled_def)

lemma account_event:
  "account run (st\<lparr>inbox := ev # inbox st\<rparr>) = mset (event_senders ev) + account run st"
  by (simp add: account_def owed_def settled_def)

lemma account_frame [simp]:
  "account run (st\<lparr>active := a\<rparr>) = account run st" "account run (st\<lparr>maintenance_active := b\<rparr>) = account run st"
  by (simp_all add: account_def owed_def settled_def)

lemma rejection_sender: "rejection ev = [r] \<Longrightarrow> event_senders ev = [fst r]"
  by (cases ev) auto

lemma deferred_sender: "deferred ev = Some p \<Longrightarrow> event_senders ev = [pending_sender p]"
  by (cases ev) auto

lemma flight_defer: "flight_inv config run (st\<lparr>pending := p\<rparr>) = flight_inv config run st"
  "flight_inv config run (st\<lparr>lifecycle := l\<rparr>) = flight_inv config run st"
  "flight_inv config run (st\<lparr>maintenance_active := b\<rparr>) = flight_inv config run st"
  "flight_inv config run (answer r st) = flight_inv config run st"
  by (simp_all add: flight_inv_def flight_def answer_def)

lemma handle_event_account:
  assumes inv: "basic_inv config fin run (st\<lparr>inbox := ev # inbox st\<rparr>)"
    and h: "handle_event iter config ev st = Some (st', check)"
  shows "account run st' = account run (st\<lparr>inbox := ev # inbox st\<rparr>)"
proof -
  let ?A = "account run (st\<lparr>inbox := ev # inbox st\<rparr>)"
  have live: "lifecycle st = Open \<or> lifecycle st = Closing" using inv by (auto simp: basic_inv_def shape_inv_def)
  have f: "flight_inv config run st" if "\<forall>k x. ev \<noteq> Completion k x"
    using inv that by (cases ev) (auto simp: basic_inv_def flight_inv_def flight_def)
  have fc: "flight_inv config run (st\<lparr>active := removeAll k (active st)\<rparr>)" if "ev = Completion k outcome" for k outcome
    using basic_completion [where st = st and k = k] inv that by (simp add: basic_inv_def)
  define debt where "debt = mset (event_senders ev)"
  have "flight_inv config run st' \<and> account run st' = ?A"
  proof (rule handle_event_rule [OF h live, where Q = "\<lambda>s. flight_inv config run s \<and> debt + account run s = ?A"], goal_cases)
    case (1 s s')
    then show ?case using flight_micro account_micro by (metis flight_inv_def)
  next
    case (2 r)
    then show ?case using f rejection_sender [OF 2(2)]
      by (cases ev) (auto simp: flight_defer account_answer account_event)
  next
    case (3 p)
    then show ?case using f deferred_sender [OF 3(2)]
      by (cases ev) (auto simp: flight_defer account_defer account_event)
  next
    case (4 k op)
    then show ?case using f
      by (auto simp: account_enqueue account_event) (auto simp: enqueue_def flight_inv_def flight_def)
  next
    case (5 k outcome)
    then show ?case using fc by (auto simp: account_event debt_def)
  next
    case (6 s s')
    then show ?case using flight_micro account_micro by (metis flight_inv_def)
  next
    case (7 s k)
    then show ?case using account_prune [of s run k] by (auto simp: flight_inv_def flight_def)
  next
    case (8 s k)
    then show ?case by (simp add: debt_def)
  next
    case (9 s k op res r)
    then show ?case using deliver_sender [of op res "fst r" "snd r"] 
      by (simp add: debt_def account_answer flight_defer)
  next
    case (10 s res)
    then show ?case using f by (auto simp: account_answer account_event flight_defer)
  next
    case 11
    then show ?case using f by (auto simp: account_event flight_defer)
  next
    case (12 s)
    then show ?case using f by (auto simp: account_event account_defer flight_defer)
  qed
  then show ?thesis by simp
qed

lemma answer_closes_senders:
  "answer_closes outcome ps = (rs, rest) \<Longrightarrow> map pending_sender ps = map fst rs @ map pending_sender rest"
  by (induction outcome ps arbitrary: rs rule: answer_closes.induct) (auto simp: close_reply_def split: prod.splits)

lemma drained_senders:
  "mset (concat (map drain_dropped evs)) + mset (map fst (concat (map (drain_reply outcome) evs)))
     = mset (concat (map event_senders evs))"
proof (induction evs)
  case (Cons ev evs)
  have "mset (drain_dropped ev) + mset (map fst (drain_reply outcome ev)) = mset (event_senders ev)"
    by (cases ev rule: event_senders.cases) (auto simp: close_reply_def)
  with Cons show ?case by (simp add: ac_simps)
qed simp

lemma account_shut_down: "account run (shut_down st) = account run st"
proof -
  obtain outcome p where o: "pool_shutdown (pool st) = (outcome, p)" by fastforce
  then have j: "jobs p = jobs (pool st)" by (auto simp: pool_shutdown_def)
  obtain rs rest where c: "answer_closes outcome (pending st) = (rs, rest)" by fastforce
  note s = answer_closes_senders [OF c] drained_senders [of "inbox st" outcome]
  have "mset (map pending_sender (pending st)) = mset (map fst rs) + mset (map pending_sender rest)"
    unfolding s(1) by simp
  with s(2) j show ?thesis unfolding shut_down_def o c prod.case
    by (simp add: account_def owed_def settled_def ac_simps flip: s(2))
qed

lemma turn_account:
  assumes "basic_inv config fin run (st\<lparr>inbox := ev # inbox st\<rparr>)"
    and "scheduler_turn iter config ev st = Some (st', stopped)"
  shows "account run st' = account run (st\<lparr>inbox := ev # inbox st\<rparr>)"
  using assms(2) handle_event_account [OF assms(1)]
  by (auto simp: scheduler_turn_def account_shut_down split: option.splits if_splits)

section \<open>Weights\<close>

text \<open>A bound on the steps still to come: what is counted drops with every step of the coordinator
  and of the workers.\<close>

fun event_weight :: "coordinator_event \<Rightarrow> nat" where
  "event_weight (Completion k outcome) = 1"
| "event_weight (MaintenanceCompletion outcome) = 1"
| "event_weight _ = 6"

definition weight :: "job list \<Rightarrow> coordinator \<Rightarrow> nat" where
  "weight run st = sum_list (map event_weight (inbox st)) + 5 * length (pending st)
     + 4 * length (queued (queues st)) + 3 * length (jobs (pool st)) + 2 * length run"

lemma length_queued_take:
  "queue_of qs k = op # rest \<Longrightarrow> length (queued qs) = Suc (length (queued (AList.update k rest qs)))"
  using queued_take by (metis size_add_mset size_mset)

lemma length_queued_put: "length (queued (AList.update k (queue_of qs k @ [op]) qs)) = Suc (length (queued qs))"
  using queued_put by (metis size_add_mset size_mset)

lemma weight_micro:
  assumes "micro config st st'"
  shows "weight run st' \<le> weight run st"
  using assms
proof (cases rule: micro.cases)
  case (refuse k op rest e p)
  then show ?thesis
    using length_queued_take [of "queues st" k op rest] length_prune [of k "AList.update k rest (queues st)"]
    by (simp add: weight_def update_simps prepare_jobs)
next
  case (maintain age s rest)
  show ?thesis
    unfolding maintain(1)
    by (rule dispatch_maintenance_cases [of "st\<lparr>pending := rest, maintenance_active := True\<rparr>" age s])
      (use maintain(3) in \<open>auto simp: weight_def prepare_jobs update_simps\<close>)
qed (use length_queued_take in \<open>auto simp: weight_def prepare_jobs update_simps length_queued_put\<close>)

lemma handle_event_weight:
  assumes live: "lifecycle st = Open \<or> lifecycle st = Closing" and h: "handle_event iter config ev st = Some (st', check)"
  shows "weight run st' < weight run (st\<lparr>inbox := ev # inbox st\<rparr>)"
proof -
  have w: "weight run (st\<lparr>inbox := ev # inbox st\<rparr>) = event_weight ev + weight run st" by (simp add: weight_def)
  have e: "1 \<le> event_weight ev" by (cases ev) auto
  show ?thesis
    unfolding w
  proof (rule handle_event_rule [OF h live, where Q = "\<lambda>s. weight run s \<le> weight run st"], goal_cases)
    case (4 k op)
    then show ?case by (simp add: weight_def update_simps length_queued_put)
  next
    case (7 s k)
    then show ?case using length_prune [of k "queues s"] by (simp add: weight_def)
  qed (use weight_micro e in \<open>fastforce simp: weight_def answer_def elim: deferred.elims\<close>)+
qed

lemma turn_weight:
  assumes "lifecycle st = Open \<or> lifecycle st = Closing" and "scheduler_turn iter config ev st = Some (st', stopped)"
  shows "weight run st' < weight run (st\<lparr>inbox := ev # inbox st\<rparr>)"
proof -
  have "weight run (shut_down s) \<le> weight run s" for s
    by (auto simp: shut_down_def weight_def pool_shutdown_def split: prod.splits)
  with assms(2) handle_event_weight [OF assms(1)] show ?thesis
    by (fastforce simp: scheduler_turn_def split: option.splits if_splits intro: le_less_trans)
qed

end
