(* ===== verification/Scheduler_Origin.thy ===== *)
theory Scheduler_Origin
  imports Scheduler_Account
begin

text \<open>
  Every request the coordinator holds is one that was made, every reply belongs to the request whose
  channel it is sent on, no reply channel is dropped, and a flush succeeds only when every older
  request has been answered.
\<close>

section \<open>Origins\<close>

definition issued :: "coordinator_event list \<Rightarrow> sender \<Rightarrow> coordinator_event \<Rightarrow> bool" where
  "issued H s ev \<longleftrightarrow> s < length H \<and> H ! s = ev"

fun job_origin :: "coordinator_event list \<Rightarrow> job \<Rightarrow> bool" where
  "job_origin H (OperationJob k op) \<longleftrightarrow> issued H (op_sender op) (Submission k op)"
| "job_origin H (MaintenanceJob age s) \<longleftrightarrow> issued H s (Maintenance age s)"

fun pending_origin :: "coordinator_event list \<Rightarrow> pending_event \<Rightarrow> bool" where
  "pending_origin H (PendingSubmission k op) \<longleftrightarrow> issued H (op_sender op) (Submission k op)"
| "pending_origin H (PendingMaintenance age s) \<longleftrightarrow> issued H s (Maintenance age s)"
| "pending_origin H (PendingFlush s) \<longleftrightarrow> issued H s (Flush s)"
| "pending_origin H (PendingClose s) \<longleftrightarrow> issued H s (Close s)"

fun event_origin :: "coordinator_event list \<Rightarrow> (sender \<times> reply) set \<Rightarrow> coordinator_event \<Rightarrow> bool" where
  "event_origin H R (Submission k op) \<longleftrightarrow> issued H (op_sender op) (Submission k op)"
| "event_origin H R (Completion k (Some (op, res))) \<longleftrightarrow>
     (\<exists>r op0. deliver op res = Some r \<and> r \<in> R \<and> issued H (fst r) (Submission k op0))"
| "event_origin H R (Completion k None) \<longleftrightarrow> True"
| "event_origin H R (Maintenance age s) \<longleftrightarrow> issued H s (Maintenance age s)"
| "event_origin H R (MaintenanceCompletion (Some (s, res))) \<longleftrightarrow> (\<exists>age. issued H s (Maintenance age s))"
| "event_origin H R (MaintenanceCompletion None) \<longleftrightarrow> True"
| "event_origin H R (Flush s) \<longleftrightarrow> issued H s (Flush s)"
| "event_origin H R (Close s) \<longleftrightarrow> issued H s (Close s)"

text \<open>Errors an operation can end with although no worker ran it.\<close>

definition coordination_error :: "store_error \<Rightarrow> bool" where
  "coordination_error e \<longleftrightarrow> e = StoreClosed \<or> e = WorkerUnavailable"

text \<open>A close is answered at the end only, with the lifecycle the store ends in.\<close>

definition reply_origin ::
    "coordinator_event list \<Rightarrow> (sender \<times> reply) set \<Rightarrow> lifecycle \<Rightarrow> sender \<times> reply \<Rightarrow> bool" where
  "reply_origin H R L r \<longleftrightarrow>
     (\<exists>k op. issued H (fst r) (Submission k op)
        \<and> (r \<in> R \<or> (\<exists>e. coordination_error e \<and> r = deliver_error op e)))
     \<or> (\<exists>age x. issued H (fst r) (Maintenance age (fst r)) \<and> snd r = Cleaned x)
     \<or> issued H (fst r) (Flush (fst r)) \<and> snd r \<in> {Finished (Inr ()), Finished (Inl StoreClosed)}
     \<or> issued H (fst r) (Close (fst r)) \<and> (L = Closed \<and> snd r = Finished (Inr ())
        \<or> L = ShutdownFailed \<and> snd r = Finished (Inl ShutdownFailure))"

definition origin_inv ::
    "coordinator_event list \<Rightarrow> (sender \<times> reply) set \<Rightarrow> job list \<Rightarrow> coordinator \<Rightarrow> bool" where
  "origin_inv H R run st \<longleftrightarrow>
     list_all (event_origin H R) (inbox st) \<and> list_all (pending_origin H) (pending st)
     \<and> (\<forall>k. list_all (\<lambda>op. issued H (op_sender op) (Submission k op)) (queue_of (queues st) k))
     \<and> list_all (job_origin H) (jobs (pool st) @ run) \<and> list_all (reply_origin H R (lifecycle st)) (replies st)"

lemma issued_append: "issued H s ev \<Longrightarrow> issued (H @ X) s ev"
  by (simp add: issued_def nth_append)

lemma issued_unique: "issued H s ev \<Longrightarrow> issued H s ev' \<Longrightarrow> ev = ev'"
  by (simp add: issued_def)

lemma refuse_origin:
  "issued H (op_sender op) (Submission k op) \<Longrightarrow> coordination_error e \<Longrightarrow> reply_origin H R L (deliver_error op e)"
  unfolding reply_origin_def deliver_error_sender by blast

lemma store_closed_coordination [simp]: "coordination_error StoreClosed"
  by (simp add: coordination_error_def)

lemma simple_origin:
  "issued H s (Maintenance age s) \<Longrightarrow> reply_origin H R L (s, Cleaned x)"
  "issued H s (Flush s) \<Longrightarrow> reply_origin H R L (s, Finished (Inl StoreClosed))"
  by (auto simp: reply_origin_def)

lemma reply_origin_live:
  "reply_origin H R L r \<Longrightarrow> L \<noteq> Closed \<Longrightarrow> L \<noteq> ShutdownFailed \<Longrightarrow> reply_origin H R L' r"
  by (auto simp: reply_origin_def)

lemma origin_micro:
  assumes "micro config st st'" and "origin_inv H R run st" and "distinct (map fst (queues st))"
  shows "origin_inv H R run st'"
  using assms(1)
proof (cases rule: micro.cases)
  case (start k op rest p)
  have "issued H (op_sender op) (Submission k op)" "list_all (\<lambda>op. issued H (op_sender op) (Submission k op)) rest"
    using assms(2) start(4) by (auto simp: origin_inv_def dest: spec [of _ k])
  with start assms(2) show ?thesis by (auto simp: origin_inv_def prepare_jobs queue_of_update)
next
  case (lose k op rest p)
  have "list_all (\<lambda>op. issued H (op_sender op) (Submission k op)) rest"
    using assms(2) lose(4) by (auto simp: origin_inv_def dest: spec [of _ k])
  with lose assms(2) show ?thesis by (auto simp: origin_inv_def prepare_jobs queue_of_update update_simps)
next
  case (refuse k op rest e p)
  have i: "issued H (op_sender op) (Submission k op)" "list_all (\<lambda>op. issued H (op_sender op) (Submission k op)) rest"
    using assms(2) refuse(4) by (auto simp: origin_inv_def dest: spec [of _ k])
  have "e = WorkerUnavailable" using prepare_error [OF refuse(5)] by simp
  with refuse_origin [OF i(1)] have "reply_origin H R L (deliver_error op e)" for L by (simp add: coordination_error_def)
  with i refuse assms(2,3) show ?thesis
    by (auto simp: origin_inv_def prepare_jobs queue_of_update queue_of_prune update_simps)
next
  case (admit k op rest)
  with assms(2) show ?thesis by (auto simp: origin_inv_def queue_of_update update_simps)
next
  case (flush s rest)
  with assms(2) show ?thesis by (auto simp: origin_inv_def reply_origin_def update_simps)
next
  case (maintain age s rest)
  show ?thesis
    unfolding maintain(1)
    by (rule dispatch_maintenance_cases [of "st\<lparr>pending := rest, maintenance_active := True\<rparr>" age s])
      (use maintain(3) assms(2) in \<open>auto simp: origin_inv_def reply_origin_def prepare_jobs update_simps\<close>)
qed

section \<open>Barriers\<close>

definition barrier_inv :: "coordinator_event list \<Rightarrow> job list \<Rightarrow> coordinator \<Rightarrow> bool" where
  "barrier_inv H run st \<longleftrightarrow>
     (\<forall>s. issued H s (Flush s) \<and> (s, Finished (Inr ())) \<in> set (replies st) \<longrightarrow> (\<forall>x \<in># owed run st. s < x))"

lemma settled_micro: "micro config st st' \<Longrightarrow> settled st \<subseteq># settled st'"
proof (induction rule: micro.induct)
  case (maintain st age s rest)
  show ?case
    by (rule dispatch_maintenance_cases [of "st\<lparr>pending := rest, maintenance_active := True\<rparr>" age s])
      (auto simp: settled_def update_simps)
qed (auto simp: settled_def update_simps)

lemma owed_shrinks:
  assumes "account run st' = account run st" and "settled st \<subseteq># settled st'"
  shows "owed run st' \<subseteq># owed run st"
proof -
  obtain D where D: "settled st' = settled st + D" using assms(2) by (auto simp: mset_subset_eq_exists_conv)
  with assms(1) have "(owed run st' + D) + settled st = owed run st + settled st"
    by (simp add: account_def ac_simps)
  then have "owed run st' + D = owed run st" by (rule add_right_imp_eq)
  then show ?thesis by (metis mset_subset_eq_add_left)
qed

lemma owed_micro:
  "micro config st st' \<Longrightarrow> distinct (map fst (queues st)) \<Longrightarrow> owed run st' \<subseteq># owed run st"
  by (rule owed_shrinks [OF account_micro settled_micro])

lemma idle_nothing_running:
  assumes "idle st" and "flight_inv config run st" and "maintenance_inv run st"
  shows "jobs (pool st) @ run = [] \<and> queued (queues st) = []
    \<and> list_all (\<lambda>ev. (\<forall>k x. ev \<noteq> Completion k x) \<and> (\<forall>x. ev \<noteq> MaintenanceCompletion x)) (inbox st)"
proof -
  have f: "flight run st = []" using assms(1,2) by (simp add: idle_def flight_inv_def)
  have m: "maintenances run st = 0" using assms(1,3) by (simp add: idle_def maintenance_inv_def)
  have "j \<notin> set (jobs (pool st) @ run)" for j
    using f m by (cases j) (fastforce simp: flight_def maintenances_def filter_empty_conv)+
  then have "jobs (pool st) @ run = []" by (metis last_in_set)
  moreover have "queued (queues st) = []"
    using assms(1) by (auto simp: idle_def queues_empty_def queued_def list_all_iff)
  moreover have "list_all (\<lambda>ev. (\<forall>k x. ev \<noteq> Completion k x) \<and> (\<forall>x. ev \<noteq> MaintenanceCompletion x)) (inbox st)"
    using f m by (fastforce simp: flight_def maintenances_def filter_empty_conv list_all_iff)
  ultimately show ?thesis by blast
qed

lemma client_senders_eq:
  "(\<forall>k x. ev \<noteq> Completion k x) \<Longrightarrow> (\<forall>x. ev \<noteq> MaintenanceCompletion x) \<Longrightarrow> client_senders ev = event_senders ev"
  by (cases ev) auto

lemma idle_owed:
  assumes "idle st" and "flight_inv config run st" and "maintenance_inv run st"
  shows "owed run st = mset (waiting st)"
proof -
  have "concat (map event_senders (inbox st)) = concat (map client_senders (inbox st))"
    using idle_nothing_running [OF assms]
    by (intro arg_cong [where f = concat] map_cong) (auto simp: list_all_iff client_senders_eq)
  then show ?thesis using idle_nothing_running [OF assms] by (simp add: owed_def waiting_def)
qed

lemma barrier_mono:
  assumes "barrier_inv H run st" and "owed run st' \<subseteq># owed run st"
    and "\<And>s. issued H s (Flush s) \<Longrightarrow> (s, Finished (Inr ())) \<in> set (replies st') - set (replies st) \<Longrightarrow>
      \<forall>x \<in># owed run st'. s < x"
  shows "barrier_inv H run st'"
  using assms by (fastforce simp: barrier_inv_def dest: mset_subset_eqD)

lemma barrier_micro:
  assumes m: "micro config st st'" and b: "barrier_inv H run st" and o: "origin_inv H R run st"
    and "flight_inv config run st" and "maintenance_inv run st" and "order_inv fin run st"
  shows "barrier_inv H run st'"
proof (rule barrier_mono [OF b])
  have d: "distinct (map fst (queues st))" using assms(4) by (simp add: flight_inv_def)
  show "owed run st' \<subseteq># owed run st" by (rule owed_micro [OF m d])
  fix s
  assume i: "issued H s (Flush s)" and n: "(s, Finished (Inr ())) \<in> set (replies st') - set (replies st)"
  show "\<forall>x \<in># owed run st'. s < x"
    using m
  proof (cases rule: micro.cases)
    case (start k op rest p)
    then show ?thesis using n by simp
  next
    case (lose k op rest p)
    then show ?thesis using n by (simp add: update_simps)
  next
    case (refuse k op rest e p)
    then have "deliver_error op e = (s, Finished (Inr ()))" using n by (auto simp: update_simps)
    then have "s = op_sender op" by (metis deliver_error_sender fst_conv)
    then have "issued H s (Submission k op)" using o refuse(4) by (auto simp: origin_inv_def dest: spec [of _ k])
    with i have False using issued_unique by blast
    then show ?thesis ..
  next
    case (admit k op rest)
    then show ?thesis using n by (simp add: update_simps)
  next
    case (flush s' rest)
    then have s: "s' = s" using n by (auto simp: update_simps)
    have "owed run st = mset (waiting st)" by (rule idle_owed [OF flush(2) assms(4,5)])
    moreover have "waiting st = s # waiting st'" using flush s by (simp add: waiting_def update_simps)
    moreover have "owed run st = add_mset s (owed run st')" using flush s by (simp add: owed_def update_simps)
    moreover have "sorted_wrt (<) (waiting st)" using assms(6) by (simp add: order_inv_def)
    ultimately show ?thesis by simp
  next
    case (maintain age s' rest)
    have "replies st' = replies st \<or> (\<exists>e. replies st' = replies st @ [(s', Cleaned (Inl e))])"
      unfolding maintain(1)
      by (rule dispatch_maintenance_cases [of "st\<lparr>pending := rest, maintenance_active := True\<rparr>" age s'])
        (auto simp: update_simps)
    then show ?thesis using n by auto
  qed
qed

section \<open>All invariants of a turn\<close>

definition coord_inv ::
    "store_config \<Rightarrow> coordinator_event list \<Rightarrow> (sender \<times> reply) set \<Rightarrow> (bytes \<Rightarrow> sender list) \<Rightarrow> job list
     \<Rightarrow> coordinator \<Rightarrow> bool" where
  "coord_inv config H R fin run st \<longleftrightarrow>
     basic_inv config fin run st \<and> origin_inv H R run st \<and> barrier_inv H run st \<and> dropped st = []"

lemma coord_micro: "micro config st st' \<Longrightarrow> coord_inv config H R fin run st \<Longrightarrow> coord_inv config H R fin run st'"
proof -
  assume m: "micro config st st'" and c: "coord_inv config H R fin run st"
  have b: "basic_inv config fin run st" and o: "origin_inv H R run st" and r: "barrier_inv H run st"
    and k: "dropped st = []" using c by (simp_all add: coord_inv_def)
  have inv: "flight_inv config run st" "maintenance_inv run st" "order_inv fin run st" "pool_inv config st"
    and d: "distinct (map fst (queues st))" using b by (auto simp: basic_inv_def flight_inv_def)
  have "dropped st' = []"
    using m
  proof (cases rule: micro.cases)
    case (lose k op rest p)
    with inv(4) prepare_jobs(2) [OF lose(5)] show ?thesis by (simp add: pool_inv_def)
  next
    case (maintain age s rest)
    show ?thesis
      unfolding maintain(1)
      by (rule dispatch_maintenance_cases [of "st\<lparr>pending := rest, maintenance_active := True\<rparr>" age s])
        (use k inv(4) in \<open>auto simp: update_simps pool_inv_def prepare_jobs\<close>)
  qed (use k in \<open>auto simp: update_simps\<close>)
  then show ?thesis
    using basic_micro [OF m b] origin_micro [OF m o d] barrier_micro [OF m r o inv(1-3)] by (simp add: coord_inv_def)
qed

lemma owed_event: "owed run (st\<lparr>inbox := ev # inbox st\<rparr>) = mset (event_senders ev) + owed run st"
  by (simp add: owed_def)

lemma owed_frame [simp]:
  "owed run (answer r st) = owed run st" "owed run (st\<lparr>active := a\<rparr>) = owed run st"
  "owed run (st\<lparr>maintenance_active := b\<rparr>) = owed run st"
  by (simp_all add: owed_def answer_def)

lemma owed_entry:
  "owed run (st\<lparr>pending := pending st @ [p]\<rparr>) = add_mset (pending_sender p) (owed run st)"
  "owed run (st\<lparr>lifecycle := l, pending := pending st @ [p]\<rparr>) = add_mset (pending_sender p) (owed run st)"
  "owed run (enqueue k op st) = add_mset (op_sender op) (owed run st)"
  using account_queued [OF queued_put [of k "queues st" op]] by (simp_all add: owed_def update_simps)

lemma deliver_error_not_ok: "deliver_error op e \<noteq> (s, Finished (Inr u))"
  by (cases op) auto

text \<open>Entering an arm keeps the origins and the barriers.\<close>

lemma coord_entry:
  assumes c: "coord_inv config H R fin run (st\<lparr>inbox := ev # inbox st\<rparr>)" and b: "basic_inv config fin run e"
    and "origin_inv H R run e" and "owed run e \<subseteq># mset (event_senders ev) + owed run st"
    and "\<And>s. issued H s (Flush s) \<Longrightarrow> (s, Finished (Inr ())) \<in> set (replies e) \<Longrightarrow> (s, Finished (Inr ())) \<in> set (replies st)"
    and "dropped e = dropped st"
  shows "coord_inv config H R fin run e"
proof -
  have "barrier_inv H run e"
    by (rule barrier_mono [of H run "st\<lparr>inbox := ev # inbox st\<rparr>"])
      (use c assms(4,5) in \<open>auto simp: coord_inv_def owed_event\<close>)
  then show ?thesis using assms by (simp add: coord_inv_def)
qed

lemma coord_answer:
  assumes "coord_inv config H R fin run st" and "reply_origin H R (lifecycle st) r"
    and "\<And>s. issued H s (Flush s) \<Longrightarrow> r \<noteq> (s, Finished (Inr ()))"
  shows "coord_inv config H R fin run (answer r st)"
  using assms by (auto simp: coord_inv_def origin_inv_def barrier_inv_def) (auto simp: answer_def)

lemma rejection_origin:
  assumes "rejection ev = [r]" and "event_origin H R ev"
  shows "reply_origin H R L r \<and> r \<noteq> (s, Finished (Inr ()))"
  using assms by (cases ev) (auto simp: deliver_error_not_ok intro: refuse_origin simple_origin)

lemma deferred_origin: "deferred ev = Some p \<Longrightarrow> event_origin H R ev \<Longrightarrow> pending_origin H p \<and> client_senders ev = [pending_sender p]
    \<and> event_senders ev = [pending_sender p] \<and> (\<forall>s. p \<noteq> PendingClose s)"
  by (cases ev) auto

lemma coord_prune:
  assumes "coord_inv config H R fin run st"
  shows "coord_inv config H R fin run (st\<lparr>queues := prune k (queues st)\<rparr>)"
proof -
  have d: "distinct (map fst (queues st))" using assms by (simp add: coord_inv_def basic_inv_def flight_inv_def)
  have "owed run (st\<lparr>queues := prune k (queues st)\<rparr>) = owed run st"
    using queued_prune [OF d, of k] by (simp add: owed_def)
  with assms basic_prune [of config fin run st k] show ?thesis
    by (simp add: coord_inv_def barrier_inv_def origin_inv_def queue_of_prune [OF d])
qed

lemma handle_event_coord:
  assumes c: "coord_inv config H R fin run (st\<lparr>inbox := ev # inbox st\<rparr>)"
    and h: "handle_event iter config ev st = Some (st', check)"
  shows "coord_inv config H R fin run st'"
proof -
  have b: "basic_inv config fin run (st\<lparr>inbox := ev # inbox st\<rparr>)" and o: "event_origin H R ev" "origin_inv H R run st"
    using c by (auto simp: coord_inv_def origin_inv_def)
  have live: "lifecycle st = Open \<or> lifecycle st = Closing" using b by (auto simp: basic_inv_def shape_inv_def)
  have st: "coord_inv config H R fin run st" if "\<forall>k x. ev \<noteq> Completion k x" "\<forall>x. ev \<noteq> MaintenanceCompletion x"
    by (rule coord_entry [OF c basic_client_event [OF b that] o(2)]) auto
  have mc: "coord_inv config H R fin run (st\<lparr>maintenance_active := False\<rparr>)" if "ev = MaintenanceCompletion x" for x
    by (rule coord_entry [OF c basic_maintenance_completion])
      (use b that o(2) in \<open>auto simp: origin_inv_def\<close>)
  show ?thesis
  proof (rule handle_event_rule [OF h live, where Q = "coord_inv config H R fin run"], goal_cases)
    case (1 s s')
    then show ?case by (rule coord_micro)
  next
    case (2 r)
    from rejection_origin [OF 2(2) o(1)] show ?case
      by (intro coord_answer [OF st]) (use 2(2) in auto)
  next
    case (3 p)
    note d = deferred_origin [OF 3(2) o(1)]
    show ?case
      by (rule coord_entry [OF c basic_defer [OF b]]) (use d 3(1) o(2) in \<open>auto simp: origin_inv_def owed_entry\<close>)
  next
    case (4 k op)
    show ?case
      by (rule coord_entry [OF c basic_enqueue])
        (use b o 4 in \<open>auto simp: origin_inv_def owed_entry\<close>, auto simp: enqueue_def queue_of_update)
  next
    case (5 k outcome)
    show ?case
      by (rule coord_entry [OF c basic_completion]) (use b 5 o(2) in \<open>auto simp: origin_inv_def\<close>)
  next
    case (6 s s')
    then show ?case by (rule coord_micro)
  next
    case (7 s k)
    then show ?case by (rule coord_prune)
  next
    case (8 s k)
    then show ?case by simp
  next
    case (9 s k op res r)
    with o(1) obtain op0 where "r \<in> R" "issued H (fst r) (Submission k op0)" by auto
    with 9 show ?case by (intro coord_answer) (auto simp: reply_origin_def dest: issued_unique)
  next
    case (10 s res)
    with o(1) show ?case by (intro coord_answer mc [OF 10]) (auto simp: reply_origin_def)
  next
    case 11
    then show ?case by (rule mc)
  next
    case (12 s)
    show ?case
      by (rule coord_entry [OF c basic_close])
        (use b o 12 live reply_origin_live [of H R "lifecycle st"] in \<open>auto simp: origin_inv_def owed_entry list_all_iff\<close>)
  qed
qed

text \<open>No event makes the coordinator panic.\<close>

lemma handle_event_returns:
  assumes "event_origin H R ev"
  shows "handle_event iter config ev st \<noteq> None"
proof (cases ev)
  case (Completion k outcome)
  show ?thesis
  proof (cases outcome)
    case (Some x)
    with assms Completion obtain r where "deliver (fst x) (snd x) = Some r" by (cases x) auto
    with Some Completion show ?thesis by (cases x) (simp add: on_completion_def Let_def)
  qed (simp add: Completion on_completion_def Let_def)
qed auto

lemma scheduler_turn_returns:
  assumes "event_origin H R ev"
  shows "\<exists>st' stopped. scheduler_turn iter config ev st = Some (st', stopped)"
  using handle_event_returns [OF assms, of iter config st] by (auto simp: scheduler_turn_def)

section \<open>The end\<close>

text \<open>What holds once the coordinator has returned.\<close>

definition closed_inv :: "coordinator_event list \<Rightarrow> (sender \<times> reply) set \<Rightarrow> job list \<Rightarrow> coordinator \<Rightarrow> bool" where
  "closed_inv H R run st \<longleftrightarrow> (lifecycle st = Closed \<or> lifecycle st = ShutdownFailed) \<and> active st = []
     \<and> inbox st = [] \<and> jobs (pool st) @ run = [] \<and> owed run st = {#} \<and> dropped st = [] \<and> list_all (reply_origin H R (lifecycle st)) (replies st)"

lemma answer_closes_all: "closes ps \<Longrightarrow> answer_closes outcome ps = (map (\<lambda>p. close_reply outcome (pending_sender p)) ps, [])"
  by (induction outcome ps rule: answer_closes.induct) auto

lemma close_first_closes:
  assumes "shape_inv st" and "close_first st"
  shows "closes (pending st) \<and> lifecycle st = Closing"
proof -
  obtain s rest where p: "pending st = PendingClose s # rest"
    using assms(2) by (auto simp: close_first_def split: list.splits pending_event.splits)
  with assms(1) obtain xs ys where "lifecycle st = Closing" "pending st = xs @ ys" "closeless xs" "closes ys"
    by (auto simp: shape_inv_def)
  moreover from this p have "xs = []" by (cases xs) auto
  ultimately show ?thesis by simp
qed

lemma close_reply_origin:
  "issued H s (Close s) \<Longrightarrow> reply_origin H R (end_lifecycle outcome) (close_reply outcome s)"
  by (auto simp: reply_origin_def close_reply_def end_lifecycle_def)

lemma drain_reply_origin:
  assumes "event_origin H R ev"
  shows "list_all (reply_origin H R (end_lifecycle outcome)) (drain_reply outcome ev)"
  using assms by (cases ev) (auto intro: refuse_origin simple_origin close_reply_origin)

lemma drain_dropped_client:
  "(\<forall>k x. ev \<noteq> Completion k x) \<Longrightarrow> (\<forall>x. ev \<noteq> MaintenanceCompletion x) \<Longrightarrow> drain_dropped ev = []"
  by (cases ev) auto

lemma shut_down_closed:
  assumes c: "coord_inv config H R fin run st" and "close_ready st"
  shows "closed_inv H R run (shut_down st)"
proof -
  have inv: "flight_inv config run st" "maintenance_inv run st" "shape_inv st" "origin_inv H R run st" "dropped st = []"
    using c by (auto simp: coord_inv_def basic_inv_def)
  have i: "idle st" "close_first st" using assms(2) by (simp_all add: close_ready_iff)
  note quiet = idle_nothing_running [OF i(1) inv(1,2)]
  note cl = close_first_closes [OF inv(3) i(2)]
  obtain outcome p where o: "pool_shutdown (pool st) = (outcome, p)" by fastforce
  have j: "jobs p = jobs (pool st)" using o by (auto simp: pool_shutdown_def)
  have "concat (map drain_dropped (inbox st)) = []"
    using quiet by (auto simp: list_all_iff drain_dropped_client)
  moreover have "list_all (reply_origin H R (end_lifecycle outcome)) (concat (map (drain_reply outcome) (inbox st)))"
    using inv(4) drain_reply_origin by (fastforce simp: origin_inv_def list_all_iff)
  moreover have "list_all (reply_origin H R (end_lifecycle outcome)) (map (\<lambda>p. close_reply outcome (pending_sender p)) (pending st))"
    using inv(4) cl close_reply_origin by (fastforce simp: origin_inv_def list_all_iff closes_def)
  moreover have "list_all (reply_origin H R (end_lifecycle outcome)) (replies st)"
    using inv(4) cl reply_origin_live [of H R Closing] by (auto simp: origin_inv_def list_all_iff)
  ultimately show ?thesis
    using quiet cl inv i(1) j
    unfolding shut_down_def o prod.case answer_closes_all [OF conjunct1 [OF cl]]
    by (auto simp: closed_inv_def owed_def idle_def origin_inv_def end_lifecycle_def)
qed

lemma turn_coord:
  assumes "coord_inv config H R fin run (st\<lparr>inbox := ev # inbox st\<rparr>)"
    and "scheduler_turn iter config ev st = Some (st', stopped)"
  shows "if stopped then closed_inv H R run st' else coord_inv config H R fin run st'"
proof -
  from assms(2) obtain st1 check where h: "handle_event iter config ev st = Some (st1, check)"
      and s: "if check \<and> close_ready st1 then st' = shut_down st1 \<and> stopped else st' = st1 \<and> \<not> stopped"
    by (auto simp: scheduler_turn_def split: option.splits if_splits)
  from handle_event_coord [OF assms(1) h] shut_down_closed s show ?thesis
    by (auto split: if_splits)
qed

end
