(* ===== verification/Engine.thy ===== *)
theory Engine
  imports Scheduler_Origin
begin

text \<open>
  The engine, \<^verbatim>\<open>src/engine/mod.rs\<close>: the handle the facades share, the results they wait for, and
  the whole as a transition system of clients, the coordinator thread and the workers.

  A client call is one step: it holds the lifecycle lock from its check to its send, and only the
  coordinator changes the lifecycle. A worker runs a job in one step at the moment it finishes: the
  operations on different keys touch different files. \<open>requests\<close> and \<open>finished\<close> are histories; the
  request number \<open>s\<close> has the reply channel \<open>s\<close>.
\<close>

section \<open>State\<close>

text \<open>The coordinator thread: it runs, unwinds after a panic, or has ended (by a panic or not).\<close>

datatype thread_state = Running | Unwinding | Exited bool

datatype join_outcome = Joined | Panicked

record coordinator_join =
  join_handle :: bool
  join_outcome :: "join_outcome option"

record 'x engine =
  coord :: coordinator
  thread :: thread_state
  running :: "job list"
  disk :: "'x world"
  clients :: bool
  joined :: coordinator_join
  requests :: "coordinator_event list"
  finished :: "((bytes \<times> operation) \<times> (blocking_result \<times> bytes list)) list"

section \<open>Opening\<close>

definition coordinator_init :: "worker_pool \<Rightarrow> coordinator" where
  "coordinator_init p = \<lparr>queues = [], active = [], pending = [], maintenance_active = False, lifecycle = Open,
     pool = p, inbox = [], replies = [], dropped = []\<rparr>"

text \<open>\<open>spawn\<close> is the result of starting the coordinator thread.\<close>

definition from_config ::
    "bool list \<Rightarrow> bool \<Rightarrow> io_error + unit \<Rightarrow> store_config \<Rightarrow> 'x world \<Rightarrow> store_error + 'x engine" where
  "from_config spawn_failures panics spawn config w =
    (case pool_new (cfg_max_concurrent config) spawn_failures panics of
       Inl e \<Rightarrow> Inl e
     | Inr p \<Rightarrow>
         (case spawn of
            Inl source \<Rightarrow> Inl (Io StartCoordinator source)
          | Inr _ \<Rightarrow>
              Inr \<lparr>coord = coordinator_init p, thread = Running, running = [], disk = w, clients = True,
                   joined = \<lparr>join_handle = True, join_outcome = None\<rparr>, requests = [], finished = []\<rparr>))"

definition open_store ::
    "bool list \<Rightarrow> bool \<Rightarrow> io_error + unit \<Rightarrow> path \<Rightarrow> string \<Rightarrow> store_options \<Rightarrow> 'x world
     \<Rightarrow> (store_error + store_config \<times> 'x engine) \<times> 'x world" where
  "open_store spawn_failures panics spawn root name options w =
    (case validate_namespace name of
       Inl e \<Rightarrow> (Inl e, w)
     | Inr component \<Rightarrow>
         (case validate_maximum (max_blob_size options) of
            Inl e \<Rightarrow> (Inl e, w)
          | Inr _ \<Rightarrow>
              (case initialize_platform root component (opt_format options) (max_blob_size options)
                      (max_concurrent_operations options) w of
                 (Inl e, w') \<Rightarrow> (Inl e, w')
               | (Inr config, w') \<Rightarrow>
                   (case from_config spawn_failures panics spawn config w' of
                      Inl e \<Rightarrow> (Inl e, w')
                    | Inr en \<Rightarrow> (Inr (config, en), w')))))"

section \<open>Pending results\<close>

text \<open>
  \<^verbatim>\<open>Pending<T>\<close>: where the result comes from and what its completion does. \<open>failing\<close> is \<^verbatim>\<open>Err\<close> at the
  type of the result.
\<close>

datatype channel = Ready reply | Channel sender

record pending_result =
  receiver :: channel
  failing :: "store_error \<Rightarrow> reply"
  by_lifecycle :: bool
  joins :: bool

definition pending_new :: "(store_error \<Rightarrow> reply) \<Rightarrow> sender \<Rightarrow> pending_result" where
  "pending_new f s = \<lparr>receiver = Channel s, failing = f, by_lifecycle = False, joins = False\<rparr>"

definition with_disconnected :: "(store_error \<Rightarrow> reply) \<Rightarrow> sender \<Rightarrow> pending_result" where
  "with_disconnected f s = \<lparr>receiver = Channel s, failing = f, by_lifecycle = True, joins = False\<rparr>"

definition with_after :: "pending_result \<Rightarrow> pending_result" where
  "with_after p = p\<lparr>joins := True\<rparr>"

definition resolved :: "(store_error \<Rightarrow> reply) \<Rightarrow> reply \<Rightarrow> pending_result" where
  "resolved f r = \<lparr>receiver = Ready r, failing = f, by_lifecycle = False, joins = False\<rparr>"

text \<open>What a close reports when its channel is disconnected, or could not be reached.\<close>

fun close_outcome :: "lifecycle \<Rightarrow> store_error + unit" where
  "close_outcome Closed = Inr ()"
| "close_outcome ShutdownFailed = Inl ShutdownFailure"
| "close_outcome Failed = Inl ShutdownFailure"
| "close_outcome Open = Inl EngineFailed"
| "close_outcome Closing = Inl EngineFailed"

text \<open>The outer \<open>None\<close> is a receiver that still waits, the inner one a disconnected channel.\<close>

fun receive :: "channel \<Rightarrow> 'x engine \<Rightarrow> reply option option" where
  "receive (Ready r) en = Some (Some r)"
| "receive (Channel s) en =
    (case map_of (replies (coord en)) s of
       Some r \<Rightarrow> Some (Some r)
     | None \<Rightarrow> if s \<in> set (dropped (coord en)) then Some None else None)"

datatype 'x waited = Blocks | Panics | Returns reply "'x engine"

definition finish_join :: "reply \<Rightarrow> 'x engine \<Rightarrow> 'x waited" where
  "finish_join r en =
    (let conclude = (\<lambda>out e. Returns (case out of Joined \<Rightarrow> r | Panicked \<Rightarrow> Finished (Inl ShutdownFailure)) e)
     in case join_outcome (joined en) of
          Some out \<Rightarrow> conclude out en
        | None \<Rightarrow>
            if \<not> join_handle (joined en) then Panics
            else case thread en of
              Exited panicked \<Rightarrow>
                (let out = (if panicked then Panicked else Joined)
                 in conclude out (en\<lparr>joined := \<lparr>join_handle = False, join_outcome = Some out\<rparr>\<rparr>))
            | _ \<Rightarrow> Blocks)"

definition wait_pending :: "pending_result \<Rightarrow> 'x engine \<Rightarrow> 'x waited" where
  "wait_pending p en =
    (case receive (receiver p) en of
       None \<Rightarrow> Blocks
     | Some got \<Rightarrow>
         let r = (case got of
                    Some r \<Rightarrow> r
                  | None \<Rightarrow> if by_lifecycle p then Finished (close_outcome (lifecycle (coord en)))
                           else failing p EngineFailed)
         in if joins p then finish_join r en else Returns r en)"

section \<open>Client calls\<close>

fun ensure_open :: "lifecycle \<Rightarrow> store_error + unit" where
  "ensure_open Open = Inr ()"
| "ensure_open Failed = Inl EngineFailed"
| "ensure_open _ = Inl StoreClosed"

text \<open>Sending fails once the receiver is dropped, at the end of the coordinator thread.\<close>

definition send_request :: "coordinator_event \<Rightarrow> 'x engine \<Rightarrow> 'x engine option" where
  "send_request ev en =
    (case thread en of
       Exited _ \<Rightarrow> None
     | _ \<Rightarrow> Some (en\<lparr>coord := send ev (coord en), requests := requests en @ [ev]\<rparr>))"

definition submit_operation :: "bytes \<Rightarrow> operation \<Rightarrow> 'x engine \<Rightarrow> (store_error + unit) \<times> 'x engine" where
  "submit_operation k op en =
    (case ensure_open (lifecycle (coord en)) of
       Inl e \<Rightarrow> (Inl e, en)
     | Inr _ \<Rightarrow>
         (case send_request (Submission k op) en of
            None \<Rightarrow> (Inl EngineFailed, en)
          | Some en' \<Rightarrow> (Inr (), en')))"

definition submit ::
    "(store_error \<Rightarrow> reply) \<Rightarrow> bytes \<Rightarrow> operation \<Rightarrow> 'x engine \<Rightarrow> pending_result \<times> 'x engine" where
  "submit f k op en =
    (case lifecycle (coord en) of
       Open \<Rightarrow>
         (case send_request (Submission k op) en of
            None \<Rightarrow> (resolved f (f EngineFailed), en)
          | Some en' \<Rightarrow> (pending_new f (op_sender op), en'))
     | Failed \<Rightarrow> (resolved f (f EngineFailed), en)
     | _ \<Rightarrow> (resolved f (f StoreClosed), en))"

abbreviation next_sender :: "'x engine \<Rightarrow> sender" where
  "next_sender en \<equiv> length (requests en)"

definition load :: "blake3 \<Rightarrow> bytes \<Rightarrow> 'x engine \<Rightarrow> pending_result \<times> 'x engine" where
  "load b3 canonical_key en =
    (let f = (\<lambda>e. Loaded (Inl e)) in
     case ensure_open (lifecycle (coord en)) of
       Inl e \<Rightarrow> (resolved f (f e), en)
     | Inr _ \<Rightarrow> submit f (key_hash b3 canonical_key) (Load (next_sender en)) en)"

definition save :: "blake3 \<Rightarrow> bytes \<Rightarrow> bytes \<Rightarrow> 'x engine \<Rightarrow> pending_result \<times> 'x engine" where
  "save b3 canonical_key payload en =
    (let f = (\<lambda>e. Finished (Inl e)) in
     case ensure_open (lifecycle (coord en)) of
       Inl e \<Rightarrow> (resolved f (f e), en)
     | Inr _ \<Rightarrow> submit f (key_hash b3 canonical_key) (Save payload (next_sender en)) en)"

text \<open>\<open>chunks\<close> are the messages the caller will send on the endpoint's channel.\<close>

definition start_save_stream ::
    "blake3 \<Rightarrow> store_config \<Rightarrow> bytes \<Rightarrow> u64 \<Rightarrow> save_stream_message list \<Rightarrow> 'x engine
     \<Rightarrow> (store_error + pending_result) \<times> 'x engine" where
  "start_save_stream b3 config canonical_key declared_len chunks en =
    (case ensure_open (lifecycle (coord en)) of
       Inl e \<Rightarrow> (Inl e, en)
     | Inr _ \<Rightarrow>
         if declared_len > maximum config then (Inl (BlobTooLarge declared_len (maximum config)), en)
         else
           (case submit_operation (key_hash b3 canonical_key) (SaveStream declared_len chunks (next_sender en)) en of
              (Inl e, en') \<Rightarrow> (Inl e, en')
            | (Inr _, en') \<Rightarrow> (Inr (pending_new (\<lambda>e. Finished (Inl e)) (next_sender en)), en')))"

text \<open>\<open>room\<close> and \<open>acknowledges\<close> say how many chunks the consumer takes and whether it acknowledges.\<close>

definition start_load_stream ::
    "blake3 \<Rightarrow> bytes \<Rightarrow> nat option \<Rightarrow> bool \<Rightarrow> 'x engine \<Rightarrow> (store_error + pending_result) \<times> 'x engine" where
  "start_load_stream b3 canonical_key room acknowledged en =
    (case ensure_open (lifecycle (coord en)) of
       Inl e \<Rightarrow> (Inl e, en)
     | Inr _ \<Rightarrow>
         (case submit_operation (key_hash b3 canonical_key)
                 (LoadStream (Some room) (Some acknowledged) (next_sender en)) en of
            (Inl e, en') \<Rightarrow> (Inl e, en')
          | (Inr _, en') \<Rightarrow> (Inr (pending_new (\<lambda>e. Streamed (Inl e)) (next_sender en)), en')))"

definition clear :: "blake3 \<Rightarrow> bytes \<Rightarrow> 'x engine \<Rightarrow> pending_result \<times> 'x engine" where
  "clear b3 canonical_key en =
    (let f = (\<lambda>e. Finished (Inl e)) in
     case ensure_open (lifecycle (coord en)) of
       Inl e \<Rightarrow> (resolved f (f e), en)
     | Inr _ \<Rightarrow> submit f (key_hash b3 canonical_key) (Clear (next_sender en)) en)"

definition inspect :: "blake3 \<Rightarrow> bytes \<Rightarrow> 'x engine \<Rightarrow> pending_result \<times> 'x engine" where
  "inspect b3 canonical_key en =
    (let f = (\<lambda>e. Inspected (Inl e)) in
     case ensure_open (lifecycle (coord en)) of
       Inl e \<Rightarrow> (resolved f (f e), en)
     | Inr _ \<Rightarrow> submit f (key_hash b3 canonical_key) (Inspect (next_sender en)) en)"

definition quarantine :: "blake3 \<Rightarrow> bytes \<Rightarrow> 'x engine \<Rightarrow> pending_result \<times> 'x engine" where
  "quarantine b3 canonical_key en =
    (let f = (\<lambda>e. Quarantined (Inl e)) in
     case ensure_open (lifecycle (coord en)) of
       Inl e \<Rightarrow> (resolved f (f e), en)
     | Inr _ \<Rightarrow> submit f (key_hash b3 canonical_key) (Quarantine (next_sender en)) en)"

definition cleanup_stale_temporary_files :: "duration \<Rightarrow> 'x engine \<Rightarrow> pending_result \<times> 'x engine" where
  "cleanup_stale_temporary_files minimum_age en =
    (let f = (\<lambda>e. Cleaned (Inl e)) in
     case ensure_open (lifecycle (coord en)) of
       Inl e \<Rightarrow> (resolved f (f e), en)
     | Inr _ \<Rightarrow>
         if minimum_age = 0 then (resolved f (f InvalidCleanupAge), en)
         else case lifecycle (coord en) of
           Open \<Rightarrow>
             (case send_request (Maintenance (Some minimum_age) (next_sender en)) en of
                None \<Rightarrow> (resolved f (f MaintenanceCoordinationFailure), en)
              | Some en' \<Rightarrow> (pending_new f (next_sender en), en'))
         | Failed \<Rightarrow> (resolved f (f EngineFailed), en)
         | _ \<Rightarrow> (resolved f (f StoreClosed), en))"

definition flush_store :: "'x engine \<Rightarrow> pending_result \<times> 'x engine" where
  "flush_store en =
    (let f = (\<lambda>e. Finished (Inl e)) in
     case ensure_open (lifecycle (coord en)) of
       Inl e \<Rightarrow> (resolved f (f e), en)
     | Inr _ \<Rightarrow>
         case lifecycle (coord en) of
           Open \<Rightarrow>
             (case send_request (Flush (next_sender en)) en of
                None \<Rightarrow> (resolved f (f MaintenanceCoordinationFailure), en)
              | Some en' \<Rightarrow> (pending_new f (next_sender en), en'))
         | Failed \<Rightarrow> (resolved f (f EngineFailed), en)
         | _ \<Rightarrow> (resolved f (f StoreClosed), en))"

definition closed_pending :: "store_error + unit \<Rightarrow> pending_result" where
  "closed_pending res = with_after (resolved (\<lambda>e. Finished (Inl e)) (Finished res))"

text \<open>
  \<open>None\<close> is a self-deadlock: when the send fails the code locks the lifecycle again while its own
  guard is still held.
\<close>

definition close_store :: "'x engine \<Rightarrow> (pending_result \<times> 'x engine) option" where
  "close_store en =
    (case lifecycle (coord en) of
       Closed \<Rightarrow> Some (closed_pending (Inr ()), en)
     | ShutdownFailed \<Rightarrow> Some (closed_pending (Inl ShutdownFailure), en)
     | Failed \<Rightarrow> Some (closed_pending (Inl ShutdownFailure), en)
     | _ \<Rightarrow>
         (case send_request (Close (next_sender en)) en of
            None \<Rightarrow> None
          | Some en' \<Rightarrow>
              Some (with_after (with_disconnected (\<lambda>e. Finished (Inl e)) (next_sender en)), en')))"

definition blob_path :: "blake3 \<Rightarrow> store_config \<Rightarrow> bytes \<Rightarrow> path" where
  "blob_path b3 config canonical_key =
     join (namespace config) (relative (blob_filename b3 (format config) canonical_key))"

section \<open>Workers\<close>

text \<open>
  The closures of \<^verbatim>\<open>dispatch_if_idle\<close> and \<^verbatim>\<open>dispatch_maintenance\<close>: the event sent to the coordinator, the
  senders lost in a panic, the operations completed and the files. \<open>None\<close>: the job does not return.
\<close>

record 'x surroundings =
  crates :: "'x environment"
  hashing :: blake3
  os_name :: string
  map_order :: "queue_map \<Rightarrow> bytes list"

fun run_job ::
    "'x surroundings \<Rightarrow> store_config \<Rightarrow> job \<Rightarrow> 'x world
     \<Rightarrow> (coordinator_event \<times> sender list \<times> ((bytes \<times> operation) \<times> (blocking_result \<times> bytes list)) list \<times> 'x world) option" where
  "run_job sur config (OperationJob k op) w =
    (case run_owned_operation (crates sur) config (worker_path (hashing sur) config k) op w of
       None \<Rightarrow> None
     | Some (None, sent, w') \<Rightarrow> Some (Completion k None, [op_sender op], [], w')
     | Some (Some (op', res), sent, w') \<Rightarrow>
         Some (Completion k (Some (op', res)), [], [((k, op), (res, sent))], w'))"
| "run_job sur config (MaintenanceJob age s) w =
    (case age of
       None \<Rightarrow> Some (MaintenanceCompletion (Some (s, Inr cleanup_report_default)), [], [], w)
     | Some minimum_age \<Rightarrow>
         (case backend_cleanup (env_backend (crates sur)) (os_name sur) config minimum_age w of
            (res, w') \<Rightarrow> Some (MaintenanceCompletion (Some (s, res)), [], [], w')))"

section \<open>The transition system\<close>

datatype client_call =
    CallLoad bytes
  | CallSave bytes bytes
  | CallSaveStream bytes u64 "save_stream_message list"
  | CallLoadStream bytes "nat option" bool
  | CallClear bytes
  | CallInspect bytes
  | CallQuarantine bytes
  | CallCleanup duration
  | CallFlush
  | CallClose

fun perform :: "'x surroundings \<Rightarrow> store_config \<Rightarrow> client_call \<Rightarrow> 'x engine \<Rightarrow> 'x engine option" where
  "perform sur config (CallLoad key) en = Some (snd (load (hashing sur) key en))"
| "perform sur config (CallSave key payload) en = Some (snd (save (hashing sur) key payload en))"
| "perform sur config (CallSaveStream key declared chunks) en =
     Some (snd (start_save_stream (hashing sur) config key declared chunks en))"
| "perform sur config (CallLoadStream key room ack) en = Some (snd (start_load_stream (hashing sur) key room ack en))"
| "perform sur config (CallClear key) en = Some (snd (clear (hashing sur) key en))"
| "perform sur config (CallInspect key) en = Some (snd (inspect (hashing sur) key en))"
| "perform sur config (CallQuarantine key) en = Some (snd (quarantine (hashing sur) key en))"
| "perform sur config (CallCleanup age) en = Some (snd (cleanup_stale_temporary_files age en))"
| "perform sur config CallFlush en = Some (snd (flush_store en))"
| "perform sur config CallClose en = map_option snd (close_store en)"

text \<open>The chunks of a call are vectors, so their lengths are machine integers.\<close>

definition proper_call :: "client_call \<Rightarrow> bool" where
  "proper_call c \<longleftrightarrow> (case c of CallSaveStream key declared chunks \<Rightarrow> vec_chunks chunks | _ \<Rightarrow> True)"

text \<open>A panic of the coordinator: its queues are dropped and the workers finish what they have; after that, the
  store is marked as failed and what is still in the inbox is answered.\<close>

definition unwind :: "coordinator \<Rightarrow> coordinator" where
  "unwind st = st\<lparr>queues := [], pending := [], active := [], maintenance_active := False,
     dropped := dropped st @ map op_sender (queued (queues st)) @ map pending_sender (pending st)\<rparr>"

definition coordinator_failed :: "coordinator \<Rightarrow> coordinator" where
  "coordinator_failed st = fail_queued_after_coordinator_panic (st\<lparr>lifecycle := Failed\<rparr>)"

definition unreferenced :: "'x engine \<Rightarrow> bool" where
  "unreferenced en \<longleftrightarrow> \<not> clients en \<and> inbox (coord en) = [] \<and> jobs (pool (coord en)) = [] \<and> running en = []
     \<and> queued (queues (coord en)) = []
     \<and> list_all (\<lambda>p. \<exists>s. p = PendingFlush s \<or> p = PendingClose s) (pending (coord en))"

text \<open>The steps the engine takes by itself.\<close>

inductive internal :: "'x surroundings \<Rightarrow> store_config \<Rightarrow> 'x engine \<Rightarrow> 'x engine \<Rightarrow> bool"
  for sur config where
  turn: "thread en = Running \<Longrightarrow> inbox (coord en) = ev # rest \<Longrightarrow>
    scheduler_turn (map_order sur) config ev ((coord en)\<lparr>inbox := rest\<rparr>) = Some (st, stopped) \<Longrightarrow>
    internal sur config en (en\<lparr>coord := st, thread := (if stopped then Exited False else Running)\<rparr>)"
| crash: "thread en = Running \<Longrightarrow> inbox (coord en) = ev # rest \<Longrightarrow>
    scheduler_turn (map_order sur) config ev ((coord en)\<lparr>inbox := rest\<rparr>) = None \<Longrightarrow>
    internal sur config en (en\<lparr>coord := unwind ((coord en)\<lparr>inbox := rest, dropped := dropped (coord en) @ event_senders ev\<rparr>),
      thread := Unwinding\<rparr>)"
| fail: "thread en = Unwinding \<Longrightarrow> running en = [] \<Longrightarrow> jobs (pool (coord en)) = [] \<Longrightarrow>
    internal sur config en (en\<lparr>coord := coordinator_failed (coord en), thread := Exited False\<rparr>)"
| take: "jobs (pool (coord en)) = j # js \<Longrightarrow> length (running en) < handles (pool (coord en)) \<Longrightarrow>
    internal sur config en (en\<lparr>coord := (coord en)\<lparr>pool := (pool (coord en))\<lparr>jobs := js\<rparr>\<rparr>, running := running en @ [j]\<rparr>)"
| finish: "running en = xs @ j # ys \<Longrightarrow> run_job sur config j (disk en) = Some (ev, lost, ops, w) \<Longrightarrow>
    internal sur config en (en\<lparr>coord := send ev ((coord en)\<lparr>dropped := dropped (coord en) @ lost\<rparr>),
      running := xs @ ys, disk := w, finished := finished en @ ops\<rparr>)"
| hang_up: "thread en = Running \<Longrightarrow> unreferenced en \<Longrightarrow>
    internal sur config en (en\<lparr>coord := disconnected (coord en), thread := Exited False\<rparr>)"

inductive engine_step :: "'x surroundings \<Rightarrow> store_config \<Rightarrow> 'x engine \<Rightarrow> 'x engine \<Rightarrow> bool"
  for sur config where
  internally: "internal sur config en en' \<Longrightarrow> engine_step sur config en en'"
| client: "clients en \<Longrightarrow> proper_call c \<Longrightarrow> perform sur config c en = Some en' \<Longrightarrow> engine_step sur config en en'"
| waits: "wait_pending p en = Returns r en' \<Longrightarrow> engine_step sur config en en'"
| leave: "engine_step sur config en (en\<lparr>clients := False\<rparr>)"

inductive_cases internalE: "internal sur config en en'"
inductive_cases engine_stepE: "engine_step sur config en en'"

abbreviation reaches :: "'x surroundings \<Rightarrow> store_config \<Rightarrow> 'x engine \<Rightarrow> 'x engine \<Rightarrow> bool" where
  "reaches sur config \<equiv> (engine_step sur config)\<^sup>*\<^sup>*"

end
