(* ===== verification/Engine_Facts.thy ===== *)
theory Engine_Facts
  imports Engine
begin

text \<open>
  The invariant of the engine and its preservation by every step of the clients, the coordinator
  and the workers.
\<close>

section \<open>The invariant\<close>

definition fin_of :: "((bytes \<times> operation) \<times> 'r) list \<Rightarrow> bytes \<Rightarrow> sender list" where
  "fin_of F k = map (\<lambda>x. op_sender (snd (fst x))) (filter (\<lambda>x. fst (fst x) = k) F)"

definition results_of :: "((bytes \<times> operation) \<times> (blocking_result \<times> bytes list)) list \<Rightarrow> (sender \<times> reply) set" where
  "results_of F = {r. \<exists>x \<in> set F. deliver (snd (fst x)) (fst (snd x)) = Some r}"

definition request_ok :: "sender \<Rightarrow> coordinator_event \<Rightarrow> bool" where
  "request_ok s ev \<longleftrightarrow> client_senders ev = [s]
     \<and> (\<forall>k op. ev = Submission k op \<longrightarrow> proper_request (k, op) \<and> owns_channels op)"

definition join_inv :: "'x engine \<Rightarrow> bool" where
  "join_inv en \<longleftrightarrow> (join_handle (joined en) \<longleftrightarrow> join_outcome (joined en) = None)
     \<and> join_outcome (joined en) \<noteq> Some Panicked
     \<and> (join_outcome (joined en) \<noteq> None \<longrightarrow> (\<exists>b. thread en = Exited b))"

definition history_inv :: "'x engine \<Rightarrow> bool" where
  "history_inv en \<longleftrightarrow>
     (\<forall>s < length (requests en). request_ok s (requests en ! s))
     \<and> (\<forall>x \<in> set (finished en). issued (requests en) (op_sender (snd (fst x))) (Submission (fst (fst x)) (snd (fst x))))
     \<and> (\<forall>k. sorted_wrt (<) (fin_of (finished en) k))
     \<and> account (running en) (coord en) = mset [0..<length (requests en)]"

definition live_inv :: "store_config \<Rightarrow> 'x engine \<Rightarrow> bool" where
  "live_inv config en \<longleftrightarrow>
     coord_inv config (requests en) (results_of (finished en)) (fin_of (finished en)) (running en) (coord en)
     \<and> progress_inv config (coord en)"

definition engine_inv :: "store_config \<Rightarrow> 'x engine \<Rightarrow> bool" where
  "engine_inv config en \<longleftrightarrow> history_inv en \<and> join_inv en
     \<and> (case thread en of
          Running \<Rightarrow> live_inv config en
        | Unwinding \<Rightarrow> False
        | Exited panicked \<Rightarrow> \<not> panicked \<and>
            closed_inv (requests en) (results_of (finished en)) (running en) (coord en))"

definition sound_surroundings :: "'x surroundings \<Rightarrow> store_config \<Rightarrow> bool" where
  "sound_surroundings sur config \<longleftrightarrow>
     iterates (map_order sur) \<and> blake3_spec (hashing sur) \<and> 0 < cfg_max_concurrent config"

section \<open>Requests\<close>

lemma perform_cases:
  assumes "perform sur config c en = Some en'" and "blake3_spec (hashing sur)" and "proper_call c"
  obtains "en' = en"
  | ev where "send_request ev en = Some en'" "request_ok (length (requests en)) ev"
proof -
  have k: "length (key_hash (hashing sur) key) = 32" for key
    using blake3_spec.hash_length [OF assms(2)] by (simp add: key_hash_def)
  define good where "good e \<longleftrightarrow> e = en \<or> (\<exists>ev. send_request ev en = Some e \<and> request_ok (length (requests en)) ev)" for e
  have ok: "request_ok (length (requests en)) (Submission (key_hash (hashing sur) key) op)"
    if "op_sender op = length (requests en)" "owns_channels op" "case op of SaveStream d ms s \<Rightarrow> vec_chunks ms | _ \<Rightarrow> True" for key op
    using that k by (simp add: request_ok_def proper_request_def)
  have sub: "good (snd (submit f (key_hash (hashing sur) key) op en))"
    if "op_sender op = length (requests en)" "owns_channels op" "case op of SaveStream d ms s \<Rightarrow> vec_chunks ms | _ \<Rightarrow> True" for f key op
    using ok [OF that] by (auto simp: submit_def good_def split: lifecycle.split option.split)
  have subo: "good (snd (submit_operation (key_hash (hashing sur) key) op en))"
    if "op_sender op = length (requests en)" "owns_channels op" "case op of SaveStream d ms s \<Rightarrow> vec_chunks ms | _ \<Rightarrow> True" for key op
    using ok [OF that] by (auto simp: submit_operation_def good_def split: sum.split option.split)
  have same: "good en" by (simp add: good_def)
  have "good en'"
  proof (cases c)
    case (CallLoad key)
    then show ?thesis using assms(1) same sub [of "Load (length (requests en))"]
      by (auto simp: load_def Let_def owns_channels_def split: sum.splits)
  next
    case (CallSave key payload)
    then show ?thesis using assms(1) same sub [of "Save payload (length (requests en))"]
      by (auto simp: save_def Let_def owns_channels_def split: sum.splits)
  next
    case (CallSaveStream key declared chunks)
    then show ?thesis using assms(1,3) same subo [of "SaveStream declared chunks (length (requests en))" key]
      by (auto simp: start_save_stream_def owns_channels_def proper_call_def split: sum.splits if_splits prod.splits)
  next
    case (CallLoadStream key room ack)
    then show ?thesis using assms(1) same subo [of "LoadStream (Some room) (Some ack) (length (requests en))" key]
      by (auto simp: start_load_stream_def owns_channels_def split: sum.splits prod.splits)
  next
    case (CallClear key)
    then show ?thesis using assms(1) same sub [of "Clear (length (requests en))"]
      by (auto simp: clear_def Let_def owns_channels_def split: sum.splits)
  next
    case (CallInspect key)
    then show ?thesis using assms(1) same sub [of "Inspect (length (requests en))"]
      by (auto simp: inspect_def Let_def owns_channels_def split: sum.splits)
  next
    case (CallQuarantine key)
    then show ?thesis using assms(1) same sub [of "Quarantine (length (requests en))"]
      by (auto simp: quarantine_def Let_def owns_channels_def split: sum.splits)
  next
    case (CallCleanup age)
    then show ?thesis using assms(1)
      by (auto simp: good_def cleanup_stale_temporary_files_def Let_def request_ok_def
          split: sum.splits lifecycle.splits option.splits if_splits)
  next
    case CallFlush
    then show ?thesis using assms(1)
      by (auto simp: good_def flush_store_def Let_def request_ok_def split: sum.splits lifecycle.splits option.splits)
  next
    case CallClose
    then show ?thesis using assms(1)
      by (auto simp: good_def close_store_def request_ok_def split: lifecycle.splits option.splits)
  qed
  with that show ?thesis unfolding good_def by blast
qed

lemma results_mono: "results_of F \<subseteq> results_of (F @ X)"
  by (auto simp: results_of_def)

lemma event_origin_mono:
  "event_origin H R ev \<Longrightarrow> R \<subseteq> R' \<Longrightarrow> event_origin (H @ X) R' ev"
  by (cases "(H, R, ev)" rule: event_origin.cases) (auto intro: issued_append)

lemma pending_origin_mono: "pending_origin H p \<Longrightarrow> pending_origin (H @ X) p"
  by (cases p) (auto intro: issued_append)

lemma job_origin_mono: "job_origin H j \<Longrightarrow> job_origin (H @ X) j"
  by (cases j) (auto intro: issued_append)

lemma reply_origin_mono: "reply_origin H R L r \<Longrightarrow> R \<subseteq> R' \<Longrightarrow> reply_origin (H @ X) R' L r"
  unfolding reply_origin_def by (blast intro: issued_append)

lemma origin_mono: "origin_inv H R run st \<Longrightarrow> R \<subseteq> R' \<Longrightarrow> origin_inv (H @ X) R' run st"
  unfolding origin_inv_def list_all_iff
  by (blast intro: event_origin_mono pending_origin_mono job_origin_mono reply_origin_mono issued_append)

lemma request_event:
  assumes "request_ok n ev"
  shows "completion_key ev = []" "\<not> (\<exists>x. ev = MaintenanceCompletion x)" "client_senders ev = [n]"
    "event_senders ev = [n]" "event_weight ev = 6"
  using assms by (cases ev; auto simp: request_ok_def)+

lemma request_origin: "request_ok (length H) ev \<Longrightarrow> event_origin (H @ [ev]) R ev"
  by (cases ev) (auto simp: request_ok_def issued_def)

text \<open>Every sender in the engine has been issued.\<close>

lemma account_bounds:
  assumes "account run st = mset [0..<n]"
  shows "x \<in># owed run st \<Longrightarrow> x < n" "x \<in> set (waiting st) \<Longrightarrow> x < n" "x \<in> admitted run st \<Longrightarrow> x < n"
proof -
  have b: "x < n" if "x \<in># owed run st" for x
  proof -
    have "x \<in># account run st" using that by (simp add: account_def)
    then show ?thesis using assms by simp
  qed
  then show "x \<in># owed run st \<Longrightarrow> x < n" by simp
  have "set (client_senders ev) \<subseteq> set (event_senders ev)" for ev by (cases ev) auto
  then show "x \<in> set (waiting st) \<Longrightarrow> x < n" using b by (fastforce simp: waiting_def owed_def)
  show "x \<in> admitted run st \<Longrightarrow> x < n" using b by (fastforce simp: admitted_def owed_def)
qed

lemma order_request:
  assumes "order_inv fin run st" and "client_senders ev = [n]" and "account run st = mset [0..<n]"
    and "\<And>k x. x \<in> set (fin k) \<Longrightarrow> x < n"
  shows "order_inv fin run (send ev st)"
proof -
  have "waiting (send ev st) = waiting st @ [n]" using assms(2) by (simp add: waiting_def send_def)
  moreover have "admitted run (send ev st) = admitted run st" "flying k run (send ev st) = flying k run st"
      "queues (send ev st) = queues st" for k
    by (simp_all add: admitted_def flying_def send_def)
  ultimately show ?thesis using assms(1,4) account_bounds [OF assms(3)]
    by (auto simp: order_inv_def sorted_wrt_append)
qed

lemma live_request:
  assumes l: "live_inv config en" and h: "history_inv en" and ev: "request_ok (length (requests en)) ev"
    and en': "en' = en\<lparr>coord := send ev (coord en), requests := requests en @ [ev]\<rparr>"
  shows "live_inv config en'" and "history_inv en'"
proof -
  let ?H = "requests en" and ?F = "finished en" and ?st = "coord en" and ?run = "running en"
  note r = request_event [OF ev]
  have acc: "account ?run ?st = mset [0..<length ?H]" using h by (simp add: history_inv_def)
  have fin: "x < length ?H" if "x \<in> set (fin_of ?F k)" for k x
    using that h by (auto simp: history_inv_def fin_of_def issued_def)
  have c: "basic_inv config (fin_of ?F) ?run ?st" "origin_inv ?H (results_of ?F) ?run ?st" "barrier_inv ?H ?run ?st"
    and p: "progress_inv config ?st" "dropped ?st = []" using l by (simp_all add: live_inv_def coord_inv_def)
  have "order_inv (fin_of ?F) ?run (send ev ?st)"
    by (rule order_request [OF _ r(3) acc fin]) (use c in \<open>simp add: basic_inv_def\<close>)
  then have "basic_inv config (fin_of ?F) ?run (send ev ?st)"
    using c(1) r by (simp add: basic_inv_def flight_inv_def flight_def maintenance_inv_def maintenances_def
      shape_inv_def pool_inv_def send_def queues_empty_def)
  moreover have "origin_inv (?H @ [ev]) (results_of ?F) ?run (send ev ?st)"
    using origin_mono [OF c(2) order.refl, of "[ev]"] request_origin [OF ev] by (simp add: origin_inv_def send_def)
  moreover have "barrier_inv (?H @ [ev]) ?run (send ev ?st)"
  proof -
    have o: "owed ?run (send ev ?st) = add_mset (length ?H) (owed ?run ?st)"
      using r(4) by (simp add: owed_def send_def)
    have "s < length ?H \<and> issued ?H s (Flush s)"
      if "issued (?H @ [ev]) s (Flush s)" "(s, Finished (Inr ())) \<in> set (replies ?st)" for s
    proof -
      have "s \<in># account ?run ?st" using that(2) by (auto simp: account_def settled_def intro!: image_eqI)
      then have "s < length ?H" using acc by simp
      with that(1) show ?thesis by (simp add: issued_def nth_append)
    qed
    with c(3) o show ?thesis by (auto simp: barrier_inv_def send_def)
  qed
  ultimately show "live_inv config en'"
    using p by (simp add: live_inv_def coord_inv_def en' progress_inv_def conserving_def send_def idle_def queues_empty_def)
  have "account ?run (send ev ?st) = add_mset (length ?H) (account ?run ?st)"
    using r(4) by (simp add: account_def owed_def settled_def send_def)
  with acc h ev show "history_inv en'"
    by (auto simp: history_inv_def en' nth_append less_Suc_eq issued_append)
qed

lemma request_inv:
  assumes "engine_inv config en" and "send_request ev en = Some en'" and "request_ok (length (requests en)) ev"
  shows "engine_inv config en'"
proof -
  have t: "thread en = Running" and en': "en' = en\<lparr>coord := send ev (coord en), requests := requests en @ [ev]\<rparr>"
    using assms(1,2) by (auto simp: send_request_def engine_inv_def split: thread_state.splits)
  with assms(1) have "live_inv config en" "history_inv en" "join_inv en" by (auto simp: engine_inv_def)
  with live_request [OF this(1,2) assms(3) en'] t show ?thesis
    by (simp add: engine_inv_def en' join_inv_def)
qed

section \<open>Workers\<close>

lemma distinct_count_le_1: "distinct xs \<Longrightarrow> count_list xs x \<le> 1"
  by (induction xs) (auto simp: count_notin)

lemma flying_at_most_one:
  assumes "flight_inv config run st"
  shows "length (flying k run st) \<le> 1"
proof -
  have "distinct (flight run st)" using assms by (metis flight_inv_def mset_eq_imp_distinct_iff)
  then have d: "distinct (concat (map job_key (jobs (pool st) @ run)))" unfolding flight_def by (simp only: distinct_append)
  have "length (concat (map (job_for k) js)) \<le> count_list (concat (map job_key js)) k" for js
  proof (induction js)
    case (Cons j js)
    then show ?case by (cases j) auto
  qed simp
  moreover have "count_list (concat (map job_key (jobs (pool st) @ run))) k \<le> 1"
    by (rule distinct_count_le_1 [OF d])
  ultimately show ?thesis by (metis flying_def le_trans)
qed

lemma short_lists_eq: "mset xs = mset ys \<Longrightarrow> length xs \<le> 1 \<Longrightarrow> xs = ys"
  by (cases xs; cases ys) (auto dest: mset_eq_length)

text \<open>Moving a job between the channel and the workers changes nothing but its place.\<close>

lemma coord_take:
  assumes c: "coord_inv config H R fin run st" and j: "jobs (pool st) = j # js"
  shows "coord_inv config H R fin (run @ [j]) (st\<lparr>pool := (pool st)\<lparr>jobs := js\<rparr>\<rparr>)"
proof -
  let ?st = "st\<lparr>pool := (pool st)\<lparr>jobs := js\<rparr>\<rparr>"
  have f: "flight_inv config run st" using c by (simp add: coord_inv_def basic_inv_def)
  then have f': "flight_inv config (run @ [j]) ?st"
    by (simp add: flight_inv_def flight_def j ac_simps)
  have fl: "flying k (run @ [j]) ?st = flying k run st" for k
    by (rule short_lists_eq [OF _ flying_at_most_one [OF f']]) (simp add: flying_def j ac_simps)
  have "admitted (run @ [j]) ?st = admitted run st" by (auto simp: admitted_def j)
  with c fl have "order_inv fin (run @ [j]) ?st" by (simp add: coord_inv_def basic_inv_def order_inv_def waiting_def)
  moreover have o: "owed (run @ [j]) ?st = owed run st" by (simp add: owed_def j)
  moreover have "maintenance_inv (run @ [j]) ?st"
  proof -
    have "maintenances (run @ [j]) ?st = maintenances run st" by (simp add: maintenances_def j)
    then show ?thesis using c by (simp add: coord_inv_def basic_inv_def maintenance_inv_def queues_empty_def)
  qed
  ultimately show ?thesis using c f' j
    by (auto simp: coord_inv_def basic_inv_def shape_inv_def pool_inv_def origin_inv_def barrier_inv_def)
qed

lemma deliver_spent:
  assumes "run_owned_operation env config path op w = Some (Some (op', res), sent, w')"
  shows "deliver op' res = deliver op res"
  using assms by (cases op) (auto split: prod.splits option.splits)

text \<open>What a finished job sends.\<close>

lemma run_job_cases:
  assumes "run_job sur config j w = Some (ev, lost, ops, w')" and "\<forall>k op. j = OperationJob k op \<longrightarrow> owns_channels op"
  obtains k op op' res sent r where "j = OperationJob k op" "ev = Completion k (Some (op', res))" "lost = []"
      "ops = [((k, op), (res, sent))]" "deliver op' res = Some r" "deliver op res = Some r" "fst r = op_sender op"
      "op_sender op' = op_sender op"
      "run_owned_operation (crates sur) config (worker_path (hashing sur) config k) op w = Some (Some (op', res), sent, w')"
  | age s res where "j = MaintenanceJob age s" "ev = MaintenanceCompletion (Some (s, res))" "lost = []" "ops = []"
      "w' = w \<or> (\<exists>minimum_age. backend_cleanup (env_backend (crates sur)) (os_name sur) config minimum_age w = (res, w'))"
proof (cases j)
  case (OperationJob k op)
  have "owns_channels op" using assms(2) OperationJob by simp
  then have "run_owned_operation (crates sur) config (worker_path (hashing sur) config k) op w \<noteq> Some (None, x, w')" for x
    by (rule run_owned_operation_no_panic)
  then obtain op' res sent where
    run: "run_owned_operation (crates sur) config (worker_path (hashing sur) config k) op w = Some (Some (op', res), sent, w')"
    and x: "ev = Completion k (Some (op', res))" "lost = []" "ops = [((k, op), (res, sent))]"
    using assms(1) OperationJob by (auto split: option.splits)
  from run_owned_operation_kinds [OF run] obtain r where r: "deliver op' res = Some r" "op_sender op' = op_sender op"
    by (auto simp: kinds_match_def)
  from that(1) [OF OperationJob x r(1) _ _ r(2) run] deliver_spent [OF run] r deliver_sender [of op' res "fst r" "snd r"]
  show ?thesis by simp
next
  case (MaintenanceJob age s)
  then show ?thesis using assms(1) that(2) by (auto split: option.splits prod.splits)
qed

lemma fin_of_snoc: "fin_of (F @ [((k, op), y)]) k' = fin_of F k' @ (if k' = k then [op_sender op] else [])"
  by (simp add: fin_of_def)

lemma coord_finish_operation:
  assumes c: "coord_inv config H R (fin_of F) (xs @ OperationJob k op # ys) st"
    and "event_origin H R' (Completion k (Some (op', res)))" and "R \<subseteq> R'" and s: "op_sender op' = op_sender op"
  shows "coord_inv config H R' (fin_of (F @ [((k, op), y)])) (xs @ ys) (send (Completion k (Some (op', res))) st)"
proof -
  let ?j = "OperationJob k op" and ?st = "send (Completion k (Some (op', res))) st"
  let ?run = "xs @ ?j # ys"
  have b: "basic_inv config (fin_of F) ?run st" and o: "origin_inv H R ?run st" and bar: "barrier_inv H ?run st"
    and d: "dropped st = []" using c by (simp_all add: coord_inv_def)
  have f: "flight_inv config ?run st" and ord: "order_inv (fin_of F) ?run st" using b by (simp_all add: basic_inv_def)
  have f': "flight_inv config (xs @ ys) ?st" using f by (simp add: flight_inv_def flight_def send_def ac_simps)
  have fly: "flying k' (xs @ ys) ?st = (if k' = k then [] else flying k' ?run st)" for k'
    using flying_at_most_one [OF f, of k] by (auto simp: flying_def send_def)
  have flk: "flying k ?run st = [op_sender op]"
  proof -
    have "op_sender op \<in> set (flying k ?run st)" by (simp add: flying_def)
    then show ?thesis using flying_at_most_one [OF f, of k] by (cases "flying k ?run st") auto
  qed
  have in_adm: "op_sender op \<in> admitted ?run st" by (auto simp: admitted_def intro!: image_eqI [of _ _ ?j])
  have "order_inv (fin_of (F @ [((k, op), y)])) (xs @ ys) ?st"
    unfolding order_inv_def
  proof (intro conjI allI)
    have w: "waiting ?st = waiting st" by (simp add: waiting_def send_def)
    show "sorted_wrt (<) (waiting ?st)" using ord w by (simp add: order_inv_def)
    have "admitted (xs @ ys) ?st \<subseteq> admitted ?run st" by (auto simp: admitted_def send_def)
    then show "\<forall>x \<in> admitted (xs @ ys) ?st \<union> (\<Union>k'. set (fin_of (F @ [((k, op), y)]) k')). \<forall>y \<in> set (waiting ?st). x < y"
      using ord in_adm w by (fastforce simp: order_inv_def fin_of_snoc split: if_splits)
    show "sorted_wrt (<) (fin_of (F @ [((k, op), y)]) k' @ flying k' (xs @ ys) ?st @ map op_sender (queue_of (queues ?st) k'))" for k'
      using ord flk fly [of k'] by (auto simp: order_inv_def fin_of_snoc send_def dest: spec [of _ k'])
  qed
  moreover have "maintenance_inv (xs @ ys) ?st"
    using b by (auto simp: basic_inv_def maintenance_inv_def maintenances_def send_def queues_empty_def)
  moreover have "origin_inv H R' (xs @ ys) ?st"
    using origin_mono [OF o assms(3), of "[]"] assms(2) by (simp add: origin_inv_def send_def)
  moreover have "owed (xs @ ys) ?st = owed ?run st" using s by (simp add: owed_def send_def)
  then have "barrier_inv H (xs @ ys) ?st" using bar by (simp add: barrier_inv_def send_def)
  ultimately show ?thesis using b f' d
    by (simp add: coord_inv_def basic_inv_def) (simp add: shape_inv_def pool_inv_def send_def)
qed

lemma coord_finish_maintenance:
  assumes c: "coord_inv config H R fin (xs @ MaintenanceJob age s # ys) st"
  shows "coord_inv config H R fin (xs @ ys) (send (MaintenanceCompletion (Some (s, res))) st)"
proof -
  let ?st = "send (MaintenanceCompletion (Some (s, res))) st" and ?run = "xs @ MaintenanceJob age s # ys"
  have "issued H s (Maintenance age s)" using c by (simp add: coord_inv_def origin_inv_def)
  then have "origin_inv H R (xs @ ys) ?st"
    using c by (auto simp: coord_inv_def origin_inv_def send_def)
  moreover have "owed (xs @ ys) ?st = owed ?run st" by (simp add: owed_def send_def)
  then have "barrier_inv H (xs @ ys) ?st" using c by (simp add: barrier_inv_def coord_inv_def send_def)
  moreover have "flying k (xs @ ys) ?st = flying k ?run st" for k by (simp add: flying_def send_def)
  moreover have "admitted (xs @ ys) ?st \<subseteq> admitted ?run st" by (auto simp: admitted_def send_def)
  moreover have "waiting ?st = waiting st" by (simp add: waiting_def send_def)
  ultimately have "order_inv fin (xs @ ys) ?st" "origin_inv H R (xs @ ys) ?st" "barrier_inv H (xs @ ys) ?st"
    using c by (auto simp: coord_inv_def basic_inv_def order_inv_def send_def)
  moreover have "maintenance_inv (xs @ ys) ?st"
    using c by (auto simp: coord_inv_def basic_inv_def maintenance_inv_def maintenances_def send_def queues_empty_def)
  ultimately show ?thesis using c
    by (simp add: coord_inv_def basic_inv_def flight_inv_def flight_def shape_inv_def pool_inv_def send_def)
qed

end
