(* ===== verification/Engine_Inv.thy ===== *)
theory Engine_Inv
  imports Engine_Facts
begin

text \<open>
  Every step keeps the invariant, so it holds in every reachable state; the steps the engine takes
  by itself lower a weight; and the histories agree with the abstract map.
\<close>

section \<open>Steps keep the invariant\<close>

lemma turn_inv:
  assumes inv: "engine_inv config en" and sur: "iterates (map_order sur)" and "thread en = Running"
    and i: "inbox (coord en) = ev # rest"
    and t: "scheduler_turn (map_order sur) config ev ((coord en)\<lparr>inbox := rest\<rparr>) = Some (st, stopped)"
  shows "engine_inv config (en\<lparr>coord := st, thread := (if stopped then Exited False else Running)\<rparr>)"
proof -
  let ?st = "(coord en)\<lparr>inbox := rest\<rparr>"
  have eq: "coord en = ?st\<lparr>inbox := ev # inbox ?st\<rparr>" using i by (cases "coord en") simp
  have h: "history_inv en" "join_inv en" and l: "live_inv config en"
    using inv assms(3) by (simp_all add: engine_inv_def)
  have c: "coord_inv config (requests en) (results_of (finished en)) (fin_of (finished en)) (running en)
      (?st\<lparr>inbox := ev # inbox ?st\<rparr>)" by (subst eq [symmetric]) (use l in \<open>simp add: live_inv_def\<close>)
  then have b: "basic_inv config (fin_of (finished en)) (running en) (?st\<lparr>inbox := ev # inbox ?st\<rparr>)"
    by (simp add: coord_inv_def)
  have p: "progress_inv config ?st" using l by (simp add: live_inv_def progress_inv_def conserving_def idle_def queues_empty_def)
  have "account (running en) st = account (running en) (coord en)" using turn_account [OF b t] by (metis eq)
  then have "history_inv (en\<lparr>coord := st, thread := t\<rparr>)" for t using h(1) by (simp add: history_inv_def)
  moreover have "join_inv (en\<lparr>coord := st, thread := t\<rparr>)" for t
    using h(2) assms(3) by (auto simp: join_inv_def)
  ultimately show ?thesis
    using turn_coord [OF c t] turn_progress [OF sur p b] t by (cases stopped) (simp_all add: engine_inv_def live_inv_def)
qed

lemma no_crash:
  assumes "engine_inv config en" and "thread en = Running" and "inbox (coord en) = ev # rest"
  shows "scheduler_turn iter config ev ((coord en)\<lparr>inbox := rest\<rparr>) \<noteq> None"
proof -
  have "event_origin (requests en) (results_of (finished en)) ev"
    using assms by (simp add: engine_inv_def live_inv_def coord_inv_def origin_inv_def)
  from scheduler_turn_returns [OF this] show ?thesis by (metis option.distinct(1))
qed

lemma idle_workers: "engine_inv config en \<Longrightarrow> thread en \<noteq> Running \<Longrightarrow> jobs (pool (coord en)) = [] \<and> running en = []"
  by (auto simp: engine_inv_def closed_inv_def split: thread_state.splits)

lemma take_inv:
  assumes inv: "engine_inv config en" and j: "jobs (pool (coord en)) = j # js"
  shows "engine_inv config (en\<lparr>coord := (coord en)\<lparr>pool := (pool (coord en))\<lparr>jobs := js\<rparr>\<rparr>, running := running en @ [j]\<rparr>)"
proof -
  have t: "thread en = Running" using idle_workers [OF inv] j by auto
  with inv have c: "history_inv en" "join_inv en" "live_inv config en" by (simp_all add: engine_inv_def)
  let ?st = "(coord en)\<lparr>pool := (pool (coord en))\<lparr>jobs := js\<rparr>\<rparr>"
  have "account (running en @ [j]) ?st = account (running en) (coord en)"
    using j by (simp add: account_def owed_def settled_def)
  with c(1) have "history_inv (en\<lparr>coord := ?st, running := running en @ [j]\<rparr>)" by (simp add: history_inv_def)
  moreover have "live_inv config (en\<lparr>coord := ?st, running := running en @ [j]\<rparr>)"
    using c(3) coord_take [OF _ j] by (simp add: live_inv_def progress_inv_def conserving_def idle_def queues_empty_def)
  ultimately show ?thesis using t c(2) by (simp add: engine_inv_def join_inv_def)
qed

lemma finish_inv:
  assumes inv: "engine_inv config en" and r: "running en = xs @ j # ys"
    and job: "run_job sur config j (disk en) = Some (ev, lost, ops, w)"
  shows "engine_inv config (en\<lparr>coord := send ev ((coord en)\<lparr>dropped := dropped (coord en) @ lost\<rparr>),
      running := xs @ ys, disk := w, finished := finished en @ ops\<rparr>)" (is "engine_inv config ?en")
proof -
  have t: "thread en = Running" using idle_workers [OF inv] r by auto
  with inv have h: "history_inv en" and jn: "join_inv en" and l: "live_inv config en" by (simp_all add: engine_inv_def)
  let ?H = "requests en" and ?F = "finished en"
  have c: "coord_inv config ?H (results_of ?F) (fin_of ?F) (xs @ j # ys) (coord en)" and p: "progress_inv config (coord en)"
    using l r by (simp_all add: live_inv_def)
  have jo: "job_origin ?H j" using c by (simp add: coord_inv_def origin_inv_def)
  have own: "\<forall>k op. j = OperationJob k op \<longrightarrow> owns_channels op"
  proof (intro allI impI)
    fix k op
    assume "j = OperationJob k op"
    with jo have i: "op_sender op < length ?H" "?H ! op_sender op = Submission k op" by (simp_all add: issued_def)
    then have "request_ok (op_sender op) (Submission k op)" using h by (metis history_inv_def)
    then show "owns_channels op" by (simp add: request_ok_def)
  qed
  have pg: "progress_inv config (send ev (coord en))"
    using p by (simp add: progress_inv_def conserving_def send_def idle_def queues_empty_def)
  have same: "(coord en)\<lparr>dropped := dropped (coord en) @ []\<rparr> = coord en" by simp
  from run_job_cases [OF job own] show ?thesis
  proof cases
    case (1 k op op' res sent r')
    note d = 1
    have i: "issued ?H (op_sender op) (Submission k op)" using jo d(1) by simp
    have "r' \<in> results_of (?F @ ops)" using d(4,6) by (force simp: results_of_def)
    with i d(5,7) have eo: "event_origin ?H (results_of (?F @ ops)) (Completion k (Some (op', res)))" by auto
    have "coord_inv config ?H (results_of (?F @ ops)) (fin_of (?F @ ops)) (xs @ ys) (send ev (coord en))"
      using coord_finish_operation [OF c [unfolded d(1)] eo results_mono d(8), of "(res, sent)"] d(2,4) by simp
    then have l': "live_inv config ?en" using pg d(3) by (simp add: live_inv_def)
    have "account (xs @ ys) (send ev (coord en)) = account (running en) (coord en)"
      using r d(1,2,8) by (simp add: account_def owed_def settled_def send_def)
    moreover have "sorted_wrt (<) (fin_of (?F @ ops) k')" for k'
      using l' by (auto simp: live_inv_def coord_inv_def basic_inv_def order_inv_def sorted_wrt_append)
    ultimately have "history_inv ?en" using h d(3,4) i by (auto simp: history_inv_def)
    then show ?thesis using l' t jn by (simp add: engine_inv_def join_inv_def)
  next
    case (2 age s res)
    have "coord_inv config ?H (results_of ?F) (fin_of ?F) (xs @ ys) (send ev (coord en))"
      using coord_finish_maintenance [OF c [unfolded 2(1)]] 2(2) by simp
    then have l': "live_inv config ?en" using pg 2 by (simp add: live_inv_def)
    have "account (xs @ ys) (send ev (coord en)) = account (running en) (coord en)"
      using r 2(1,2) by (simp add: account_def owed_def settled_def send_def)
    then have "history_inv ?en" using h 2 by (simp add: history_inv_def)
    then show ?thesis using l' t jn by (simp add: engine_inv_def join_inv_def)
  qed
qed

lemma hang_up_inv:
  assumes inv: "engine_inv config en" and "0 < cfg_max_concurrent config" and t: "thread en = Running" and u: "unreferenced en"
  shows "engine_inv config (en\<lparr>coord := disconnected (coord en), thread := Exited False\<rparr>)"
proof -
  let ?st = "coord en"
  have h: "history_inv en" and jn: "join_inv en" and l: "live_inv config en" using inv t by (simp_all add: engine_inv_def)
  have r: "running en = []" "jobs (pool ?st) = []" "inbox ?st = []" using u by (simp_all add: unreferenced_def)
  have b: "flight_inv config [] ?st" "maintenance_inv [] ?st" and p: "progress_inv config ?st"
    and o: "list_all (reply_origin (requests en) (results_of (finished en)) Closed) (replies ?st)" "dropped ?st = []"
    using l r reply_origin_live [of "requests en" "results_of (finished en)" "lifecycle ?st"]
    by (auto simp: live_inv_def coord_inv_def basic_inv_def origin_inv_def shape_inv_def list_all_iff)
  have owed: "owed [] ?st = {#}" by (rule quiescent_owes_nothing [OF b p assms(2) r(3,2)])
  then have pend: "pending ?st = []" by (simp add: owed_def)
  have pl: "jobs (snd (pool_shutdown (pool ?st))) = []" using r(2) by (simp add: pool_shutdown_def)
  have "owed [] (disconnected ?st) = owed [] ?st" using pend pl r(2) by (simp add: disconnected_def owed_def)
  moreover have "settled (disconnected ?st) = settled ?st" using pend by (simp add: disconnected_def settled_def)
  ultimately have "history_inv (en\<lparr>coord := disconnected ?st, thread := Exited False\<rparr>)"
    using h r(1) by (simp add: history_inv_def account_def)
  moreover have "active ?st = []" using b(1) r by (simp add: flight_inv_def flight_def)
  ultimately show ?thesis
    using jn t owed o r pl \<open>owed [] (disconnected ?st) = owed [] ?st\<close> pend
    by (simp add: engine_inv_def join_inv_def closed_inv_def) (simp add: disconnected_def)
qed

lemma internal_inv:
  assumes "internal sur config en en'" and "sound_surroundings sur config" and "engine_inv config en"
  shows "engine_inv config en'"
  using assms
proof (cases rule: internal.cases)
  case (turn ev rest st stopped)
  have "iterates (map_order sur)" using assms(2) by (simp add: sound_surroundings_def)
  from turn_inv [OF assms(3) this turn(2-4)] show ?thesis unfolding turn(1) .
next
  case (crash ev rest)
  then show ?thesis using no_crash [OF assms(3)] by metis
next
  case fail
  then show ?thesis using assms(3) by (simp add: engine_inv_def)
next
  case (take j js)
  then show ?thesis using take_inv [OF assms(3)] by simp
next
  case (finish xs j ys ev lost ops w)
  then show ?thesis using finish_inv [OF assms(3)] by simp
next
  case hang_up
  then show ?thesis using hang_up_inv [OF assms(3)] assms(2) by (simp add: sound_surroundings_def)
qed

text \<open>Waiting changes at most the join state, and never panics.\<close>

lemma finish_join_cases:
  assumes "join_inv en" and "finish_join r en = x"
  shows "x = Blocks \<and> (\<forall>b. thread en \<noteq> Exited b)
    \<or> (\<exists>j r'. x = Returns r' (en\<lparr>joined := j\<rparr>) \<and> join_inv (en\<lparr>joined := j\<rparr>) \<and> (\<exists>b. thread en = Exited b)
         \<and> (thread en = Exited False \<longrightarrow> r' = r)) \<or> thread en = Exited True"
proof (cases "join_outcome (joined en)")
  case None
  then show ?thesis using assms
    by (cases "thread en") (auto simp: finish_join_def join_inv_def Let_def split: join_outcome.splits if_splits)
next
  case (Some out)
  with assms have "x = Returns r (en\<lparr>joined := joined en\<rparr>)" "\<exists>b. thread en = Exited b"
    by (auto simp: finish_join_def join_inv_def split: join_outcome.splits)
  moreover have "join_inv (en\<lparr>joined := joined en\<rparr>)" using assms(1) by simp
  ultimately show ?thesis by blast
qed

lemma wait_inv:
  assumes "engine_inv config en" and "wait_pending p en = Returns r en'"
  shows "engine_inv config en'"
proof -
  have j: "join_inv en" and n: "thread en \<noteq> Exited True"
    using assms(1) by (auto simp: engine_inv_def)
  consider "en' = en" | r' where "finish_join r' en = Returns r en'"
    using assms(2) by (auto simp: wait_pending_def Let_def split: option.splits if_splits)
  then show ?thesis
  proof cases
    case 2
    with finish_join_cases [OF j 2] n obtain j where "en' = en\<lparr>joined := j\<rparr>" "join_inv (en\<lparr>joined := j\<rparr>)" by auto
    with assms(1) show ?thesis by (auto simp: engine_inv_def history_inv_def live_inv_def split: thread_state.splits)
  qed (use assms(1) in simp)
qed

lemma engine_step_inv:
  assumes "engine_step sur config en en'" and "sound_surroundings sur config" and "engine_inv config en"
  shows "engine_inv config en'"
  using assms(1)
proof (cases rule: engine_step.cases)
  case internally
  then show ?thesis using internal_inv assms(2,3) by blast
next
  case (client c)
  have "blake3_spec (hashing sur)" using assms(2) by (simp add: sound_surroundings_def)
  from perform_cases [OF client(3) this client(2)] show ?thesis
    using assms(3) request_inv by metis
next
  case (waits p r)
  then show ?thesis using wait_inv assms(3) by blast
next
  case leave
  then show ?thesis using assms(3)
    by (auto simp: engine_inv_def history_inv_def live_inv_def join_inv_def split: thread_state.splits)
qed

lemma reaches_inv:
  assumes "reaches sur config en en'" and "sound_surroundings sur config" and "engine_inv config en"
  shows "engine_inv config en'"
  using assms(1) by (induction rule: rtranclp_induct) (auto intro: engine_step_inv assms)

lemma initial_inv:
  assumes "from_config spawn_failures panics spawn config w = Inr en"
  shows "engine_inv config en"
proof -
  from assms have en: "en = \<lparr>coord = coordinator_init \<lparr>sender_open = True, jobs = [], handles = 0, capacity = cfg_max_concurrent config,
        spawns = spawn_failures, exit_panicked = panics\<rparr>, thread = Running, running = [], disk = w, clients = True,
      joined = \<lparr>join_handle = True, join_outcome = None\<rparr>, requests = [], finished = []\<rparr>"
    by (auto simp: from_config_def pool_new_def split: sum.splits)
  have "coord_inv config [] (results_of []) (fin_of []) [] (coord en)"
    unfolding en
    by (simp add: coordinator_init_def coord_inv_def basic_inv_def flight_inv_def flight_def maintenance_inv_def
        maintenances_def order_inv_def waiting_def admitted_def flying_def queued_def fin_of_def shape_inv_def pool_inv_def
        origin_inv_def queue_of_def barrier_inv_def issued_def)
  then show ?thesis
    by (simp add: en engine_inv_def history_inv_def join_inv_def live_inv_def progress_inv_def)
      (simp add: coordinator_init_def account_def owed_def settled_def queued_def conserving_def queue_of_def fin_of_def)
qed

end
