(* ===== verification/Engine_Live.thy ===== *)
theory Engine_Live
  imports Engine_Inv
begin

text \<open>
  The engine comes to rest: its own steps lower \<open>engine_weight\<close>, and a state in which it can take no
  step owes no reply.
\<close>

definition engine_weight :: "'x engine \<Rightarrow> nat" where
  "engine_weight en = weight (running en) (coord en) + (if thread en = Running then 1 else 0)"

lemma weight_finish:
  "weight (xs @ ys) (send ev (st\<lparr>dropped := d\<rparr>)) + 2 = weight (xs @ j # ys) st + event_weight ev"
  by (simp add: weight_def send_def)

lemma internal_weight:
  assumes "internal sur config en en'" and inv: "engine_inv config en"
  shows "engine_weight en' < engine_weight en"
  using assms(1)
proof (cases rule: internal.cases)
  case (turn ev rest st stopped)
  have "lifecycle (coord en) = Open \<or> lifecycle (coord en) = Closing"
    using inv turn(2) by (auto simp: engine_inv_def live_inv_def coord_inv_def basic_inv_def shape_inv_def)
  then have "weight (running en) st < weight (running en) ((coord en)\<lparr>inbox := rest\<rparr>\<lparr>inbox := ev # inbox ((coord en)\<lparr>inbox := rest\<rparr>)\<rparr>)"
    by (intro turn_weight [OF _ turn(4)]) simp
  moreover have "weight (running en) ((coord en)\<lparr>inbox := rest\<rparr>\<lparr>inbox := ev # inbox ((coord en)\<lparr>inbox := rest\<rparr>)\<rparr>)
      = weight (running en) (coord en)" using turn(3) by (simp add: weight_def)
  ultimately show ?thesis using turn(1,2) by (simp add: engine_weight_def)
next
  case (crash ev rest)
  then show ?thesis using no_crash [OF inv] by metis
next
  case fail
  then show ?thesis using inv by (simp add: engine_inv_def)
next
  case (take j js)
  then show ?thesis by (simp add: engine_weight_def weight_def)
next
  case (finish xs j ys ev lost ops w)
  have "event_weight ev = 1"
    using finish(3) by (cases "(sur, config, j, disk en)" rule: run_job.cases)
      (auto split: option.splits prod.splits)
  with finish weight_finish [where xs = xs and ys = ys and ev = ev and st = "coord en" and j = j and d = "dropped (coord en) @ lost"] show ?thesis
    by (simp add: engine_weight_def)
next
  case hang_up
  then show ?thesis by (simp add: engine_weight_def weight_def disconnected_def pool_shutdown_def)
qed

lemma internal_run_bounded:
  assumes "(internal sur config ^^ n) en en'" and "engine_inv config en" and "sound_surroundings sur config"
  shows "n + engine_weight en' \<le> engine_weight en \<and> engine_inv config en'"
  using assms(1)
proof (induction n arbitrary: en')
  case 0
  then show ?case using assms(2) by simp
next
  case (Suc n)
  then obtain y where y: "(internal sur config ^^ n) en y" "internal sur config y en'" by auto
  with Suc.IH have i: "n + engine_weight y \<le> engine_weight en" "engine_inv config y" by auto
  with internal_weight [OF y(2) i(2)] internal_inv [OF y(2) assms(3) i(2)] show ?case by simp
qed

text \<open>Settling: a state with no work in flight.\<close>

definition all_answered :: "'x engine \<Rightarrow> bool" where
  "all_answered en \<longleftrightarrow> mset (map fst (replies (coord en))) = mset [0..<length (requests en)]"

lemma answered_when_nothing_owed:
  assumes "engine_inv config en" and "owed (running en) (coord en) = {#}"
  shows "all_answered en"
proof -
  have "dropped (coord en) = []"
    using assms(1) by (auto simp: engine_inv_def live_inv_def coord_inv_def closed_inv_def split: thread_state.splits)
  then show ?thesis using assms by (simp add: engine_inv_def history_inv_def account_def settled_def all_answered_def)
qed

lemma stuck_all_answered:
  assumes inv: "engine_inv config en" and sur: "sound_surroundings sur config"
    and stuck: "\<nexists>en'. internal sur config en en'"
    and jobs: "\<forall>j \<in> set (running en). run_job sur config j (disk en) \<noteq> None"
  shows "all_answered en"
proof (rule answered_when_nothing_owed [OF inv])
  have run: "running en = []"
  proof (rule ccontr)
    assume "running en \<noteq> []"
    then obtain j ys where j: "running en = [] @ j # ys" by (cases "running en") auto
    then obtain ev lost ops w where "run_job sur config j (disk en) = Some (ev, lost, ops, w)" using jobs by fastforce
    with internal.finish [OF j] stuck show False by blast
  qed
  show "owed (running en) (coord en) = {#}"
  proof (cases "thread en")
    case Running
    with inv have l: "live_inv config en" by (simp add: engine_inv_def)
    have "inbox (coord en) = []"
    proof (rule ccontr)
      assume "inbox (coord en) \<noteq> []"
      then obtain ev rest where i: "inbox (coord en) = ev # rest" by (cases "inbox (coord en)") auto
      then obtain st stopped where "scheduler_turn (map_order sur) config ev ((coord en)\<lparr>inbox := rest\<rparr>) = Some (st, stopped)"
        using no_crash [OF inv Running i, of "map_order sur"] by (cases "scheduler_turn (map_order sur) config ev ((coord en)\<lparr>inbox := rest\<rparr>)") auto
      with internal.turn [OF Running i] stuck show False by blast
    qed
    moreover have "jobs (pool (coord en)) = []"
    proof (rule ccontr)
      assume "jobs (pool (coord en)) \<noteq> []"
      moreover from this have "0 < handles (pool (coord en))"
        using l sur by (auto simp: live_inv_def coord_inv_def basic_inv_def pool_inv_def sound_surroundings_def)
      ultimately obtain j js where "jobs (pool (coord en)) = j # js" "length (running en) < handles (pool (coord en))"
        using run by (cases "jobs (pool (coord en))") auto
      with internal.take stuck show False by blast
    qed
    ultimately show ?thesis
      using quiescent_owes_nothing [of config "coord en"] l run sur
      by (simp add: live_inv_def coord_inv_def basic_inv_def sound_surroundings_def)
  qed (use inv in \<open>auto simp: engine_inv_def closed_inv_def\<close>)
qed

lemma comes_to_rest:
  assumes inv: "engine_inv config en" and sur: "sound_surroundings sur config"
    and jobs: "\<And>j w. run_job sur config j w \<noteq> None"
  shows "\<exists>en'. (internal sur config)\<^sup>*\<^sup>* en en' \<and> all_answered en'"
  using inv
proof (induction "engine_weight en" arbitrary: en rule: less_induct)
  case less
  show ?case
  proof (cases "\<exists>y. internal sur config en y")
    case True
    then obtain y where y: "internal sur config en y" ..
    from less(1) [OF internal_weight [OF y less(2)] internal_inv [OF y sur less(2)]] y show ?thesis
      by (meson converse_rtranclp_into_rtranclp)
  next
    case False
    with stuck_all_answered [OF less(2) sur] jobs show ?thesis by blast
  qed
qed

end
