(* ===== verification/Registry.thy ===== *)
theory Registry
  imports Engine_Inv
begin

text \<open>
  The registry of per-key queues does not leak: between turns every entry of the hash map has a
  waiting operation or an operation of its key in flight.
\<close>

lemma set_update: "e \<in> set (AList.update k v qs) \<Longrightarrow> e = (k, v) \<or> e \<in> set qs"
  by (induction qs) (auto split: if_splits)

lemma delete_key: "e \<in> set (AList.delete k qs) \<Longrightarrow> fst e \<noteq> k \<and> e \<in> set qs"
  by (induction qs) (auto split: if_splits)

lemma set_prune: "e \<in> set (prune k qs) \<Longrightarrow> e \<in> set qs"
  by (auto simp: prune_def dest: delete_key split: if_splits)

lemma set_prune_update: "e \<in> set (prune k (AList.update k v qs)) \<Longrightarrow> e = (k, v) \<and> v \<noteq> [] \<or> e \<in> set qs"
  using delete_key [of e k "AList.update k v qs"] set_update [of e k v qs]
  by (auto simp: prune_def update_conv' split: if_splits)

lemma tidy_micro:
  assumes "micro config st st'" and "tidy K st"
  shows "tidy K st'"
  using assms
proof (cases rule: micro.cases)
  case (start k op rest p)
  with assms(2) show ?thesis by (auto simp: tidy_def dest: set_update)
next
  case (lose k op rest p)
  with assms(2) show ?thesis by (auto simp: tidy_def update_simps dest: set_update)
next
  case (refuse k op rest e p)
  with assms(2) show ?thesis by (auto simp: tidy_def update_simps dest: set_prune_update)
next
  case (admit k op rest)
  with assms(2) show ?thesis by (auto simp: tidy_def update_simps dest: set_update)
next
  case (maintain age s rest)
  with assms(2) show ?thesis by (simp add: tidy_def)
qed (auto simp: tidy_def update_simps)

lemma tidy_micros: "micros config st st' \<Longrightarrow> tidy K st \<Longrightarrow> tidy K st'"
  by (erule micros_invariant) (auto intro: tidy_micro)

lemma tidy_release:
  assumes "tidy {} st" and "distinct (map fst (queues (dispatch_available iter config
      (dispatch_if_idle config k (st\<lparr>active := removeAll k (active st)\<rparr>)))))"
  shows "tidy {} (release_key iter config k st)"
proof -
  let ?st = "dispatch_available iter config (dispatch_if_idle config k (st\<lparr>active := removeAll k (active st)\<rparr>))"
  have "tidy {k} (st\<lparr>active := removeAll k (active st)\<rparr>)" using assms(1) by (auto simp: tidy_def)
  then have t: "tidy {k} ?st" by (rule tidy_micros [OF dispatch_available_micros tidy_micros [OF dispatch_if_idle_micros]])
  have "q \<noteq> []" if "(k, q) \<in> set (prune k (queues ?st))" for q
    using that map_of_is_SomeI [OF assms(2) set_prune [OF that]] by (auto simp: prune_def dest: delete_key split: if_splits)
  with t show ?thesis by (auto simp: release_key_def Let_def tidy_def dest: set_prune)
qed

lemma tidy_frame [simp]:
  "tidy K (answer r st) = tidy K st" "tidy K (st\<lparr>pending := p\<rparr>) = tidy K st" "tidy K (st\<lparr>lifecycle := l\<rparr>) = tidy K st"
  "tidy K (st\<lparr>maintenance_active := b\<rparr>) = tidy K st" "tidy K (st\<lparr>inbox := i\<rparr>) = tidy K st"
  by (simp_all add: tidy_def answer_def)

lemma handle_event_tidy:
  assumes inv: "basic_inv config fin run (st\<lparr>inbox := ev # inbox st\<rparr>)" and "tidy {} st"
    and h: "handle_event iter config ev st = Some (st', check)"
  shows "tidy {} st'"
proof -
  have live: "lifecycle st = Open \<or> lifecycle st = Closing" using inv by (auto simp: basic_inv_def shape_inv_def)
  show ?thesis
  proof (cases "\<exists>k outcome. ev = Completion k outcome")
    case True
    then obtain k outcome where ev: "ev = Completion k outcome" by blast
    have "basic_inv config fin run (dispatch_available iter config (dispatch_if_idle config k (st\<lparr>active := removeAll k (active st)\<rparr>)))"
      by (rule basic_micros [OF dispatch_available_micros basic_micros [OF dispatch_if_idle_micros basic_completion]])
        (use inv ev in blast)
    then have t: "tidy {} (release_key iter config k st)"
      using tidy_release [OF assms(2)] by (simp add: basic_inv_def flight_inv_def)
    from h ev have "on_completion iter config k outcome st = Some (st', check)" by simp
    then show ?thesis
      by (cases rule: on_completion_cases) (use t tidy_micros [OF advance_pending_micros] in auto)
  next
    case False
    show ?thesis
    proof (rule handle_event_rule [OF h live, where Q = "\<lambda>s. True"], goal_cases)
      case (1 s s')
      then show ?case by (rule tidy_micro)
    next
      case (4 k op)
      then show ?case using assms(2) by (auto simp: tidy_def enqueue_def dest: set_update)
    qed (use False assms(2) in auto)
  qed
qed

lemma shut_down_tidy: "tidy {} st \<Longrightarrow> tidy {} (shut_down st)"
  by (auto simp: shut_down_def tidy_def split: prod.splits)

lemma turn_tidy:
  assumes "basic_inv config fin run (st\<lparr>inbox := ev # inbox st\<rparr>)" and "tidy {} st"
    and "scheduler_turn iter config ev st = Some (st', stopped)"
  shows "tidy {} st'"
  using assms(3) handle_event_tidy [OF assms(1,2)] shut_down_tidy
  by (auto simp: scheduler_turn_def split: option.splits if_splits)

lemma send_request_tidy: "send_request ev en = Some en' \<Longrightarrow> tidy {} (coord en) \<Longrightarrow> tidy {} (coord en')"
  by (auto simp: send_request_def send_def split: thread_state.splits)

lemma engine_step_tidy:
  assumes step: "engine_step sur config en en'" and "sound_surroundings sur config" and inv: "engine_inv config en"
    and t: "tidy {} (coord en)"
  shows "tidy {} (coord en')"
  using step
proof (cases rule: engine_step.cases)
  case internally
  then show ?thesis
  proof (cases rule: internal.cases)
    case (turn ev rest st stopped)
    have "basic_inv config (fin_of (finished en)) (running en) (coord en)"
      using inv turn(2) by (simp add: engine_inv_def live_inv_def coord_inv_def)
    moreover have "coord en = (coord en)\<lparr>inbox := rest\<rparr>\<lparr>inbox := ev # inbox ((coord en)\<lparr>inbox := rest\<rparr>)\<rparr>"
      using turn(3) by (cases "coord en") simp
    ultimately have "basic_inv config (fin_of (finished en)) (running en)
        ((coord en)\<lparr>inbox := rest\<rparr>\<lparr>inbox := ev # inbox ((coord en)\<lparr>inbox := rest\<rparr>)\<rparr>)" by metis
    from turn_tidy [OF this _ turn(4)] t turn(1) show ?thesis by simp
  next
    case (crash ev rest)
    then show ?thesis using no_crash [OF inv] by metis
  next
    case fail
    then show ?thesis using inv by (simp add: engine_inv_def)
  next
    case (take j js)
    then show ?thesis using t by (simp add: tidy_def)
  next
    case (finish xs j ys ev lost ops w)
    then show ?thesis using t by (simp add: tidy_def send_def)
  next
    case hang_up
    then show ?thesis using t by (simp add: tidy_def disconnected_def)
  qed
next
  case (client c)
  have "blake3_spec (hashing sur)" using assms(2) by (simp add: sound_surroundings_def)
  from perform_cases [OF client(3) this client(2)] show ?thesis using t send_request_tidy by metis
next
  case (waits p r)
  have "coord en' = coord en"
    using waits by (auto simp: wait_pending_def finish_join_def Let_def split: option.splits if_splits thread_state.splits join_outcome.splits)
  then show ?thesis using t by simp
next
  case leave
  then show ?thesis using t by simp
qed

lemma reaches_tidy:
  assumes "reaches sur config en en'" and "sound_surroundings sur config" and "engine_inv config en" and "tidy {} (coord en)"
  shows "tidy {} (coord en')"
  using assms(1)
proof (induction rule: rtranclp_induct)
  case (step y z)
  have "engine_inv config y" by (rule reaches_inv [OF step(1) assms(2,3)])
  then show ?case using engine_step_tidy [OF step(2) assms(2)] step(3) by blast
qed (rule assms(4))

lemma initial_tidy: "from_config spawn_failures panics spawn config w = Inr en \<Longrightarrow> tidy {} (coord en)"
  by (auto simp: from_config_def pool_new_def coordinator_init_def tidy_def split: sum.splits)

end
