(* ===== verification/Engine_History.thy ===== *)
theory Engine_History
  imports Engine_Live Registry "HOL-Library.Sublist"
begin

text \<open>
  Facts about whole runs: the finished operations are a history of the abstract map, closing is
  final, and what the invariants mean for the jobs and the replies.
\<close>

section \<open>Histories\<close>

lemma spec_sequence_snoc:
  assumes "spec_sequence plat config reqs m rs m'" and "spec_allows plat config k op m' res sent m''"
  shows "spec_sequence plat config (reqs @ [(k, op)]) m (rs @ [(res, sent)]) m''"
  using assms by (induction plat config reqs m rs m' rule: spec_sequence.induct) auto

definition history_refines :: "platform \<Rightarrow> crc32c \<Rightarrow> blake3 \<Rightarrow> store_config \<Rightarrow> blob_map \<Rightarrow> 'x engine \<Rightarrow> bool" where
  "history_refines plat c b3 config m0 en \<longleftrightarrow>
     (\<exists>m. spec_sequence plat config (map fst (finished en)) m0 (map snd (finished en)) m \<and> represents c b3 config m (disk en))"

lemma history_frame:
  "finished en' = finished en \<Longrightarrow> disk en' = disk en \<Longrightarrow> history_refines plat c b3 config m en' = history_refines plat c b3 config m en"
  by (simp add: history_refines_def)

lemma request_frame: "send_request ev en = Some en' \<Longrightarrow> finished en' = finished en \<and> disk en' = disk en"
  by (auto simp: send_request_def split: thread_state.splits)

lemma wait_frame:
  "wait_pending p en = Returns r en' \<Longrightarrow> coord en' = coord en \<and> finished en' = finished en \<and> disk en' = disk en
     \<and> requests en' = requests en \<and> thread en' = thread en \<and> running en' = running en"
  by (auto simp: wait_pending_def finish_join_def Let_def
      split: option.splits if_splits thread_state.splits join_outcome.splits)

lemma request_of_job:
  assumes "engine_inv config en" and "thread en = Running" and "running en = xs @ OperationJob k op # ys"
  shows "proper_request (k, op) \<and> owns_channels op"
proof -
  have h: "history_inv en" and "live_inv config en" using assms(1,2) by (simp_all add: engine_inv_def)
  then have "job_origin (requests en) (OperationJob k op)"
    using assms(3) by (simp add: live_inv_def coord_inv_def origin_inv_def)
  then have "op_sender op < length (requests en)" "requests en ! op_sender op = Submission k op" by (simp_all add: issued_def)
  then have "request_ok (op_sender op) (Submission k op)" using h by (metis history_inv_def)
  then show ?thesis by (simp add: request_ok_def)
qed

context backed_store
begin

lemma engine_step_refines:
  assumes step: "engine_step sur config en en'" and sur: "sound_surroundings sur config"
    and crates: "crates sur = env" "hashing sur = b3" and inv: "engine_inv config en"
    and h: "history_refines plat c b3 config m0 en"
  shows "history_refines plat c b3 config m0 en'"
  using step
proof (cases rule: engine_step.cases)
  case internally
  then show ?thesis
  proof (cases rule: internal.cases)
    case (finish xs j ys ev lost ops w)
    have t: "thread en = Running" using idle_workers [OF inv] finish(2) by auto
    have own: "\<forall>k op. j = OperationJob k op \<longrightarrow> owns_channels op"
      using request_of_job [OF inv t] finish(2) by blast
    from run_job_cases [OF finish(3) own] show ?thesis
    proof cases
      case (1 k op op' res sent r)
      from h obtain m where m: "spec_sequence plat config (map fst (finished en)) m0 (map snd (finished en)) m"
          "represents c b3 config m (disk en)" by (auto simp: history_refines_def)
      have "proper_request (k, op)" using request_of_job [OF inv t] finish(2) 1(1) by blast
      from operation_refines [OF m(2) this 1(9) [unfolded crates]] obtain m' where
        "spec_allows plat config k op m res sent m'" "represents c b3 config m' w" by blast
      from spec_sequence_snoc [OF m(1) this(1)] this(2) finish(1) 1(4) show ?thesis
        unfolding history_refines_def by (intro exI [of _ m']) simp
    next
      case (2 age s res)
      from h obtain m where m: "spec_sequence plat config (map fst (finished en)) m0 (map snd (finished en)) m"
          "represents c b3 config m (disk en)" by (auto simp: history_refines_def)
      from 2(5) cleanup_refines [OF m(2)] m(2) crates have "represents c b3 config m w" by auto
      with m(1) 2(4) finish(1) show ?thesis unfolding history_refines_def by (intro exI [of _ m]) simp
    qed
  qed (use h in \<open>simp_all add: history_refines_def\<close>)
next
  case (client x)
  have "blake3_spec (hashing sur)" using sur by (simp add: sound_surroundings_def)
  from perform_cases [OF client(3) this client(2)] show ?thesis
    using h history_frame request_frame by metis
next
  case (waits p r)
  then show ?thesis using h history_frame wait_frame by metis
next
  case leave
  then show ?thesis using h by (simp add: history_refines_def)
qed

lemma reaches_refines:
  assumes "reaches sur config en en'" and "sound_surroundings sur config"
    and "crates sur = env" "hashing sur = b3" and "engine_inv config en" and "history_refines plat c b3 config m0 en"
  shows "history_refines plat c b3 config m0 en'"
  using assms(1)
proof (induction rule: rtranclp_induct)
  case (step y z)
  have "engine_inv config y" by (rule reaches_inv [OF step(1) assms(2,5)])
  then show ?case using engine_step_refines [OF step(2) assms(2-4)] step(3) by blast
qed (rule assms(6))

end

section \<open>Closing is final\<close>

lemma handle_event_not_open:
  assumes "lifecycle st = Closing" and "handle_event iter config ev st = Some (st', check)"
  shows "lifecycle st' = Closing"
  by (rule handle_event_rule [OF assms(2), where Q = "\<lambda>s. lifecycle s = Closing"])
    (use assms(1) lifecycle_micro in \<open>auto simp: answer_def enqueue_def\<close>)

lemma send_request_lifecycle: "send_request ev en = Some en' \<Longrightarrow> lifecycle (coord en') = lifecycle (coord en)"
  by (auto simp: send_request_def send_def split: thread_state.splits)

lemma engine_step_not_open:
  assumes step: "engine_step sur config en en'" and sur: "sound_surroundings sur config" and inv: "engine_inv config en"
    and "lifecycle (coord en) \<noteq> Open"
  shows "lifecycle (coord en') \<noteq> Open"
  using step
proof (cases rule: engine_step.cases)
  case internally
  then show ?thesis
  proof (cases rule: internal.cases)
    case (turn ev rest st stopped)
    have "lifecycle ((coord en)\<lparr>inbox := rest\<rparr>) = Closing"
      using inv turn(2) assms(4) by (auto simp: engine_inv_def live_inv_def coord_inv_def basic_inv_def shape_inv_def)
    with turn(4) handle_event_not_open [OF this, of "map_order sur" config ev] have "lifecycle st \<noteq> Open"
      by (fastforce simp: scheduler_turn_def shut_down_def end_lifecycle_def split: option.splits if_splits prod.splits)
    then show ?thesis using turn(1) by simp
  next
    case (crash ev rest)
    then show ?thesis using no_crash [OF inv] by metis
  next
    case fail
    then show ?thesis using inv by (simp add: engine_inv_def)
  qed (use assms(4) in \<open>simp_all add: send_def disconnected_def\<close>)
next
  case (client x)
  have "blake3_spec (hashing sur)" using sur by (simp add: sound_surroundings_def)
  from perform_cases [OF client(3) this client(2)] show ?thesis using assms(4) send_request_lifecycle by metis
next
  case (waits p r)
  then show ?thesis using assms(4) wait_frame by metis
next
  case leave
  then show ?thesis using assms(4) by simp
qed

lemma reaches_not_open:
  assumes "reaches sur config en en'" and "sound_surroundings sur config" and "engine_inv config en"
    and "lifecycle (coord en) \<noteq> Open"
  shows "lifecycle (coord en') \<noteq> Open"
  using assms(1)
proof (induction rule: rtranclp_induct)
  case (step y z)
  have "engine_inv config y" by (rule reaches_inv [OF step(1) assms(2,3)])
  then show ?case using engine_step_not_open [OF step(2) assms(2)] step(3) by blast
qed (rule assms(4))

section \<open>What the invariant means\<close>

lemma count_one: "0 < (n :: nat) \<Longrightarrow> n \<le> m \<Longrightarrow> m = (if b then 1 else 0) \<Longrightarrow> n = 1 \<and> b"
  by (cases b) auto

lemma inv_exclusion:
  assumes inv: "engine_inv config en"
  defines "J \<equiv> jobs (pool (coord en)) @ running en"
  shows "distinct (concat (map job_key J))" and "length (concat (map job_key J)) \<le> cfg_max_concurrent config"
    and "MaintenanceJob age s \<in> set J \<Longrightarrow> J = [MaintenanceJob age s]"
proof -
  have closed: "J = []" if "thread en \<noteq> Running" using idle_workers [OF inv that] by (simp add: J_def)
  have live: "distinct (concat (map job_key J)) \<and> length (concat (map job_key J)) \<le> cfg_max_concurrent config
      \<and> (MaintenanceJob age s \<in> set J \<longrightarrow> J = [MaintenanceJob age s])" if "thread en = Running"
  proof -
    have f: "flight_inv config (running en) (coord en)" and m: "maintenance_inv (running en) (coord en)"
      using inv that by (simp_all add: engine_inv_def live_inv_def coord_inv_def basic_inv_def)
    have fl: "mset (flight (running en) (coord en)) = mset (active (coord en))" "distinct (active (coord en))"
        "length (active (coord en)) \<le> cfg_max_concurrent config" using f by (simp_all add: flight_inv_def)
    have split: "flight (running en) (coord en) = concat (map job_key J) @ concat (map completion_key (inbox (coord en)))"
      by (simp add: flight_def J_def)
    have "distinct (flight (running en) (coord en))" using fl(1,2) by (metis mset_eq_imp_distinct_iff)
    moreover have "length (flight (running en) (coord en)) \<le> cfg_max_concurrent config" using fl by (metis mset_eq_length)
    ultimately have "distinct (concat (map job_key J))" "length (concat (map job_key J)) \<le> cfg_max_concurrent config"
      unfolding split by (simp_all only: distinct_append length_append)
    moreover have "J = [MaintenanceJob age s]" if j: "MaintenanceJob age s \<in> set J"
    proof -
      have "MaintenanceJob age s \<in> set (filter (\<lambda>j. job_key j = []) J)" using j by simp
      then have "0 < length (filter (\<lambda>j. job_key j = []) J)" by (rule length_pos_if_in_set)
      moreover have le: "length (filter (\<lambda>j. job_key j = []) J) \<le> maintenances (running en) (coord en)"
        by (simp add: maintenances_def J_def)
      moreover have "maintenances (running en) (coord en) = (if maintenance_active (coord en) then 1 else 0)"
        using m by (simp add: maintenance_inv_def)
      ultimately have "length (filter (\<lambda>j. job_key j = []) J) = 1 \<and> maintenance_active (coord en)"
        by (rule count_one)
      then have one: "length (filter (\<lambda>j. job_key j = []) J) = 1" and ma: "maintenance_active (coord en)" by auto
      from ma m have act: "active (coord en) = []" by (simp add: maintenance_inv_def)
      have "flight (running en) (coord en) = []" using fl(1) act by simp
      then have "\<forall>j \<in> set J. job_key j = []" using split by simp
      then have "filter (\<lambda>j. job_key j = []) J = J" by simp
      with one j show ?thesis by (cases J) auto
    qed
    ultimately show ?thesis by blast
  qed
  show "distinct (concat (map job_key J))" "length (concat (map job_key J)) \<le> cfg_max_concurrent config"
    "MaintenanceJob age s \<in> set J \<Longrightarrow> J = [MaintenanceJob age s]"
    using live closed by (cases "thread en = Running"; simp)+
qed

lemma inv_order:
  assumes inv: "engine_inv config en"
  shows "sorted_wrt (<) (fin_of (finished en) k @ flying k (running en) (coord en) @ map op_sender (queue_of (queues (coord en)) k))"
    and "x \<in> set (fin_of (finished en) k @ flying k (running en) (coord en) @ map op_sender (queue_of (queues (coord en)) k)) \<Longrightarrow>
      y \<in> set (waiting (coord en)) \<Longrightarrow> x < y"
proof -
  let ?S = "\<lambda>k. fin_of (finished en) k @ flying k (running en) (coord en) @ map op_sender (queue_of (queues (coord en)) k)"
  have "sorted_wrt (<) (?S k) \<and> (x \<in> set (?S k) \<longrightarrow> y \<in> set (waiting (coord en)) \<longrightarrow> x < y)"
  proof (cases "thread en = Running")
    case True
    with inv have o: "order_inv (fin_of (finished en)) (running en) (coord en)"
      by (simp add: engine_inv_def live_inv_def coord_inv_def basic_inv_def)
    have "x \<in> admitted (running en) (coord en) \<or> x \<in> set (fin_of (finished en) k)" if "x \<in> set (?S k)"
      using that flying_admitted [of k "running en" "coord en"] queue_of_queued [of "queues (coord en)" k]
      by (auto simp: admitted_def)
    with o admitted_less [OF o] show ?thesis by (auto simp: order_inv_def)
  next
    case False
    with inv have c: "closed_inv (requests en) (results_of (finished en)) (running en) (coord en)" and h: "history_inv en"
      by (auto simp: engine_inv_def split: thread_state.splits)
    have "queued (queues (coord en)) = []" using c by (simp add: closed_inv_def owed_def)
    then have "queue_of (queues (coord en)) k = []" using queue_of_queued [of "queues (coord en)" k] by simp
    moreover have "waiting (coord en) = []" using c by (auto simp: closed_inv_def owed_def waiting_def)
    ultimately show ?thesis using c h by (simp add: closed_inv_def flying_def history_inv_def)
  qed
  then show "sorted_wrt (<) (?S k)" "x \<in> set (?S k) \<Longrightarrow> y \<in> set (waiting (coord en)) \<Longrightarrow> x < y" by auto
qed

lemma inv_replies:
  assumes "engine_inv config en"
  shows "dropped (coord en) = []" and "distinct (map fst (replies (coord en)))"
    and "r \<in> set (replies (coord en)) \<Longrightarrow> reply_origin (requests en) (results_of (finished en)) (lifecycle (coord en)) r"
    and "mset (map fst (replies (coord en))) + owed (running en) (coord en) = mset [0..<length (requests en)]"
proof -
  show d: "dropped (coord en) = []"
    using assms by (auto simp: engine_inv_def live_inv_def coord_inv_def closed_inv_def split: thread_state.splits)
  show a: "mset (map fst (replies (coord en))) + owed (running en) (coord en) = mset [0..<length (requests en)]"
    using assms d by (simp add: engine_inv_def history_inv_def account_def settled_def add.commute)
  then have "mset (map fst (replies (coord en))) \<subseteq># mset [0..<length (requests en)]"
    by (metis mset_subset_eq_add_left)
  then show "distinct (map fst (replies (coord en)))"
    using a by (metis distinct_append distinct_upt ex_mset mset_append mset_eq_imp_distinct_iff)
  show "r \<in> set (replies (coord en)) \<Longrightarrow> reply_origin (requests en) (results_of (finished en)) (lifecycle (coord en)) r"
    using assms by (auto simp: engine_inv_def live_inv_def coord_inv_def origin_inv_def closed_inv_def list_all_iff
        split: thread_state.splits)
qed

lemma result_of_request:
  assumes "(s, r) \<in> results_of F" and "issued H s (Submission k op)"
    and "\<forall>x \<in> set F. issued H (op_sender (snd (fst x))) (Submission (fst (fst x)) (snd (fst x)))"
  shows "\<exists>res sent. ((k, op), (res, sent)) \<in> set F \<and> deliver op res = Some (s, r)"
proof -
  from assms(1) obtain x where x: "x \<in> set F" "deliver (snd (fst x)) (fst (snd x)) = Some (s, r)"
    by (auto simp: results_of_def)
  then have "s = op_sender (snd (fst x))" by (simp add: deliver_sender)
  with x(1) assms(3) have "issued H s (Submission (fst (fst x)) (snd (fst x)))" by auto
  with assms(2) have "fst x = (k, op)" using issued_unique by (metis coordinator_event.inject(1) prod.collapse)
  with x have "((k, op), (fst (snd x), snd (snd x))) \<in> set F \<and> deliver op (fst (snd x)) = Some (s, r)"
    by (metis prod.collapse snd_conv)
  then show ?thesis by blast
qed

lemma reply_result:
  assumes inv: "engine_inv config en"
    and "issued (requests en) s (Submission k op)" and "(s, r) \<in> set (replies (coord en))"
  shows "(\<exists>res sent. ((k, op), (res, sent)) \<in> set (finished en) \<and> deliver op res = Some (s, r))
    \<or> (s, r) = deliver_error op StoreClosed \<or> (s, r) = deliver_error op WorkerUnavailable"
proof -
  from inv_replies(3) [OF inv assms(3)] assms(2) have "(s, r) \<in> results_of (finished en)
      \<or> (s, r) = deliver_error op StoreClosed \<or> (s, r) = deliver_error op WorkerUnavailable"
    by (auto simp: reply_origin_def coordination_error_def dest: issued_unique)
  then show ?thesis
    using result_of_request [OF _ assms(2)] inv by (auto simp: engine_inv_def history_inv_def)
qed

lemma inv_barrier:
  assumes inv: "engine_inv config en" and "issued (requests en) s (Flush s)" and "(s, Finished (Inr ())) \<in> set (replies (coord en))"
    and "x \<le> s"
  shows "\<exists>r. (x, r) \<in> set (replies (coord en))"
proof -
  have "\<forall>y \<in># owed (running en) (coord en). s < y"
  proof (cases "thread en = Running")
    case True
    with inv have "barrier_inv (requests en) (running en) (coord en)" by (simp add: engine_inv_def live_inv_def coord_inv_def)
    with assms(2,3) show ?thesis by (simp add: barrier_inv_def)
  next
    case False
    with inv show ?thesis by (auto simp: engine_inv_def closed_inv_def split: thread_state.splits)
  qed
  then have "x \<notin># owed (running en) (coord en)" using assms(4) by auto
  moreover have "x \<in># mset [0..<length (requests en)]" using assms(2,4) by (simp add: issued_def)
  ultimately have "x \<in># mset (map fst (replies (coord en)))" using inv_replies(4) [OF inv] by (metis union_iff)
  then show ?thesis by auto
qed

section \<open>Reachable states\<close>

definition reachable :: "'x surroundings \<Rightarrow> store_config \<Rightarrow> 'x engine \<Rightarrow> bool" where
  "reachable sur config en \<longleftrightarrow>
     (\<exists>spawn_failures panics w en0. from_config spawn_failures panics (Inr ()) config w = Inr en0 \<and> reaches sur config en0 en)"

lemma reachable_inv: "reachable sur config en \<Longrightarrow> sound_surroundings sur config \<Longrightarrow> engine_inv config en"
  unfolding reachable_def using reaches_inv initial_inv by blast

lemma reachable_tidy: "reachable sur config en \<Longrightarrow> sound_surroundings sur config \<Longrightarrow> tidy {} (coord en)"
  unfolding reachable_def using reaches_tidy initial_inv initial_tidy by blast

lemma reachable_step: "reachable sur config en \<Longrightarrow> reaches sur config en en' \<Longrightarrow> reachable sur config en'"
  unfolding reachable_def by (meson rtranclp_trans)

text \<open>Requests are never forgotten, and nothing happens after the end.\<close>

lemma perform_sends: "perform sur config c en = Some en' \<Longrightarrow> en' = en \<or> (\<exists>ev. send_request ev en = Some en')"
  by (cases c)
    (auto simp: load_def save_def start_save_stream_def start_load_stream_def clear_def inspect_def quarantine_def
      cleanup_stale_temporary_files_def flush_store_def close_store_def submit_def submit_operation_def Let_def
      split: sum.splits lifecycle.splits option.splits if_splits prod.splits)

lemma engine_step_requests:
  assumes "engine_step sur config en en'"
  shows "prefix (requests en) (requests en')"
  using assms
proof (cases rule: engine_step.cases)
  case internally
  then show ?thesis by (cases rule: internal.cases) auto
next
  case (client c)
  have "prefix (requests en) (requests en')" if "send_request ev en = Some en'" for ev
    using that by (auto simp: send_request_def split: thread_state.splits)
  with perform_sends [OF client(3)] show ?thesis by auto
next
  case (waits p r)
  then show ?thesis using wait_frame by (metis prefix_order.refl)
qed auto

lemma reaches_requests: "reaches sur config en en' \<Longrightarrow> prefix (requests en) (requests en')"
  by (induction rule: rtranclp_induct) (auto intro: prefix_order.trans engine_step_requests)

lemma issued_reaches: "reaches sur config en en' \<Longrightarrow> issued (requests en) s ev \<Longrightarrow> issued (requests en') s ev"
  using reaches_requests by (metis issued_append prefixE)

lemma engine_step_ended:
  assumes "engine_step sur config en en'" and "engine_inv config en" and e: "thread en = Exited b"
  shows "coord en' = coord en \<and> thread en' = Exited b"
  using assms(1)
proof (cases rule: engine_step.cases)
  case internally
  then show ?thesis using idle_workers [OF assms(2)] e by (cases rule: internal.cases) auto
next
  case (client c)
  then have "en' = en" using e
    by (cases c) (auto simp: load_def save_def start_save_stream_def start_load_stream_def clear_def inspect_def quarantine_def
        cleanup_stale_temporary_files_def flush_store_def close_store_def submit_def submit_operation_def Let_def send_request_def
        split: sum.splits lifecycle.splits option.splits if_splits prod.splits)
  then show ?thesis using e by simp
next
  case (waits p r)
  then show ?thesis using wait_frame e by metis
qed (use e in auto)

lemma reaches_ended:
  assumes "reaches sur config en en'" and "sound_surroundings sur config" and "engine_inv config en" and "thread en = Exited b"
  shows "coord en' = coord en \<and> thread en' = Exited b"
  using assms(1)
proof (induction rule: rtranclp_induct)
  case (step y z)
  with engine_step_ended [OF step(2) reaches_inv [OF step(1) assms(2,3)]] show ?case by simp
qed (simp add: assms(4))

end
