(* ===== verification/Windows_Facts.thy ===== *)
theory Windows_Facts
  imports Windows_Store Store_Model
begin

text \<open>
  Facts about the Windows backend. Locale \<open>win32_spec\<close> states the documented behaviour of the calls it
  makes on the files of its namespace directory. The temporary names are visible files here: what the
  store promises concerns all other names, so the frame relations of \<open>Unix_Facts\<close> are used with
  \<open>temporary\<close> for the hidden names.
\<close>

section \<open>Retry loops\<close>

lemma retry_rule:
  assumes "retry body s = Some r" and "I s"
    and "\<And>s s'. I s \<Longrightarrow> body s = Inr s' \<Longrightarrow> I s'"
  shows "\<exists>s. I s \<and> body s = Inl r"
proof -
  have "body = body \<longrightarrow> I s \<longrightarrow> (\<exists>s. I s \<and> body s = Inl r)"
  proof (rule retry.raw_induct [where P = "\<lambda>b s r. b = body \<longrightarrow> I s \<longrightarrow> (\<exists>s. I s \<and> body s = Inl r)", OF _ assms(1)])
    fix rt :: "('b \<Rightarrow> 'a + 'b) \<Rightarrow> 'b \<Rightarrow> 'a option" and b s r
    assume IH: "\<And>b s r. rt b s = Some r \<Longrightarrow> b = body \<longrightarrow> I s \<longrightarrow> (\<exists>s. I s \<and> body s = Inl r)"
      and "(case b s of Inl r \<Rightarrow> Some r | Inr s' \<Rightarrow> rt b s') = Some r"
    then show "b = body \<longrightarrow> I s \<longrightarrow> (\<exists>s. I s \<and> body s = Inl r)"
      using assms(3) by (cases "b s") auto
  qed
  with assms(2) show ?thesis by blast
qed

text \<open>A loop that must return in the first round that is not repeated.\<close>

lemma retry_returns: "body s = Inl r \<Longrightarrow> retry body s = Some r"
  by (subst retry.simps) simp

section \<open>Names\<close>

lemma lower_digit: "is_ascii_hexdigit b \<and> \<not> is_ascii_uppercase b \<longleftrightarrow> b \<in> lower_hex"
proof
  assume "b \<in> lower_hex"
  then show "is_ascii_hexdigit b \<and> \<not> is_ascii_uppercase b"
    by (auto simp: lower_hex_def is_ascii_hexdigit_def is_ascii_digit_def is_ascii_uppercase_def)
next
  assume "is_ascii_hexdigit b \<and> \<not> is_ascii_uppercase b"
  then have "of_char b \<in> {48..<58} \<union> {97..<103 :: nat}"
    by (auto simp: is_ascii_hexdigit_def is_ascii_digit_def is_ascii_uppercase_def)
  then have "of_char b \<in> set ([48..<58] @ [97..<103] :: nat list)" by (simp only: set_append set_upt)
  then have "char_of (of_char b :: nat) \<in> set (map char_of ([48..<58] @ [97..<103] :: nat list))" by (simp only: set_map imageI)
  moreover have "map char_of ([48..<58] @ [97..<103] :: nat list) = ''0123456789abcdef''"
    by code_simp
  ultimately show "b \<in> lower_hex" by (simp add: lower_hex_def)
qed

definition hex64 :: "string \<Rightarrow> bool" where
  "hex64 s \<longleftrightarrow> length s = 64 \<and> set s \<subseteq> lower_hex"

lemma lower_hex_not_dot: "set s \<subseteq> lower_hex \<Longrightarrow> CHR ''.'' \<notin> set s"
  by (auto simp: lower_hex_def)

lemma starts_with_append: "starts_with xs pre \<longleftrightarrow> (\<exists>r. xs = pre @ r)"
  by (metis append_take_drop_id starts_with_def append_eq_conv_conj)

lemma split_once_Some: "split_once pat s = Some (a, b) \<Longrightarrow> s = a @ pat @ b"
proof (induction s arbitrary: a)
  case (Cons x xs)
  show ?case
  proof (cases "starts_with (x # xs) pat")
    case True
    with Cons.prems show ?thesis by (auto simp: starts_with_append)
  next
    case False
    with Cons.prems obtain a' where "split_once pat xs = Some (a', b)" "a = x # a'" by auto
    with Cons.IH show ?thesis by simp
  qed
qed (auto split: if_splits)

lemma split_once_dot: "CHR ''.'' \<notin> set a \<Longrightarrow> split_once (CHR ''.'' # pat) (a @ CHR ''.'' # pat @ b) = Some (a, b)"
  by (induction a) (auto simp: starts_with_def)

lemma owned_iff:
  assumes "valid_suffix sfx"
  shows "is_owned_temporary_filename name sfx \<longleftrightarrow>
    (\<exists>hash purpose ident. name = hash @ sfx @ ''.tmp-v1.'' @ purpose @ ''.'' @ ident
       \<and> hex64 hash \<and> purpose \<in> {''save'', ''clear''} \<and> hex64 ident)" (is "?L \<longleftrightarrow> ?R")
proof -
  let ?lower = "list_all (\<lambda>b. is_ascii_hexdigit b \<and> \<not> is_ascii_uppercase b)"
  have low: "?lower s \<longleftrightarrow> set s \<subseteq> lower_hex" for s by (auto simp: list_all_iff lower_digit)
  have "?R" if ?L
  proof -
    from that have ?L .
    then obtain hash rest where s: "split_once (sfx @ ''.tmp-v1.'') name = Some (hash, rest)"
      by (cases "split_once (sfx @ ''.tmp-v1.'') name") (auto simp: is_owned_temporary_filename_def)
    with \<open>?L\<close> have h: "split_once (sfx @ ''.tmp-v1.'') name = Some (hash, rest)" "length hash = 64" "?lower hash"
      and "case split_once ''.'' rest of None \<Rightarrow> False
         | Some (purpose, ident) \<Rightarrow> (purpose = ''save'' \<or> purpose = ''clear'') \<and> length ident = 64 \<and> ?lower ident"
      unfolding is_owned_temporary_filename_def Let_def by (simp_all split: if_splits)
    then obtain purpose ident where "split_once ''.'' rest = Some (purpose, ident)"
        "purpose = ''save'' \<or> purpose = ''clear''" "length ident = 64" "?lower ident"
      by (auto split: option.splits)
    with h split_once_Some [OF h(1)] split_once_Some [of "''.''" rest purpose ident] show ?R
      unfolding hex64_def low
      by (intro exI [of _ hash] exI [of _ purpose] exI [of _ ident]) auto
  qed
  moreover have ?L if ?R
  proof -
    from that obtain hash purpose ident where n: "name = hash @ sfx @ ''.tmp-v1.'' @ purpose @ ''.'' @ ident"
      and h: "hex64 hash" "hex64 ident" and pu: "purpose = ''save'' \<or> purpose = ''clear''" by auto
    obtain r where r: "sfx = CHR ''.'' # r" by (rule valid_suffix_dots [OF assms])
    have "split_once (sfx @ ''.tmp-v1.'') name = Some (hash, purpose @ ''.'' @ ident)"
      using split_once_dot [of hash "r @ ''.tmp-v1.''" "purpose @ ''.'' @ ident"] h(1) n r
      by (simp add: hex64_def lower_hex_not_dot)
    moreover have "split_once ''.'' (purpose @ ''.'' @ ident) = Some (purpose, ident)"
      using split_once_dot [of purpose "[]" ident] pu by auto
    ultimately show ?L using h pu unfolding is_owned_temporary_filename_def Let_def hex64_def low by simp
  qed
  ultimately show ?thesis by blast
qed

text \<open>Names the store makes up: they have no separator in either convention.\<close>

definition portable :: "string \<Rightarrow> bool" where
  "portable name \<longleftrightarrow> name \<noteq> [] \<and> list_all (\<lambda>c. suffix_byte c \<or> c = CHR ''.'') name"

definition temporary :: "store_config \<Rightarrow> path \<Rightarrow> bool" where
  "temporary config p \<longleftrightarrow> (\<exists>name. p = join (namespace config) (relative name)
     \<and> is_owned_temporary_filename name (filename_suffix (format config)))"

lemma in_directory_inj: "join d (relative a) = join d (relative b) \<longleftrightarrow> a = b"
  by (simp add: join_def)

lemma hex_portable: "set s \<subseteq> lower_hex \<Longrightarrow> c \<in> set s \<Longrightarrow> suffix_byte c"
  by (auto simp: lower_hex_def suffix_byte_def is_ascii_lowercase_def is_ascii_digit_def)

lemma not_owned_lengths:
  assumes "hex64 hash" and "hex64 hash'"
  shows "hash @ sfx \<noteq> hash' @ sfx @ ''.tmp-v1.'' @ x"
    and "hash @ sfx @ ''.quarantine-v1.'' @ y \<noteq> hash' @ sfx @ ''.tmp-v1.'' @ x"
proof
  assume "hash @ sfx = hash' @ sfx @ ''.tmp-v1.'' @ x"
  then have "length (hash @ sfx) = length (hash' @ sfx @ ''.tmp-v1.'' @ x)" by simp
  with assms show False by (simp add: hex64_def)
next
  show "hash @ sfx @ ''.quarantine-v1.'' @ y \<noteq> hash' @ sfx @ ''.tmp-v1.'' @ x"
    using assms by (auto simp: hex64_def append_eq_append_conv)
qed

section \<open>Contract of the platform\<close>

definition touch :: "system_time \<Rightarrow> node \<Rightarrow> node" where
  "touch t n = (case n of Regular bs _ \<Rightarrow> Regular bs (Some t) | _ \<Rightarrow> n)"

text \<open>The time a \<^verbatim>\<open>FILETIME\<close> stands for, in nanoseconds since the epoch.\<close>

definition file_time_value :: "u32 \<times> u32 \<Rightarrow> system_time" where
  "file_time_value ft = (uint (fst ft) + uint (snd ft) * 2 ^ 32 - 116444736000000000) * 100"

text \<open>\<open>definite\<close>: a move that reports failure is known to have left the files as they were. Nothing is
  documented to that end; without it the move may also have been made.\<close>

locale win32_spec =
  fixes w32 :: "'x win32" and dir :: path and opened :: "handle \<Rightarrow> 'x world \<Rightarrow> path option" and definite :: bool
  assumes random: "win_random w32 n w = (rnd, w') \<Longrightarrow> nodes w' = nodes w \<and> (\<forall>bs. rnd = Inr bs \<longrightarrow> length bs = n)"
    and absolute_nodes: "absolute_path w32 root w = (resolved, w') \<Longrightarrow> nodes w' = nodes w"
    and now_nodes: "system_now w32 w = (now, w') \<Longrightarrow> nodes w' = nodes w"
    and create_fail: "portable name \<Longrightarrow> create_file w32 (wide w32 (join dir (relative name))) GENERIC_WRITE 0 CREATE_NEW
        WRITE_THROUGH_FILE w = (INVALID_HANDLE_VALUE, w') \<Longrightarrow> nodes w' = nodes w"
    and create_ok: "portable name \<Longrightarrow> create_file w32 (wide w32 (join dir (relative name))) GENERIC_WRITE 0 CREATE_NEW
        WRITE_THROUGH_FILE w = (h, w') \<Longrightarrow> h \<noteq> INVALID_HANDLE_VALUE \<Longrightarrow> nodes w (join dir (relative name)) = None
        \<and> (\<exists>t. nodes w' = (nodes w)(join dir (relative name) \<mapsto> Regular [] t)) \<and> opened h w' = Some (join dir (relative name))"
    and open_fail: "portable name \<Longrightarrow> create_file w32 (wide w32 (join dir (relative name)))
        (or GENERIC_WRITE FILE_WRITE_ATTRIBUTES) 0 OPEN_EXISTING WRITE_THROUGH_FILE w = (INVALID_HANDLE_VALUE, w') \<Longrightarrow>
        nodes w' = nodes w \<and> (kind (last_os_error w32 w') = NotFound \<longrightarrow> nodes w (join dir (relative name)) = None)"
    and open_ok: "portable name \<Longrightarrow> create_file w32 (wide w32 (join dir (relative name)))
        (or GENERIC_WRITE FILE_WRITE_ATTRIBUTES) 0 OPEN_EXISTING WRITE_THROUGH_FILE w = (h, w') \<Longrightarrow> h \<noteq> INVALID_HANDLE_VALUE \<Longrightarrow>
        nodes w' = nodes w \<and> nodes w (join dir (relative name)) \<noteq> None \<and> opened h w' = Some (join dir (relative name))"
    and open_directory: "create_file w32 (wide w32 dir) GENERIC_WRITE FILE_SHARE_ALL OPEN_EXISTING FILE_FLAG_BACKUP_SEMANTICS w
        = (h, w') \<Longrightarrow> nodes w' = nodes w"
    and write_fail: "write_handle w32 h d w = (Inl e, w') \<Longrightarrow> kind e \<noteq> AlreadyExists"
    and write_effect: "opened h w = Some p \<Longrightarrow> nodes w p = Some (Regular bs t) \<Longrightarrow> write_handle w32 h d w = (x, w') \<Longrightarrow>
        opened h w' = Some p \<and> (\<exists>bs' t'. nodes w' = (nodes w)(p \<mapsto> Regular bs' t') \<and> (isl x \<or> bs' = bs @ d))"
    and flush_effect: "flush_file_buffers w32 h w = (r, w') \<Longrightarrow>
        nodes w' = nodes w \<and> (r = 0 \<longrightarrow> kind (last_os_error w32 w') \<notin> {AlreadyExists, NotFound})"
    and set_time_effect: "opened h w = Some p \<Longrightarrow> set_file_time w32 h ft w = (r, w') \<Longrightarrow>
        nodes w' = (if r = 0 then nodes w else (nodes w)(p := map_option (touch (file_time_value ft)) (nodes w p)))
        \<and> (r = 0 \<longrightarrow> kind (last_os_error w32 w') \<noteq> NotFound)"
    and close_nodes: "nodes (close_handle w32 h w) = nodes w"
    and move_fail: "portable a \<Longrightarrow> portable b \<Longrightarrow>
        move_file_ex w32 (wide w32 (join dir (relative a))) (wide w32 (join dir (relative b))) flags w = (0, w') \<Longrightarrow>
        nodes w' = nodes w \<and> (kind (last_os_error w32 w') = NotFound \<longrightarrow> nodes w (join dir (relative a)) = None)
        \<and> (kind (last_os_error w32 w') = AlreadyExists \<longrightarrow> nodes w (join dir (relative b)) \<noteq> None)
        \<or> \<not> definite \<and> nodes w (join dir (relative a)) \<noteq> None
        \<and> nodes w' = (nodes w)(join dir (relative b) := nodes w (join dir (relative a)), join dir (relative a) := None)"
    and move_ok: "portable a \<Longrightarrow> portable b \<Longrightarrow> a \<noteq> b \<Longrightarrow>
        move_file_ex w32 (wide w32 (join dir (relative a))) (wide w32 (join dir (relative b))) flags w = (r, w') \<Longrightarrow> r \<noteq> 0 \<Longrightarrow>
        nodes w (join dir (relative a)) \<noteq> None
        \<and> (nodes w (join dir (relative b)) = None \<or> and flags MOVEFILE_REPLACE_EXISTING \<noteq> 0)
        \<and> nodes w' = (nodes w)(join dir (relative b) := nodes w (join dir (relative a)), join dir (relative a) := None)"
    and delete_effect: "portable a \<Longrightarrow> delete_file_w w32 (wide w32 (join dir (relative a))) w = (r, w') \<Longrightarrow>
        nodes w' = (if r = 0 then nodes w else (nodes w)(join dir (relative a) := None))"
    and read_dir_nodes: "read_dir w32 dir w = (listing, w') \<Longrightarrow> nodes w' = nodes w"
    and read_dir_entries: "read_dir w32 dir w = (Inr es, w') \<Longrightarrow> Inr (name, p) \<in> set es \<Longrightarrow> portable name \<Longrightarrow> p = join dir (relative name)"

text \<open>A file opened for writing is a writer in the sense of \<open>Envelope_Stream\<close>.\<close>

sublocale win32_spec \<subseteq> handle: writer "write_handle w32 h"
    "\<lambda>w. case nodes w p of Some (Regular bs _) \<Rightarrow> bs | _ \<Rightarrow> []"
    "\<lambda>w. opened h w = Some p \<and> (\<exists>bs t. nodes w p = Some (Regular bs t))" for h p
proof
  fix w d u w'
  assume l: "opened h w = Some p \<and> (\<exists>bs t. nodes w p = Some (Regular bs t))" and wr: "write_handle w32 h d w = (Inr u, w')"
  then obtain bs t where b: "nodes w p = Some (Regular bs t)" by blast
  from write_effect [OF _ b wr] l b show "(case nodes w' p of Some (Regular bs _) \<Rightarrow> bs | _ \<Rightarrow> []) =
      (case nodes w p of Some (Regular bs _) \<Rightarrow> bs | _ \<Rightarrow> []) @ d \<and> opened h w' = Some p \<and> (\<exists>bs t. nodes w' p = Some (Regular bs t))"
    by auto
qed

section \<open>Staging\<close>

text \<open>Writing one new file: all others are as they were.\<close>

definition writing :: "(handle \<Rightarrow> 'x world \<Rightarrow> path option) \<Rightarrow> handle \<Rightarrow> path \<Rightarrow> 'x world \<Rightarrow> 'x world \<Rightarrow> bool" where
  "writing opened h p w0 w \<longleftrightarrow> opened h w = Some p \<and> (\<exists>bs t. nodes w p = Some (Regular bs t))
     \<and> (\<forall>q. q \<noteq> p \<longrightarrow> nodes w q = nodes w0 q)"

lemma stream_chunks_error:
  assumes "\<And>d w e w'. write_all d w = (Inl e, w') \<Longrightarrow> kind e \<noteq> AlreadyExists"
    and "stream_chunks c write_all declared checksum written ms w = (Inl e, w')"
  shows "\<not> name_taken e"
  using assms(2)
proof (induction ms arbitrary: checksum written w)
  case (Cons m ms)
  have step: "\<not> name_taken (Io op x)" if "write_all d w = (Inl x, w1)" for op d x w1
    using assms(1) [OF that] by simp
  show ?case
  proof (cases m)
    case (Chunk bs)
    with Cons step [of bs] show ?thesis
      by (auto simp: Let_def split: option.splits if_splits prod.splits sum.splits)
  next
    case Complete
    with Cons.prems step show ?thesis by (auto split: if_splits prod.splits sum.splits)
  qed
qed auto

lemma write_stream_envelope_error:
  assumes "\<And>d w e w'. write_all d w = (Inl e, w') \<Longrightarrow> kind e \<noteq> AlreadyExists"
    and "write_stream_envelope c write_all config w declared ms = (Inl e, w')"
  shows "\<not> name_taken e"
proof (cases "envelope_header (format config) declared (maximum config)")
  case (Inl e')
  with assms(2) show ?thesis by (auto simp: write_stream_envelope_def envelope_header_def split: if_splits)
next
  case (Inr h)
  obtain x w1 where x: "write_all h w = (x, w1)" by fastforce
  with assms Inr stream_chunks_error [of write_all, OF assms(1)] show ?thesis
    by (cases x) (auto simp: write_stream_envelope_def)
qed

context win32_spec
begin

lemma writing_keeps: "writing opened h p w0 w \<Longrightarrow> writing opened h p w0 (snd (write_handle w32 h d w))"
proof -
  assume wr: "writing opened h p w0 w"
  then obtain bs t where b: "opened h w = Some p" "nodes w p = Some (Regular bs t)" by (auto simp: writing_def)
  obtain x w' where x: "write_handle w32 h d w = (x, w')" by fastforce
  from write_effect [OF b x] wr x show ?thesis by (auto simp: writing_def)
qed

lemma sections_effect:
  "write_windows_sections w32 h sects w = (res, w') \<Longrightarrow> writing opened h p w0 w \<Longrightarrow> nodes w p = Some (Regular bs t) \<Longrightarrow>
   writing opened h p w0 w' \<and> (case res of Inl e \<Rightarrow> \<not> name_taken e | Inr _ \<Rightarrow> \<exists>t'. nodes w' p = Some (Regular (bs @ concat sects) t'))"
proof (induction sects arbitrary: w bs t)
  case (Cons d sects)
  obtain x w1 where x: "write_handle w32 h d w = (x, w1)" by fastforce
  have w1: "writing opened h p w0 w1" using writing_keeps [OF Cons.prems(2), of d] x by simp
  show ?case
  proof (cases x)
    case (Inl e)
    with Cons.prems x w1 write_fail [OF x [unfolded Inl]] show ?thesis by auto
  next
    case (Inr u)
    have "opened h w = Some p" using Cons.prems(2) by (simp add: writing_def)
    from write_effect [OF this Cons.prems(3) x] Inr obtain t' where "nodes w1 p = Some (Regular (bs @ d) t')" by auto
    with Cons.IH [OF _ w1 this] Cons.prems(1) x Inr show ?thesis by (cases res) auto
  qed
qed auto

text \<open>What a staging function may leave behind, by its result; \<open>content\<close> says which bytes are possible.\<close>

definition staging_effect :: "path \<Rightarrow> (bytes \<Rightarrow> bool) \<Rightarrow> 'x world \<Rightarrow> store_error + unit \<Rightarrow> 'x world \<Rightarrow> bool" where
  "staging_effect p content w res w' \<longleftrightarrow>
    (\<forall>q. q \<noteq> p \<longrightarrow> nodes w' q = nodes w q) \<and> (nodes w p \<noteq> None \<longrightarrow> nodes w' = nodes w)
    \<and> (case res of
         Inl e \<Rightarrow> name_taken e \<longrightarrow> nodes w' = nodes w
       | Inr _ \<Rightarrow> nodes w p = None \<and> (\<exists>bs t. nodes w' p = Some (Regular bs t) \<and> content bs))"

lemma finish_staging_effect:
  assumes "finish_staging w32 h (x, w2) = (res, w')" and "writing opened h p w0 w2" and "nodes w0 p = None"
    and "case x of Inl e \<Rightarrow> \<not> name_taken e | Inr _ \<Rightarrow> \<exists>bs t. nodes w2 p = Some (Regular bs t) \<and> content bs"
  shows "staging_effect p content w0 res w'"
proof (cases x)
  case (Inl e)
  with assms show ?thesis by (auto simp: finish_staging_def staging_effect_def writing_def close_nodes)
next
  case (Inr u)
  obtain b w3 where b: "flush_file_buffers w32 h w2 = (b, w3)" by fastforce
  with assms Inr flush_effect [OF b] show ?thesis
    by (auto simp: finish_staging_def staging_effect_def writing_def close_nodes)
qed

lemma create_new_effect:
  assumes "portable name" and "create_new w32 (join dir (relative name)) w = (x, w')"
  shows "case x of
      Inl e \<Rightarrow> nodes w' = nodes w
    | Inr h \<Rightarrow> nodes w (join dir (relative name)) = None \<and> writing opened h (join dir (relative name)) w w'
        \<and> (\<exists>t. nodes w' (join dir (relative name)) = Some (Regular [] t))"
proof -
  obtain h w1 where h: "create_file w32 (wide w32 (join dir (relative name))) GENERIC_WRITE 0 CREATE_NEW WRITE_THROUGH_FILE w = (h, w1)"
    by fastforce
  show ?thesis
  proof (cases "h = INVALID_HANDLE_VALUE")
    case True
    with assms(2) h create_fail [OF assms(1)] show ?thesis by (auto simp: create_new_def)
  next
    case False
    with assms(2) h create_ok [OF assms(1) h False] show ?thesis by (auto simp: create_new_def writing_def)
  qed
qed

lemma create_windows_staging_effect:
  assumes n: "portable name"
    and c: "create_windows_staging w32 (join dir (relative name)) header payload checksum w = (res, w')"
  shows "staging_effect (join dir (relative name)) (\<lambda>bs. bs = header @ payload @ checksum) w res w'"
proof -
  obtain x w1 where x: "create_new w32 (join dir (relative name)) w = (x, w1)" by fastforce
  note x1 = create_new_effect [OF n x]
  show ?thesis
  proof (cases x)
    case (Inl e)
    with c x x1 show ?thesis by (auto simp: create_windows_staging_def staging_effect_def)
  next
    case (Inr h)
    obtain y w2 where y: "write_windows_sections w32 h [header, payload, checksum] w1 = (y, w2)" by fastforce
    from x1 Inr obtain t where h: "nodes w (join dir (relative name)) = None" "writing opened h (join dir (relative name)) w w1"
        "nodes w1 (join dir (relative name)) = Some (Regular [] t)" by auto
    from sections_effect [OF y h(2,3)] c x Inr y show ?thesis
      by (intro finish_staging_effect [OF _ _ h(1)]) (auto simp: create_windows_staging_def split: sum.splits)
  qed
qed

lemma create_windows_streaming_staging_effect:
  assumes n: "portable name" and crc: "crc32c_spec c" and vec: "vec_chunks chunks"
    and c: "create_windows_streaming_staging w32 c config (join dir (relative name)) declared chunks w = (res, rest, w')"
  shows "staging_effect (join dir (relative name)) (\<lambda>bs. \<exists>p. completed chunks = Some p \<and> length p = unat declared
      \<and> length p \<le> unat (maximum config) \<and> bs = envelope_layout c (format config) p) w res w'"
    and "res = Inl e \<Longrightarrow> name_taken e \<Longrightarrow> rest = chunks"
proof -
  let ?p = "join dir (relative name)"
  obtain x w1 where x: "create_new w32 ?p w = (x, w1)" by fastforce
  note x1 = create_new_effect [OF n x]
  have "staging_effect ?p (\<lambda>bs. \<exists>p. completed chunks = Some p \<and> length p = unat declared
      \<and> length p \<le> unat (maximum config) \<and> bs = envelope_layout c (format config) p) w res w'
    \<and> (res = Inl e \<longrightarrow> name_taken e \<longrightarrow> rest = chunks)"
  proof (cases x)
    case (Inl e)
    with c x x1 show ?thesis by (auto simp: create_windows_streaming_staging_def staging_effect_def)
  next
    case (Inr h)
    obtain y w2 where y: "write_stream_envelope c (write_handle w32 h) config w1 declared chunks = (y, w2)" by fastforce
    from x1 Inr obtain t where h: "nodes w ?p = None" "writing opened h ?p w w1" "nodes w1 ?p = Some (Regular [] t)" by auto
    from c x Inr y have f: "finish_staging w32 h (y, w2) = (res, w')"
      by (auto simp: create_windows_streaming_staging_def split: prod.splits)
    have keep: "writing opened h ?p w w2"
      using write_stream_envelope_keeps [where P = "writing opened h ?p w" and write_all = "write_handle w32 h",
        OF writing_keeps h(2)] y by (metis snd_conv)
    have err: "\<not> name_taken e" if "y = Inl e" for e
      by (rule write_stream_envelope_error [OF write_fail]) (use y that in auto)
    have ok: "\<exists>bs t. nodes w2 ?p = Some (Regular bs t) \<and> (\<exists>p. completed chunks = Some p \<and> length p = unat declared
      \<and> length p \<le> unat (maximum config) \<and> bs = envelope_layout c (format config) p)" if "y = Inr u" for u
    proof -
      have cw: "checked_writer (write_handle w32 h) (\<lambda>w. case nodes w ?p of Some (Regular bs _) \<Rightarrow> bs | _ \<Rightarrow> [])
          (\<lambda>w. opened h w = Some ?p \<and> (\<exists>bs t. nodes w ?p = Some (Regular bs t))) c"
        by (intro checked_writer.intro handle.writer_axioms crc)
      have "opened h w1 = Some ?p \<and> (\<exists>bs t. nodes w1 ?p = Some (Regular bs t))" using h by (auto simp: writing_def)
      from checked_writer.write_stream_envelope_ok [OF cw y [unfolded that] this vec] h(3) show ?thesis by auto
    qed
    have "staging_effect ?p (\<lambda>bs. \<exists>p. completed chunks = Some p \<and> length p = unat declared
      \<and> length p \<le> unat (maximum config) \<and> bs = envelope_layout c (format config) p) w res w'"
      by (rule finish_staging_effect [OF f keep h(1)]) (use err ok in \<open>auto split: sum.splits\<close>)
    moreover have "\<not> name_taken e" if "res = Inl e"
    proof (cases y)
      case (Inl e')
      with f that err show ?thesis by (auto simp: finish_staging_def)
    next
      case (Inr u)
      obtain b w3 where b: "flush_file_buffers w32 h w2 = (b, w3)" by fastforce
      with f that Inr flush_effect [OF b] show ?thesis by (auto simp: finish_staging_def split: if_splits)
    qed
    ultimately show ?thesis by blast
  qed
  then show "staging_effect ?p (\<lambda>bs. \<exists>p. completed chunks = Some p \<and> length p = unat declared
      \<and> length p \<le> unat (maximum config) \<and> bs = envelope_layout c (format config) p) w res w'"
    "res = Inl e \<Longrightarrow> name_taken e \<Longrightarrow> rest = chunks" by auto
qed

lemma move_file_effect:
  assumes "portable a" and "portable b" and "a \<noteq> b"
    and "move_file w32 (join dir (relative a)) (join dir (relative b)) flags w = (x, w')"
  shows "case x of
      Inl e \<Rightarrow> nodes w' = nodes w \<and> (kind e = NotFound \<longrightarrow> nodes w (join dir (relative a)) = None)
        \<and> (kind e = AlreadyExists \<longrightarrow> nodes w (join dir (relative b)) \<noteq> None)
        \<or> \<not> definite \<and> nodes w (join dir (relative a)) \<noteq> None
        \<and> nodes w' = (nodes w)(join dir (relative b) := nodes w (join dir (relative a)), join dir (relative a) := None)
    | Inr _ \<Rightarrow> nodes w (join dir (relative a)) \<noteq> None
        \<and> (nodes w (join dir (relative b)) = None \<or> and flags MOVEFILE_REPLACE_EXISTING \<noteq> 0)
        \<and> nodes w' = (nodes w)(join dir (relative b) := nodes w (join dir (relative a)), join dir (relative a) := None)"
proof -
  obtain r w1 where r: "move_file_ex w32 (wide w32 (join dir (relative a))) (wide w32 (join dir (relative b))) flags w = (r, w1)"
    by fastforce
  show ?thesis
  proof (cases "r = 0")
    case True
    with assms(4) r move_fail [OF assms(1,2), of flags w w1] show ?thesis by (auto simp: move_file_def)
  next
    case False
    with assms(4) r move_ok [OF assms(1-3) r False] show ?thesis by (auto simp: move_file_def)
  qed
qed

lemma delete_file_effect:
  assumes "portable a" and "delete_file w32 (join dir (relative a)) w = (x, w')"
  shows "nodes w' = (if isl x then nodes w else (nodes w)(join dir (relative a) := None))"
proof -
  obtain r w1 where r: "delete_file_w w32 (wide w32 (join dir (relative a))) w = (r, w1)" by fastforce
  with assms(2) delete_effect [OF assms(1) r] show ?thesis by (auto simp: delete_file_def)
qed

lemma sync_windows_directory_nodes:
  assumes "namespace config = dir" and "sync_windows_directory w32 config w = (x, w')"
  shows "nodes w' = nodes w"
proof -
  obtain h w1 where h: "create_file w32 (wide w32 dir) GENERIC_WRITE FILE_SHARE_ALL OPEN_EXISTING FILE_FLAG_BACKUP_SEMANTICS w = (h, w1)"
    by fastforce
  obtain b w2 where b: "flush_file_buffers w32 h w1 = (b, w2)" by fastforce
  from assms h b open_directory [OF h] flush_effect [OF b] show ?thesis
    by (auto simp: sync_windows_directory_def close_nodes split: if_splits)
qed

lemma random_identifier_effect:
  assumes "random_identifier (win_random w32) w = (x, w')"
  shows "nodes w' = nodes w" and "x = Inr ident \<Longrightarrow> hex64 ident"
  using assms random [of 32 w]
  by (auto simp: random_identifier_hex hex64_def length_hex set_hex [THEN subsetD] split: prod.splits sum.splits)

text \<open>Refreshing changes at most the modification time of the file, and sets it to the clock.\<close>

definition aged :: "path \<Rightarrow> 'x world \<Rightarrow> 'x world \<Rightarrow> bool" where
  "aged p w w' \<longleftrightarrow> nodes w' = nodes w \<or> (\<exists>t. nodes w' = (nodes w)(p := map_option (touch t) (nodes w p)))"

lemma refresh_effect:
  assumes n: "portable name" and rf: "refresh_windows_clear_age w32 (join dir (relative name)) w = (x, w')"
  shows "aged (join dir (relative name)) w w'"
    and "x = Inl e \<Longrightarrow> kind e = NotFound \<Longrightarrow> nodes w' = nodes w \<and> nodes w (join dir (relative name)) = None"
    and "x = Inr u \<Longrightarrow> \<exists>secs nanos ticks. since_epoch (fst (system_now w32 w)) = Some (secs, nanos) \<and> file_time_ticks secs nanos = Some ticks
      \<and> nodes w' = (nodes w)(join dir (relative name) :=
          map_option (touch (file_time_value (filetime_of ticks))) (nodes w (join dir (relative name))))"
proof -
  let ?p = "join dir (relative name)"
  have "aged ?p w w' \<and> (\<forall>e. x = Inl e \<longrightarrow> kind e = NotFound \<longrightarrow> nodes w' = nodes w \<and> nodes w ?p = None)
    \<and> (\<forall>u. x = Inr u \<longrightarrow> (\<exists>secs nanos ticks. since_epoch (fst (system_now w32 w)) = Some (secs, nanos) \<and> file_time_ticks secs nanos = Some ticks
      \<and> nodes w' = (nodes w)(?p := map_option (touch (file_time_value (filetime_of ticks))) (nodes w ?p))))"
  proof -
    obtain now w1 where now: "system_now w32 w = (now, w1)" by fastforce
    note n1 = now_nodes [OF now]
    have other: "kind other_error \<noteq> NotFound" by (simp add: other_error_def)
    show ?thesis
    proof (cases "case since_epoch now of None \<Rightarrow> None | Some (secs, nanos) \<Rightarrow> file_time_ticks secs nanos")
      case None
      with rf now have "x = Inl other_error \<and> w' = w1"
        by (auto simp: refresh_windows_clear_age_def split: option.splits)
      with n1 other show ?thesis by (auto simp: aged_def)
    next
      case (Some ticks)
      then obtain secs nanos where sn: "since_epoch now = Some (secs, nanos)" "file_time_ticks secs nanos = Some ticks"
        by (auto split: option.splits)
      obtain h w2 where h: "create_file w32 (wide w32 ?p) (or GENERIC_WRITE FILE_WRITE_ATTRIBUTES) 0 OPEN_EXISTING
          WRITE_THROUGH_FILE w1 = (h, w2)" by fastforce
      show ?thesis
      proof (cases "h = INVALID_HANDLE_VALUE")
        case True
        with rf now sn h have "x = Inl (last_os_error w32 w2) \<and> w' = w2" by (auto simp: refresh_windows_clear_age_def)
        with open_fail [OF n h [unfolded True]] n1 show ?thesis by (auto simp: aged_def)
      next
        case False
        note h' = open_ok [OF n h False]
        obtain b w3 where b: "set_file_time w32 h (filetime_of ticks) w2 = (b, w3)" by fastforce
        from h' have op: "opened h w2 = Some ?p" by blast
        note b' = set_time_effect [OF op b]
        obtain b2 w4 where b2: "flush_file_buffers w32 h w3 = (b2, w4)" by fastforce
        have w': "nodes w' = nodes w3" and xe: "x = (if b = 0 then Inl (last_os_error w32 w3)
            else if b2 = 0 then Inl (last_os_error w32 w4) else Inr ())"
          using rf now sn h False b b2 flush_effect [OF b2]
          by (auto simp: refresh_windows_clear_age_def close_nodes split: if_splits)
        have ag: "aged ?p w w'" using w' b' h' n1 by (auto simp: aged_def)
        have nf: "kind e \<noteq> NotFound" if "x = Inl e" for e
          using that xe b' flush_effect [OF b2] by (auto split: if_splits)
        have "nodes w' = (nodes w)(?p := map_option (touch (file_time_value (filetime_of ticks))) (nodes w ?p))" if "x = Inr u" for u
          using that xe w' b' h' n1 by (auto split: if_splits)
        with ag nf sn now show ?thesis by auto
      qed
    qed
  qed
  then show "aged ?p w w'"
    "x = Inl e \<Longrightarrow> kind e = NotFound \<Longrightarrow> nodes w' = nodes w \<and> nodes w ?p = None"
    "x = Inr u \<Longrightarrow> \<exists>secs nanos ticks. since_epoch (fst (system_now w32 w)) = Some (secs, nanos) \<and> file_time_ticks secs nanos = Some ticks
      \<and> nodes w' = (nodes w)(?p := map_option (touch (file_time_value (filetime_of ticks))) (nodes w ?p))" by blast+
qed

end

section \<open>File times\<close>

lemma checked_mul_Some: "checked_mul a b = Some c \<Longrightarrow> unat c = unat a * unat (b :: 'a::len word)"
  by (auto simp: checked_mul_def unat_word_ariths split: if_splits)

lemma be_bytes_append: "be_bytes (m + n) v = be_bytes m (v div 256 ^ n) @ be_bytes n v"
  by (induction n arbitrary: v) (simp_all add: div_mult2_eq)

lemma filetime_halves: "unat (fst (filetime_of ticks)) + unat (snd (filetime_of ticks)) * 2 ^ 32 = unat ticks"
proof -
  let ?v = "unat ticks"
  have split: "u64_to_be_bytes ticks = be_bytes 4 (?v div 256 ^ 4) @ be_bytes 4 ?v"
    using be_bytes_append [of 4 4 ?v] by (simp add: u64_to_be_bytes_def)
  have "rev (take 4 (rev (u64_to_be_bytes ticks))) = be_bytes 4 ?v" "rev (drop 4 (rev (u64_to_be_bytes ticks))) = be_bytes 4 (?v div 256 ^ 4)"
    unfolding split by simp_all
  then have ft: "filetime_of ticks = (u32_from_be_bytes (be_bytes 4 ?v), u32_from_be_bytes (be_bytes 4 (?v div 256 ^ 4)))"
    by (simp add: filetime_of_def Let_def)
  have u: "unat (u32_from_be_bytes (be_bytes 4 n)) = n mod 2 ^ 32" for n
    by (simp add: u32_from_be_bytes_def be_value_be_bytes unat_of_nat take_bit_eq_mod)
  have "?v div 2 ^ 32 < 2 ^ 32" by (rule less_mult_imp_div_less) (use unat_u64_less [of ticks] in simp)
  then show ?thesis unfolding ft fst_conv snd_conv u by simp
qed

lemma file_time_ticks_value:
  assumes "file_time_ticks secs nanos = Some ticks"
  shows "unat ticks = unat secs * 10 ^ 7 + unat nanos div 100 + 116444736000000000"
proof -
  have n: "unat (ucast (nanos div 100) :: u64) = unat nanos div 100"
  proof -
    have "unat nanos div 100 < 2 ^ 64"
      using unat_less_len [of nanos] by simp
    then show ?thesis by (simp add: unsigned_ucast_eq unat_div_distrib take_bit_eq_mod)
  qed
  from assms obtain t1 t2 where "checked_mul secs HUNDRED_NS_PER_SECOND = Some t1"
      "checked_add t1 (ucast (nanos div 100)) = Some t2" "checked_add t2 WINDOWS_EPOCH_OFFSET_100NS = Some ticks"
    by (auto simp: file_time_ticks_def split: option.splits)
  then show ?thesis
    by (auto dest!: checked_mul_Some checked_add_SomeD
        simp: n HUNDRED_NS_PER_SECOND_def WINDOWS_EPOCH_OFFSET_100NS_def)
qed

lemma file_time_of_clock:
  assumes "file_time_ticks secs nanos = Some ticks"
  shows "file_time_value (filetime_of ticks) = uint secs * 10 ^ 9 + uint nanos div 100 * 100"
proof -
  have "uint (fst (filetime_of ticks)) + uint (snd (filetime_of ticks)) * 2 ^ 32
      = uint secs * 10 ^ 7 + uint nanos div 100 + 116444736000000000"
    using arg_cong [OF trans [OF filetime_halves file_time_ticks_value [OF assms]], of int] by (simp add: zdiv_int)
  then show ?thesis by (simp add: file_time_value_def)
qed

text \<open>The clock at its resolution, when it can be represented.\<close>

lemma since_epoch_clock:
  assumes "since_epoch now = Some (secs, nanos)" and "now < 2 ^ 64 * 10 ^ 9"
  shows "uint secs = now div 10 ^ 9" and "uint nanos = now mod 10 ^ 9"
    and "uint secs * 10 ^ 9 + uint nanos div 100 * 100 = now div 100 * 100"
proof -
  have n: "0 \<le> now" "secs = of_int (now div 10 ^ 9)" "nanos = of_int (now mod 10 ^ 9)"
    using assms(1) by (auto simp: since_epoch_def split: if_splits)
  have "now div 10 ^ 9 < 2 ^ 64" using assms(2) by simp
  with n show s: "uint secs = now div 10 ^ 9" by (simp add: unsigned_of_int take_bit_int_eq_self)
  have "now mod 10 ^ 9 < 2 ^ 32" using pos_mod_bound [of "10 ^ 9" now] by simp
  with n show m: "uint nanos = now mod 10 ^ 9" by (simp add: unsigned_of_int take_bit_int_eq_self)
  have "now = now mod 10 ^ 9 + now div 10 ^ 9 * 10 ^ 7 * 100" using div_mult_mod_eq [of now "10 ^ 9"] by simp
  then have "now div 100 = now div 10 ^ 9 * 10 ^ 7 + now mod 10 ^ 9 div 100"
    using div_mult_self1 [of 100 "now mod 10 ^ 9" "now div 10 ^ 9 * 10 ^ 7"] by simp
  then show "uint secs * 10 ^ 9 + uint nanos div 100 * 100 = now div 100 * 100" unfolding s m by simp
qed

end
