(* ===== verification/Windows_Effects.thy ===== *)
theory Windows_Effects
  imports Windows_Facts "HOL-Library.Multiset"
begin

text \<open>
  What the Windows operations do to the published files, whatever fails: locale \<open>windows_store\<close> puts
  the contracts of the platform and of the two hash crates together for one configuration.
\<close>

section \<open>Effects by result\<close>

text \<open>Success stores the envelope, and so may a failure of the final synchronization or, unless failed moves are
  known to change nothing, of the commit; any other error leaves every published file as it was.\<close>

fun ambiguous :: "bool \<Rightarrow> store_error \<Rightarrow> bool" where
  "ambiguous definite (Io SyncNamespaceDirectory _) = True"
| "ambiguous definite (AtomicCommit _) = (\<not> definite)"
| "ambiguous definite _ = False"

definition windows_save_effect ::
    "bool \<Rightarrow> (path \<Rightarrow> bool) \<Rightarrow> path \<Rightarrow> bytes \<Rightarrow> 'x world \<Rightarrow> store_error + unit \<Rightarrow> 'x world \<Rightarrow> bool" where
  "windows_save_effect definite hidden p env w res w' \<longleftrightarrow>
    (case res of
       Inr _ \<Rightarrow> stored hidden p env w w'
     | Inl e \<Rightarrow> agree hidden w w' \<or> ambiguous definite e \<and> stored hidden p env w w')"

lemma ambiguous_definite: "ambiguous True e \<longleftrightarrow> (\<exists>x. e = Io SyncNamespaceDirectory x)"
  by (cases "(True, e)" rule: ambiguous.cases) auto

lemma windows_save_effect_agree:
  "agree hidden w w' \<Longrightarrow> windows_save_effect d hidden p env w' res w'' \<Longrightarrow> windows_save_effect d hidden p env w res w''"
  by (cases res) (auto simp: windows_save_effect_def intro: agree_trans agree_stored)

text \<open>Up to the modification time of one file.\<close>

definition agree_aged :: "(path \<Rightarrow> bool) \<Rightarrow> path \<Rightarrow> 'x world \<Rightarrow> 'x world \<Rightarrow> bool" where
  "agree_aged hidden p w w' \<longleftrightarrow> (\<forall>q. \<not> hidden q \<longrightarrow> q \<noteq> p \<longrightarrow> nodes w' q = nodes w q)
     \<and> (nodes w' p = nodes w p \<or> (\<exists>t. nodes w' p = map_option (touch t) (nodes w p)))"

definition cleared :: "(path \<Rightarrow> bool) \<Rightarrow> path \<Rightarrow> 'x world \<Rightarrow> 'x world \<Rightarrow> bool" where
  "cleared hidden p w w' \<longleftrightarrow> nodes w' p = None \<and> (\<forall>q. \<not> hidden q \<longrightarrow> q \<noteq> p \<longrightarrow> nodes w' q = nodes w q)"

definition windows_clear_effect ::
    "(path \<Rightarrow> bool) \<Rightarrow> path \<Rightarrow> 'x world \<Rightarrow> store_error + unit \<Rightarrow> 'x world \<Rightarrow> bool" where
  "windows_clear_effect hidden p w res w' \<longleftrightarrow>
    (case res of
       Inr _ \<Rightarrow> cleared hidden p w w'
     | Inl e \<Rightarrow> agree_aged hidden p w w'
         \<or> (\<exists>x. e = Io SyncNamespaceDirectory x \<or> e = Io RemoveTemporaryFile x) \<and> cleared hidden p w w')"

lemma touch_touch: "touch t (touch t' n) = touch t n"
  by (cases n) (simp_all add: touch_def)

lemma agree_aged_trans: "agree_aged hidden p w w1 \<Longrightarrow> agree_aged hidden p w1 w2 \<Longrightarrow> agree_aged hidden p w w2"
  by (auto simp: agree_aged_def option.map_comp comp_def touch_touch)

lemma windows_clear_effect_aged:
  assumes "agree_aged hidden p w w1" and "windows_clear_effect hidden p w1 res w'"
  shows "windows_clear_effect hidden p w res w'"
proof -
  have "cleared hidden p w1 w' \<Longrightarrow> cleared hidden p w w'" using assms(1) by (simp add: cleared_def agree_aged_def)
  with assms show ?thesis by (cases res) (auto simp: windows_clear_effect_def intro: agree_aged_trans)
qed

definition windows_quarantine_effect ::
    "(path \<Rightarrow> bool) \<Rightarrow> store_config \<Rightarrow> string \<Rightarrow> path \<Rightarrow> 'x world \<Rightarrow> store_error + quarantine_info \<Rightarrow> 'x world \<Rightarrow> bool" where
  "windows_quarantine_effect hidden config hash p w res w' \<longleftrightarrow>
    (let aside = (\<lambda>q. hex64 (quarantine_identifier q)
            \<and> diagnostic_path q = quarantine_destination config hash (quarantine_identifier q)
            \<and> moved hidden p (diagnostic_path q) w w')
     in case res of
          Inr q \<Rightarrow> aside q
        | Inl e \<Rightarrow> agree hidden w w' \<and> (e = QuarantineSourceMissing \<longrightarrow> nodes w p = None)
            \<or> (\<exists>q x. e = QuarantineNamespaceSync q x \<and> aside q))"

text \<open>The chunks bring exactly the declared number of bytes, within the maximum, and the completion mark.\<close>

definition complete_input :: "store_config \<Rightarrow> u64 \<Rightarrow> save_stream_message list \<Rightarrow> bytes \<Rightarrow> bool" where
  "complete_input config declared chunks p \<longleftrightarrow>
     completed chunks = Some p \<and> length p = unat declared \<and> length p \<le> unat (maximum config)"

text \<open>The files that a cleanup may remove, and did.\<close>

definition swept :: "store_config \<Rightarrow> system_time \<Rightarrow> duration \<Rightarrow> cleanup_report \<Rightarrow> 'x world \<Rightarrow> path \<Rightarrow> bool" where
  "swept config now minimum_age report w p \<longleftrightarrow> (\<exists>name bs mtime. p = join (namespace config) (relative name)
     \<and> is_owned_temporary_filename name (filename_suffix (format config)) \<and> nodes w p = Some (Regular bs mtime) \<and> old_enough now minimum_age mtime
     \<and> name \<in> set (removed report))"

fun reported_name :: "store_config \<Rightarrow> io_error + string \<times> path \<Rightarrow> string list" where
  "reported_name config (Inl source) = [''<directory-entry>'']"
| "reported_name config (Inr (name, p)) = (if is_owned_temporary_filename name (filename_suffix (format config)) then [name] else [])"

definition reported :: "cleanup_report \<Rightarrow> string multiset" where
  "reported r = mset (removed r) + mset (skipped r) + mset (map failed_identifier (failures r))"

section \<open>The operations\<close>

text \<open>\<open>windows_files\<close> is what the saves need; \<open>windows_store\<close> is the case of definite moves.\<close>

locale windows_files = win32_spec w32 "namespace config" opened definite + store_names c b3 config
  for w32 :: "'x win32" and config :: store_config and opened :: "handle \<Rightarrow> 'x world \<Rightarrow> path option"
    and definite :: bool and c :: crc32c and b3 :: blake3
begin

abbreviation temp :: "path \<Rightarrow> bool" where "temp \<equiv> temporary config"
abbreviation sfx :: string where "sfx \<equiv> filename_suffix (format config)"

lemma suffix_ok: "valid_suffix sfx"
  using format_ok by (simp add: valid_format_def)

lemma key_hex64: "length k = 32 \<Longrightarrow> hex64 (b3_to_hex b3 k)"
  by (simp add: hex64_def hex_length hex_digits)

lemma stem: "length k = 32 \<Longrightarrow> file_stem (pathk k) = Some (b3_to_hex b3 k)"
  using stem_of_canonical [OF suffix_ok] by (simp add: file_stem_def worker_path_def join_def)

text \<open>The names are portable, and what kind each has.\<close>

lemma name_bytes: "list_all (\<lambda>c. suffix_byte c \<or> c = CHR ''.'') sfx"
  using suffix_ok by (auto simp: valid_suffix_def list_all_iff)

lemma portable_parts: "hex64 hash \<Longrightarrow> list_all (\<lambda>c. suffix_byte c \<or> c = CHR ''.'') rest \<Longrightarrow> portable (hash @ sfx @ rest)"
  using name_bytes hex_portable by (auto simp: portable_def hex64_def list_all_iff)

lemma const_portable:
  "list_all (\<lambda>c. suffix_byte c \<or> c = CHR ''.'') ''.tmp-v1.save.''"
  "list_all (\<lambda>c. suffix_byte c \<or> c = CHR ''.'') ''.tmp-v1.clear.''"
  "list_all (\<lambda>c. suffix_byte c \<or> c = CHR ''.'') ''.quarantine-v1.''"
  by (simp_all add: suffix_byte_def is_ascii_lowercase_def is_ascii_digit_def)

lemma hex_bytes: "hex64 s \<Longrightarrow> list_all (\<lambda>c. suffix_byte c \<or> c = CHR ''.'') s"
  using hex_portable by (auto simp: hex64_def list_all_iff)

lemma portable_names:
  assumes "hex64 hash" and "hex64 ident"
  shows "portable (hash @ sfx)" "portable (hash @ sfx @ ''.tmp-v1.save.'' @ ident)"
    "portable (hash @ sfx @ ''.tmp-v1.clear.'' @ ident)" "portable (hash @ sfx @ ''.quarantine-v1.'' @ ident)"
  using portable_parts [OF assms(1), of "[]"] portable_parts [OF assms(1)] const_portable hex_bytes [OF assms(2)]
  by simp_all

lemma staging_names:
  "staging_path config hash ''save'' ident = join (namespace config) (relative (hash @ sfx @ ''.tmp-v1.save.'' @ ident))"
  "staging_path config hash ''clear'' ident = join (namespace config) (relative (hash @ sfx @ ''.tmp-v1.clear.'' @ ident))"
  "quarantine_destination config hash ident = join (namespace config) (relative (hash @ sfx @ ''.quarantine-v1.'' @ ident))"
  by (simp_all add: staging_path_def quarantine_destination_def)

lemma staging_temporary:
  assumes "hex64 hash" and "hex64 ident" and "purpose \<in> {''save'', ''clear''}"
  shows "temp (staging_path config hash purpose ident)"
  unfolding temporary_def staging_path_def using assms owned_iff [OF suffix_ok] by blast

lemma published_not_temporary:
  assumes "length k = 32"
  shows "\<not> temp (pathk k)" and "hex64 ident \<Longrightarrow> \<not> temp (quarantine_destination config (b3_to_hex b3 k) ident)"
  using not_owned_lengths [OF key_hex64 [OF assms]]
  by (auto simp: temporary_def worker_path_def quarantine_destination_def in_directory_inj owned_iff [OF suffix_ok])

lemma path_of_key: "pathk k = join (namespace config) (relative (b3_to_hex b3 k @ sfx))"
  by (simp add: worker_path_def)

lemma agree_nodes: "nodes w' = nodes w \<Longrightarrow> agree temp w w'"
  by (simp add: agree_def)

lemma staging_agree:
  "staging_effect p content w res w' \<Longrightarrow> temp p \<Longrightarrow> agree temp w w'"
  by (auto simp: staging_effect_def agree_def)

lemma commit_effect:
  assumes k: "length k = 32" and ident: "hex64 ident"
    and st: "nodes w (staging_path config (b3_to_hex b3 k) ''save'' ident) = Some (Regular env t)"
    and cm: "commit_windows_staging w32 config (staging_path config (b3_to_hex b3 k) ''save'' ident) (pathk k) w = (res, w')"
  shows "windows_save_effect definite temp (pathk k) env w res w'"
proof -
  let ?a = "b3_to_hex b3 k @ sfx @ ''.tmp-v1.save.'' @ ident" and ?b = "b3_to_hex b3 k @ sfx"
  note names = portable_names [OF key_hex64 [OF k] ident]
  have tmp: "temp (staging_path config (b3_to_hex b3 k) ''save'' ident)"
    by (rule staging_temporary [OF key_hex64 [OF k] ident]) simp
  have ne: "?a \<noteq> ?b" by simp
  note paths = staging_names(1) [of "b3_to_hex b3 k" ident] path_of_key [of k]
  obtain x w2 where x: "(case move_file w32 (staging_path config (b3_to_hex b3 k) ''save'' ident) (pathk k) MOVEFILE_WRITE_THROUGH w of
             (Inr _, w1) \<Rightarrow> (Inr (), w1)
           | (Inl e, w1) \<Rightarrow>
               if raw_os_error e = Some ERROR_FILE_EXISTS \<or> raw_os_error e = Some ERROR_ALREADY_EXISTS
               then move_file w32 (staging_path config (b3_to_hex b3 k) ''save'' ident) (pathk k)
                 (or MOVEFILE_REPLACE_EXISTING MOVEFILE_WRITE_THROUGH) w1
               else (Inl e, w1)) = (x, w2)" by fastforce
  have ef: "case x of Inl e \<Rightarrow> nodes w2 = nodes w \<or> \<not> definite \<and> stored temp (pathk k) env w w2
      | Inr _ \<Rightarrow> stored temp (pathk k) env w w2"
  proof -
    obtain y w1 where y: "move_file w32 (staging_path config (b3_to_hex b3 k) ''save'' ident) (pathk k) MOVEFILE_WRITE_THROUGH w = (y, w1)"
      by fastforce
    note y1 = move_file_effect [OF names(2,1) ne y [unfolded paths], folded paths]
    have done1: "stored temp (pathk k) env w v" if "nodes v = (nodes w)(pathk k := nodes w
        (staging_path config (b3_to_hex b3 k) ''save'' ident), staging_path config (b3_to_hex b3 k) ''save'' ident := None)" for v
      using that st tmp published_not_temporary(1) [OF k] by (auto simp: stored_def)
    show ?thesis
    proof (cases y)
      case (Inr u)
      with x y y1 done1 show ?thesis by auto
    next
      case (Inl e)
      obtain z w1' where z: "move_file w32 (staging_path config (b3_to_hex b3 k) ''save'' ident) (pathk k)
          (or MOVEFILE_REPLACE_EXISTING MOVEFILE_WRITE_THROUGH) w1 = (z, w1')" by fastforce
      note z1 = move_file_effect [OF names(2,1) ne z [unfolded paths], folded paths]
      have w2: "w2 = w1 \<and> isl x \<or> w2 = w1' \<and> x = z" using x y z Inl by (auto split: if_splits sum.splits)
      from y1 Inl consider "nodes w1 = nodes w"
        | "\<not> definite" "nodes w1 = (nodes w)(pathk k := nodes w (staging_path config (b3_to_hex b3 k) ''save'' ident),
            staging_path config (b3_to_hex b3 k) ''save'' ident := None)" by auto
      then show ?thesis
      proof cases
        case 1
        with w2 z1 done1 show ?thesis by (cases z; cases x) auto
      next
        case 2
        from 2(2) z1 have "isl z \<and> nodes w1' = nodes w1" by (cases z) auto
        with w2 2 done1 [of w1] done1 [of w1'] show ?thesis by (cases x) auto
      qed
    qed
  qed
  show ?thesis
  proof (cases x)
    case (Inl e)
    with cm x ef show ?thesis
      by (auto simp: commit_windows_staging_def windows_save_effect_def intro: agree_nodes)
  next
    case (Inr u)
    obtain s w3 where s: "sync_windows_directory w32 config w2 = (s, w3)" by fastforce
    with sync_windows_directory_nodes [OF refl s] ef Inr have "stored temp (pathk k) env w w3" by (simp add: stored_def)
    with cm x Inr s show ?thesis by (cases s) (auto simp: commit_windows_staging_def windows_save_effect_def)
  qed
qed

lemma save_round_effect:
  assumes k: "length k = 32"
  shows "case windows_save_round w32 config (pathk k) (b3_to_hex b3 k) header payload checksum w of
      Inl (res, w') \<Rightarrow> windows_save_effect definite temp (pathk k) (header @ payload @ checksum) w res w'
    | Inr w' \<Rightarrow> agree temp w w'"
proof -
  obtain x w1 where x: "random_identifier (win_random w32) w = (x, w1)" by fastforce
  note x1 = random_identifier_effect [OF x]
  show ?thesis
  proof (cases x)
    case (Inl e)
    with x x1 show ?thesis by (simp add: windows_save_round_def windows_save_effect_def agree_nodes)
  next
    case (Inr ident)
    let ?s = "staging_path config (b3_to_hex b3 k) ''save'' ident"
    note ident = x1(2) [OF Inr]
    have tmp: "temp ?s" by (rule staging_temporary [OF key_hex64 [OF k] ident]) simp
    obtain y w2 where y: "create_windows_staging w32 ?s header payload checksum w1 = (y, w2)" by fastforce
    have ef: "staging_effect ?s (\<lambda>bs. bs = header @ payload @ checksum) w1 y w2"
      using create_windows_staging_effect [OF portable_names(2) [OF key_hex64 [OF k] ident]] y unfolding staging_names by blast
    have ag: "agree temp w w2" using staging_agree [OF ef tmp] x1(1) by (simp add: agree_def)
    show ?thesis
    proof (cases y)
      case (Inl e)
      with x Inr y ag show ?thesis by (auto simp: windows_save_round_def Let_def windows_save_effect_def)
    next
      case (Inr u)
      with ef obtain t where t: "nodes w2 ?s = Some (Regular (header @ payload @ checksum) t)" by (auto simp: staging_effect_def)
      obtain res w3 where cm: "commit_windows_staging w32 config ?s (pathk k) w2 = (res, w3)" by fastforce
      from windows_save_effect_agree [OF ag commit_effect [OF k ident t cm]] x \<open>x = Inr ident\<close> y Inr cm show ?thesis
        by (simp add: windows_save_round_def Let_def)
    qed
  qed
qed

lemma save_effect:
  assumes k: "length k = 32" and sv: "windows_save_blob w32 c config (pathk k) payload w = Some (res, w')"
  shows "if length payload \<le> unat (maximum config)
    then windows_save_effect definite temp (pathk k) (envelope_layout c (format config) payload) w res w'
    else w' = w \<and> isl res"
proof (cases "envelope_parts c (format config) payload (maximum config)")
  case (Inl e)
  with sv have "res = Inl e" "w' = w" by (auto simp: windows_save_blob_def)
  then show ?thesis by (simp add: windows_save_effect_def)
next
  case (Inr hc)
  obtain h ck where hc: "hc = (h, ck)" by (cases hc)
  then have enc: "encode_envelope c (format config) payload (maximum config) = Inr (h @ payload @ ck)"
    using Inr by (simp add: encode_envelope_def)
  have bound: "length payload < 2 ^ 64 \<and> length payload \<le> unat (maximum config)"
    using enc by (simp add: encode_envelope_eq split: if_splits)
  from enc bound have env: "h @ payload @ ck = envelope_layout c (format config) payload"
    by (simp add: encode_envelope_eq)
  from sv Inr hc stem [OF k] have "retry (windows_save_round w32 config (pathk k) (b3_to_hex b3 k) h payload ck) w = Some (res, w')"
    by (simp add: windows_save_blob_def)
  from retry_rule [OF this, of "agree temp w"] save_round_effect [OF k, of h payload ck] obtain w1 where
    "agree temp w w1" "windows_save_round w32 config (pathk k) (b3_to_hex b3 k) h payload ck w1 = Inl (res, w')"
    by (metis (no_types, lifting) agree_refl agree_trans sum.simps(6))
  with save_round_effect [OF k, of h payload ck w1] env bound show ?thesis
    by (auto intro: windows_save_effect_agree)
qed

lemma stream_round_effect:
  assumes k: "length k = 32" and vec: "vec_chunks chunks"
  shows "case windows_stream_round w32 c config (pathk k) (b3_to_hex b3 k) declared (chunks, w) of
      Inl (res, w') \<Rightarrow> agree temp w w' \<and> isl res \<or> (\<exists>p. complete_input config declared chunks p
        \<and> windows_save_effect definite temp (pathk k) (envelope_layout c (format config) p) w res w')
    | Inr (rest, w') \<Rightarrow> rest = chunks \<and> agree temp w w'"
proof -
  obtain x w1 where x: "random_identifier (win_random w32) w = (x, w1)" by fastforce
  note x1 = random_identifier_effect [OF x]
  show ?thesis
  proof (cases x)
    case (Inl e)
    with x x1 show ?thesis by (simp add: agree_nodes)
  next
    case (Inr ident)
    let ?s = "staging_path config (b3_to_hex b3 k) ''save'' ident"
    note ident = x1(2) [OF Inr]
    note pn = portable_names(2) [OF key_hex64 [OF k] ident]
    have tmp: "temp ?s" by (rule staging_temporary [OF key_hex64 [OF k] ident]) simp
    obtain y rest w2 where y: "create_windows_streaming_staging w32 c config ?s declared chunks w1 = (y, rest, w2)"
      by (metis prod_cases3)
    note cs = create_windows_streaming_staging_effect [OF pn crc32c_spec_axioms vec y [unfolded staging_names], folded staging_names]
    have ag: "agree temp w w2" using staging_agree [OF cs(1) tmp] x1(1) by (simp add: agree_def)
    show ?thesis
    proof (cases y)
      case (Inl e)
      obtain d w3 where d: "delete_file w32 ?s w2 = (d, w3)" by fastforce
      from delete_file_effect [OF pn d [unfolded staging_names]] tmp have "agree temp w2 w3"
        by (auto simp: agree_def staging_names)
      with x \<open>x = Inr ident\<close> y Inl ag cs(2) d show ?thesis by (auto simp: Let_def intro: agree_trans)
    next
      case (Inr u)
      with cs(1) obtain p t where p: "complete_input config declared chunks p"
          and t: "nodes w2 ?s = Some (Regular (envelope_layout c (format config) p) t)"
        by (auto simp: staging_effect_def complete_input_def)
      obtain res w3 where cm: "commit_windows_staging w32 config ?s (pathk k) w2 = (res, w3)" by fastforce
      from windows_save_effect_agree [OF ag commit_effect [OF k ident t cm]] p x \<open>x = Inr ident\<close> y Inr cm show ?thesis
        by (auto simp: Let_def)
    qed
  qed
qed

lemma stream_effect:
  assumes k: "length k = 32" and vec: "vec_chunks chunks"
    and sv: "windows_save_blob_from_receiver w32 c config (pathk k) declared chunks w = Some (res, w')"
  shows "agree temp w w' \<and> isl res \<or> (\<exists>p. complete_input config declared chunks p
    \<and> windows_save_effect definite temp (pathk k) (envelope_layout c (format config) p) w res w')"
proof (cases "envelope_header (format config) declared (maximum config)")
  case (Inl e)
  with sv show ?thesis by (auto simp: windows_save_blob_from_receiver_def)
next
  case (Inr h)
  let ?body = "windows_stream_round w32 c config (pathk k) (b3_to_hex b3 k) declared"
  from sv Inr stem [OF k] have "retry ?body (chunks, w) = Some (res, w')"
    by (simp add: windows_save_blob_from_receiver_def)
  then obtain st where st: "fst st = chunks \<and> agree temp w (snd st)" "?body st = Inl (res, w')"
  proof (rule retry_rule [where I = "\<lambda>st. fst st = chunks \<and> agree temp w (snd st)", THEN exE])
    fix st st'
    assume I: "fst st = chunks \<and> agree temp w (snd st)" and b: "?body st = Inr st'"
    from I have "st = (chunks, snd st)" by (simp add: prod_eq_iff)
    with stream_round_effect [OF k vec, where declared = declared and w = "snd st"] b have "fst st' = chunks \<and> agree temp (snd st) (snd st')"
      by (cases st') auto
    with I show "fst st' = chunks \<and> agree temp w (snd st')" using agree_trans by blast
  qed auto
  then have "st = (chunks, snd st)" by (simp add: prod_eq_iff)
  with stream_round_effect [OF k vec, where declared = declared and w = "snd st"] st(2)
  have "agree temp (snd st) w' \<and> isl res \<or> (\<exists>p. complete_input config declared chunks p
    \<and> windows_save_effect definite temp (pathk k) (envelope_layout c (format config) p) (snd st) res w')" by auto
  with st(1) show ?thesis using agree_trans windows_save_effect_agree by blast
qed

end

locale windows_store = windows_files w32 config opened True c b3
  for w32 :: "'x win32" and config :: store_config and opened :: "handle \<Rightarrow> 'x world \<Rightarrow> path option"
    and c :: crc32c and b3 :: blake3
begin

lemma clear_round_effect:
  assumes k: "length k = 32"
  shows "case windows_clear_round w32 config (pathk k) (b3_to_hex b3 k) w of
      Inl (res, w') \<Rightarrow> windows_clear_effect temp (pathk k) w res w'
    | Inr w' \<Rightarrow> nodes w' = nodes w"
proof -
  obtain x w1 where x: "random_identifier (win_random w32) w = (x, w1)" by fastforce
  note x1 = random_identifier_effect [OF x]
  show ?thesis
  proof (cases x)
    case (Inl e)
    with x x1 show ?thesis by (simp add: windows_clear_round_def windows_clear_effect_def agree_aged_def)
  next
    case (Inr ident)
    let ?s = "staging_path config (b3_to_hex b3 k) ''clear'' ident"
    note ident = x1(2) [OF Inr]
    note names = portable_names [OF key_hex64 [OF k] ident]
    note paths = staging_names(2) [of "b3_to_hex b3 k" ident] path_of_key [of k]
    have tmp: "temp ?s" by (rule staging_temporary [OF key_hex64 [OF k] ident]) simp
    have ne: "b3_to_hex b3 k @ sfx \<noteq> b3_to_hex b3 k @ sfx @ ''.tmp-v1.clear.'' @ ident" by simp
    obtain y w2 where y: "move_file w32 (pathk k) ?s MOVEFILE_WRITE_THROUGH w1 = (y, w2)" by fastforce
    note y1 = move_file_effect [OF names(1,3) ne y [unfolded paths], folded paths]
    show ?thesis
    proof (cases y)
      case (Inl e)
      obtain z w3 where z: "ensure_namespace_available config w2 = (z, w3)" by fastforce
      have "nodes w3 = nodes w2" using ensure_namespace_same [OF z] by (simp add: same_files_def)
      with x Inr y Inl y1 x1(1) z show ?thesis
        by (cases z) (auto simp: windows_clear_round_def Let_def windows_clear_effect_def agree_aged_def cleared_def)
    next
      case (Inr u)
      then have c2: "cleared temp (pathk k) w w2"
        using y1 x1(1) tmp by (auto simp: cleared_def)
      obtain s w3 where s: "sync_windows_directory w32 config w2 = (s, w3)" by fastforce
      have c3: "cleared temp (pathk k) w w3" using c2 sync_windows_directory_nodes [OF refl s] by (simp add: cleared_def)
      obtain d w4 where d: "delete_file w32 ?s w3 = (d, w4)" by fastforce
      have c4: "cleared temp (pathk k) w w4"
        using c3 delete_file_effect [OF names(3) d [unfolded paths], folded paths] tmp by (auto simp: cleared_def)
      from x \<open>x = Inr ident\<close> y Inr s d c3 c4 show ?thesis
        by (cases s; cases d) (auto simp: windows_clear_round_def Let_def windows_clear_effect_def)
    qed
  qed
qed

lemma clear_effect:
  assumes k: "length k = 32" and cl: "windows_clear_blob w32 config (pathk k) w = Some (res, w')"
  shows "windows_clear_effect temp (pathk k) w res w'"
proof -
  obtain x w1 where x: "refresh_windows_clear_age w32 (pathk k) w = (x, w1)" by fastforce
  have pn: "portable (b3_to_hex b3 k @ sfx)" using portable_names(1) key_hex64 [OF k] by blast
  note rf = refresh_effect [OF pn x [unfolded path_of_key], folded path_of_key]
  have ag: "agree_aged temp (pathk k) w w1" using rf(1) by (auto simp: aged_def agree_aged_def)
  show ?thesis
  proof (cases x)
    case (Inl e)
    obtain z w2 where z: "ensure_namespace_available config w1 = (z, w2)" by fastforce
    have "nodes w2 = nodes w1" using ensure_namespace_same [OF z] by (simp add: same_files_def)
    with cl x Inl stem [OF k] rf(2) [OF Inl] z ag show ?thesis
      by (cases z) (auto simp: windows_clear_blob_def windows_clear_effect_def cleared_def agree_aged_def split: if_splits)
  next
    case (Inr u)
    let ?body = "windows_clear_round w32 config (pathk k) (b3_to_hex b3 k)"
    from cl x Inr stem [OF k] have "retry ?body w1 = Some (res, w')" by (simp add: windows_clear_blob_def)
    then obtain w2 where w2: "nodes w2 = nodes w1" "?body w2 = Inl (res, w')"
    proof (rule retry_rule [where I = "\<lambda>w2. nodes w2 = nodes w1", THEN exE])
      fix s s'
      assume "nodes s = nodes w1" and "?body s = Inr s'"
      with clear_round_effect [OF k, of s] show "nodes s' = nodes w1" by simp
    qed auto
    from w2(2) clear_round_effect [OF k, of w2] have eff: "windows_clear_effect temp (pathk k) w2 res w'" by simp
    have "agree_aged temp (pathk k) w w2" using ag w2(1) by (simp add: agree_aged_def)
    from windows_clear_effect_aged [OF this eff] show ?thesis .
  qed
qed

text \<open>The staging file of a clear: it appears under a free name, with the contents of the blob and the time
  the clear has given it.\<close>

lemma clear_round_staging:
  assumes k: "length k = 32" and r: "windows_clear_round w32 config (pathk k) (b3_to_hex b3 k) w = Inl (res, w')"
    and q: "q \<noteq> pathk k"
  shows "nodes w' q = nodes w q \<or> (\<exists>ident. hex64 ident \<and> q = staging_path config (b3_to_hex b3 k) ''clear'' ident
    \<and> nodes w q = None \<and> nodes w' q = nodes w (pathk k) \<and> nodes w' (pathk k) = None)"
proof -
  obtain x w1 where x: "random_identifier (win_random w32) w = (x, w1)" by fastforce
  note x1 = random_identifier_effect [OF x]
  show ?thesis
  proof (cases x)
    case (Inl e)
    with x x1 r show ?thesis by (simp add: windows_clear_round_def)
  next
    case (Inr ident)
    let ?s = "staging_path config (b3_to_hex b3 k) ''clear'' ident"
    note ident = x1(2) [OF Inr]
    note names = portable_names [OF key_hex64 [OF k] ident]
    note paths = staging_names(2) [of "b3_to_hex b3 k" ident] path_of_key [of k]
    have ne: "b3_to_hex b3 k @ sfx \<noteq> b3_to_hex b3 k @ sfx @ ''.tmp-v1.clear.'' @ ident" by simp
    obtain y w2 where y: "move_file w32 (pathk k) ?s MOVEFILE_WRITE_THROUGH w1 = (y, w2)" by fastforce
    note y1 = move_file_effect [OF names(1,3) ne y [unfolded paths], folded paths]
    show ?thesis
    proof (cases y)
      case (Inl e)
      obtain z w3 where z: "ensure_namespace_available config w2 = (z, w3)" by fastforce
      have "nodes w3 = nodes w2" using ensure_namespace_same [OF z] by (simp add: same_files_def)
      with r x Inr y Inl y1 x1(1) z show ?thesis
        by (cases z) (auto simp: windows_clear_round_def Let_def split: if_splits)
    next
      case (Inr u)
      obtain s w3 where s: "sync_windows_directory w32 config w2 = (s, w3)" by fastforce
      obtain d w4 where d: "delete_file w32 ?s w3 = (d, w4)" by fastforce
      have n2: "nodes w ?s = None" "nodes w2 = (nodes w)(?s := nodes w (pathk k), pathk k := None)"
        using y1 Inr x1(1) by (auto simp: MOVEFILE_WRITE_THROUGH_def MOVEFILE_REPLACE_EXISTING_def)
      have n3: "nodes w3 = nodes w2" by (rule sync_windows_directory_nodes [OF refl s])
      have n4: "nodes w4 = nodes w3 \<or> nodes w4 = (nodes w3)(?s := None)"
        using delete_file_effect [OF names(3) d [unfolded paths], folded paths] by (auto split: if_splits)
      have "w' = w3 \<or> w' = w4"
        using r x \<open>x = Inr ident\<close> y Inr s d by (cases s; cases d) (auto simp: windows_clear_round_def Let_def)
      then have n': "nodes w' = nodes w2 \<or> nodes w' = (nodes w2)(?s := None)" using n3 n4 by auto
      have sp: "?s \<noteq> pathk k" unfolding paths by (simp add: in_directory_inj)
      show ?thesis
      proof (cases "q = ?s")
        case True
        with n' n2 sp ident show ?thesis by auto
      next
        case False
        with n' n2 q show ?thesis by auto
      qed
    qed
  qed
qed

lemma clear_staging:
  assumes k: "length k = 32" and cl: "windows_clear_blob w32 config (pathk k) w = Some (res, w')" and q: "temp q"
    and clock: "clock = fst (system_now w32 w)" "clock < 2 ^ 64 * 10 ^ 9" and new: "nodes w' q \<noteq> nodes w q"
  shows "\<exists>ident n. hex64 ident \<and> q = staging_path config (b3_to_hex b3 k) ''clear'' ident \<and> nodes w q = None
    \<and> nodes w (pathk k) = Some n \<and> nodes w' q = Some (touch (clock div 100 * 100) n) \<and> nodes w' (pathk k) = None"
proof -
  obtain x w1 where x: "refresh_windows_clear_age w32 (pathk k) w = (x, w1)" by fastforce
  have pn: "portable (b3_to_hex b3 k @ sfx)" using portable_names(1) key_hex64 [OF k] by blast
  note rf = refresh_effect [OF pn x [unfolded path_of_key], folded path_of_key]
  have qp: "q \<noteq> pathk k" using q published_not_temporary(1) [OF k] by blast
  have q1: "nodes w1 q = nodes w q" using rf(1) qp by (auto simp: aged_def)
  show ?thesis
  proof (cases x)
    case (Inl e)
    obtain z w2 where z: "ensure_namespace_available config w1 = (z, w2)" by fastforce
    have "nodes w2 = nodes w1" using ensure_namespace_same [OF z] by (simp add: same_files_def)
    with cl x Inl stem [OF k] z q1 new show ?thesis
      by (auto simp: windows_clear_blob_def split: if_splits)
  next
    case (Inr u)
    from rf(3) [OF Inr] clock(1) obtain secs nanos ticks where t: "since_epoch clock = Some (secs, nanos)"
        "file_time_ticks secs nanos = Some ticks" and n1: "nodes w1 = (nodes w)(pathk k :=
          map_option (touch (file_time_value (filetime_of ticks))) (nodes w (pathk k)))" by blast
    have time: "file_time_value (filetime_of ticks) = clock div 100 * 100"
      using file_time_of_clock [OF t(2)] since_epoch_clock(3) [OF t(1) clock(2)] by simp
    let ?body = "windows_clear_round w32 config (pathk k) (b3_to_hex b3 k)"
    from cl x Inr stem [OF k] have "retry ?body w1 = Some (res, w')" by (simp add: windows_clear_blob_def)
    then obtain w2 where w2: "nodes w2 = nodes w1" "?body w2 = Inl (res, w')"
    proof (rule retry_rule [where I = "\<lambda>w2. nodes w2 = nodes w1", THEN exE])
      fix s s'
      assume "nodes s = nodes w1" and "?body s = Inr s'"
      with clear_round_effect [OF k, of s] show "nodes s' = nodes w1" by simp
    qed auto
    from clear_round_staging [OF k w2(2) qp] new q1 w2(1) obtain ident where
      "hex64 ident" "q = staging_path config (b3_to_hex b3 k) ''clear'' ident" "nodes w q = None"
      "nodes w' q = nodes w1 (pathk k)" "nodes w' (pathk k) = None" by auto
    moreover from this n1 new obtain n where "nodes w (pathk k) = Some n" by auto
    ultimately show ?thesis using n1 time by auto
  qed
qed

lemma quarantine_round_effect:
  assumes k: "length k = 32"
  shows "case windows_quarantine_round w32 config (pathk k) (b3_to_hex b3 k) w of
      Inl (res, w') \<Rightarrow> windows_quarantine_effect temp config (b3_to_hex b3 k) (pathk k) w res w'
    | Inr w' \<Rightarrow> nodes w' = nodes w"
proof -
  obtain x w1 where x: "random_identifier (win_random w32) w = (x, w1)" by fastforce
  note x1 = random_identifier_effect [OF x]
  show ?thesis
  proof (cases x)
    case (Inl e)
    with x x1 have "\<exists>g. e = IdentifierGeneration g" by (auto simp: random_identifier_hex split: prod.splits sum.splits)
    with Inl x x1 show ?thesis
      by (auto simp: windows_quarantine_round_def windows_quarantine_effect_def Let_def agree_nodes)
  next
    case (Inr ident)
    let ?s = "quarantine_destination config (b3_to_hex b3 k) ident"
    note ident = x1(2) [OF Inr]
    note names = portable_names [OF key_hex64 [OF k] ident]
    note paths = staging_names(3) [of "b3_to_hex b3 k" ident] path_of_key [of k]
    have ne: "b3_to_hex b3 k @ sfx \<noteq> b3_to_hex b3 k @ sfx @ ''.quarantine-v1.'' @ ident" by simp
    obtain y w2 where y: "move_file w32 (pathk k) ?s MOVEFILE_WRITE_THROUGH w1 = (y, w2)" by fastforce
    note y1 = move_file_effect [OF names(1,4) ne y [unfolded paths], folded paths]
    show ?thesis
    proof (cases y)
      case (Inl e)
      obtain z w3 where z: "ensure_namespace_available config w2 = (z, w3)" by fastforce
      have "nodes w3 = nodes w2" using ensure_namespace_same [OF z] by (simp add: same_files_def)
      moreover have "z \<noteq> Inl QuarantineSourceMissing"
        using z by (auto simp: ensure_namespace_available_def split: prod.splits sum.splits if_splits)
      ultimately show ?thesis using x Inr y Inl y1 x1(1) z
        by (cases z) (auto simp: windows_quarantine_round_def Let_def windows_quarantine_effect_def agree_def)
    next
      case (Inr u)
      have "pathk k \<noteq> ?s" unfolding paths by (simp add: in_directory_inj)
      moreover have "nodes w1 ?s = None" using y1 Inr by (auto simp: MOVEFILE_WRITE_THROUGH_def MOVEFILE_REPLACE_EXISTING_def)
      ultimately have c2: "moved temp (pathk k) ?s w w2" using y1 Inr x1(1) by (auto simp: moved_def)
      obtain s w3 where s: "sync_windows_directory w32 config w2 = (s, w3)" by fastforce
      have c3: "moved temp (pathk k) ?s w w3" using c2 sync_windows_directory_nodes [OF refl s] by (simp add: moved_def)
      from x \<open>x = Inr ident\<close> y Inr s c3 ident show ?thesis
        by (cases s) (auto simp: windows_quarantine_round_def Let_def windows_quarantine_effect_def)
    qed
  qed
qed

lemma quarantine_effect:
  assumes k: "length k = 32" and q: "windows_quarantine_blob w32 config (pathk k) w = Some (res, w')"
  shows "windows_quarantine_effect temp config (b3_to_hex b3 k) (pathk k) w res w'"
proof -
  let ?body = "windows_quarantine_round w32 config (pathk k) (b3_to_hex b3 k)"
  from q stem [OF k] have "retry ?body w = Some (res, w')" by (simp add: windows_quarantine_blob_def)
  then obtain w1 where w1: "nodes w1 = nodes w" "?body w1 = Inl (res, w')"
  proof (rule retry_rule [where I = "\<lambda>w1. nodes w1 = nodes w", THEN exE])
    fix s s'
    assume "nodes s = nodes w" and "?body s = Inr s'"
    with quarantine_round_effect [OF k, of s] show "nodes s' = nodes w" by simp
  qed auto
  with quarantine_round_effect [OF k, of w1] show ?thesis
    by (cases res) (auto simp: windows_quarantine_effect_def agree_def moved_def Let_def)
qed

lemma owned_portable: "is_owned_temporary_filename name sfx \<Longrightarrow> portable name"
proof -
  assume "is_owned_temporary_filename name sfx"
  then obtain hash purpose ident where n: "name = hash @ sfx @ ''.tmp-v1.'' @ purpose @ ''.'' @ ident"
      "hex64 hash" "purpose \<in> {''save'', ''clear''}" "hex64 ident" unfolding owned_iff [OF suffix_ok] by blast
  show ?thesis using n(1,3) portable_names(2,3) [OF n(2,4)] by auto
qed

lemma cleanup_entries_removed:
  "cleanup_entries w32 sf now minimum_age es report w = (report', w') \<Longrightarrow> set (removed report) \<subseteq> set (removed report')"
proof (induction w32 sf now minimum_age es report w rule: cleanup_entries.induct)
  case (3 w32 sf now minimum_age name path entries report w)
  then show ?case
    by (auto simp: Let_def split: if_splits prod.splits sum.splits node.splits)
qed auto

lemma cleanup_entries_effect:
  assumes "\<forall>name p. Inr (name, p) \<in> set es \<longrightarrow> is_owned_temporary_filename name sfx \<longrightarrow> p = join (namespace config) (relative name)"
    and "cleanup_entries w32 sfx now minimum_age es report w = (report', w')"
  shows "(\<forall>q. nodes w' q = nodes w q \<or> nodes w' q = None \<and> swept config now minimum_age report' w q)
    \<and> (\<forall>name \<in> set (removed report'). name \<in> set (removed report) \<or> nodes w' (join (namespace config) (relative name)) = None)
    \<and> reported report' = reported report + mset (concat (map (reported_name config) es))"
  using assms
proof (induction es arbitrary: report w)
  case (Cons en es)
  have es: "\<forall>name p. Inr (name, p) \<in> set es \<longrightarrow> is_owned_temporary_filename name sfx \<longrightarrow> p = join (namespace config) (relative name)"
    using Cons.prems(1) by simp
  note IH = Cons.IH [OF es]
  show ?case
  proof (cases en)
    case (Inl source)
    with Cons.prems(2) IH show ?thesis by (fastforce simp: reported_def)
  next
    case (Inr np)
    obtain name p where np: "np = (name, p)" by (cases np)
    show ?thesis
    proof (cases "is_owned_temporary_filename name sfx")
      case False
      with Cons.prems(2) Inr np IH show ?thesis by simp
    next
      case owned: True
      then have p: "p = join (namespace config) (relative name)" using Cons.prems(1) Inr np by simp
      obtain x w1 where x: "fs_symlink_metadata p w = (x, w1)" by fastforce
      have n1: "nodes w1 = nodes w" using frame_dests(3) [OF x] by (simp add: same_files_def)
      have failed: ?thesis if "cleanup_entries w32 sfx now minimum_age es
          (report\<lparr>failures := failures report @ [\<lparr>failed_identifier = name, failure_source = source\<rparr>]\<rparr>) w2 = (report', w')"
        and "nodes w2 = nodes w" for source w2
        using IH [OF that(1)] that(2) Inr np owned by (auto simp: reported_def swept_def)
      show ?thesis
      proof (cases "\<exists>bs mtime. x = Inr (Regular bs mtime)")
        case False
        then show ?thesis
          using Cons.prems(2) Inr np owned x n1 failed by (cases x; (cases "projr x")?) (auto simp: Let_def)
      next
        case True
        then obtain bs mtime where x': "x = Inr (Regular bs mtime)" by blast
        then have reg: "nodes w p = Some (Regular bs mtime)" using lookup_Inr(2) x by blast
        show ?thesis
        proof (cases "old_enough now minimum_age mtime")
          case False
          with Cons.prems(2) Inr np owned x x' have "cleanup_entries w32 sfx now minimum_age es
              (report\<lparr>skipped := skipped report @ [name]\<rparr>) w1 = (report', w')" by (simp add: Let_def)
          from IH [OF this] n1 Inr np owned show ?thesis by (auto simp: reported_def swept_def)
        next
          case old: True
          obtain d w2 where d: "delete_file w32 p w1 = (d, w2)" by fastforce
          note d2 = delete_file_effect [OF owned_portable [OF owned] d [unfolded p], folded p]
          show ?thesis
          proof (cases d)
            case (Inl source)
            with Cons.prems(2) \<open>en = Inr np\<close> np owned x x' old d d2 n1 failed show ?thesis by (simp add: Let_def)
          next
            case (Inr u)
            with Cons.prems(2) \<open>en = Inr np\<close> np owned x x' old d have r: "cleanup_entries w32 sfx now minimum_age es
              (report\<lparr>removed := removed report @ [name]\<rparr>) w2 = (report', w')" by (simp add: Let_def)
            have n2: "nodes w2 = (nodes w)(p := None)" using d2 Inr n1 by simp
            have "name \<in> set (removed report')" using cleanup_entries_removed [OF r] by simp
            then have sw: "swept config now minimum_age report' w p" using p owned reg old unfolding swept_def by blast
            note I = IH [OF r]
            have "nodes w' q = nodes w q \<or> nodes w' q = None \<and> swept config now minimum_age report' w q" for q
            proof (cases "q = p")
              case True
              have "nodes w' p = None" using I n2 by (metis fun_upd_same)
              with True sw show ?thesis by simp
            next
              case False
              with I n2 show ?thesis by (simp add: swept_def) metis
            qed
            moreover have "nodes w' p = None" using I n2 by (metis fun_upd_same)
            ultimately show ?thesis using I \<open>en = Inr np\<close> np owned p by (auto simp: reported_def)
          qed
        qed
      qed
    qed
  qed
qed (auto simp: swept_def)

lemma cleanup_effect:
  assumes "windows_cleanup_stale_files w32 config minimum_age w = (res, w')"
  shows "case res of
      Inl e \<Rightarrow> nodes w' = nodes w \<and> (\<exists>x. e = Io EnumerateTemporaryFiles x)
    | Inr report \<Rightarrow> (\<forall>q. nodes w' q = nodes w q \<or> nodes w' q = None \<and> swept config (fst (system_now w32 w)) minimum_age report w q)
        \<and> (\<forall>name \<in> set (removed report). nodes w' (join (namespace config) (relative name)) = None)
        \<and> (\<exists>es w2. fst (read_dir w32 (namespace config) w2) = Inr es \<and> nodes w2 = nodes w
              \<and> reported report = mset (concat (map (reported_name config) es)))"
proof -
  obtain now w1 where now: "system_now w32 w = (now, w1)" by fastforce
  obtain x w2 where x: "read_dir w32 (namespace config) w1 = (x, w2)" by fastforce
  have n: "nodes w1 = nodes w" "nodes w2 = nodes w" using now_nodes [OF now] read_dir_nodes [OF x] by simp_all
  show ?thesis
  proof (cases x)
    case (Inl e)
    with assms now x n show ?thesis by (auto simp: windows_cleanup_stale_files_def)
  next
    case (Inr es)
    obtain report w3 where r: "cleanup_entries w32 sfx now minimum_age es cleanup_report_default w2 = (report, w3)" by fastforce
    have "\<forall>name p. Inr (name, p) \<in> set es \<longrightarrow> is_owned_temporary_filename name sfx \<longrightarrow> p = join (namespace config) (relative name)"
      using read_dir_entries [OF x [unfolded Inr]] owned_portable by blast
    note eff = cleanup_entries_effect [OF this r]
    have "reported cleanup_report_default = {#}" by (simp add: reported_def cleanup_report_default_def)
    with eff x Inr n have "\<exists>es w2. fst (read_dir w32 (namespace config) w2) = Inr es \<and> nodes w2 = nodes w
        \<and> reported report = mset (concat (map (reported_name config) es))"
      by (intro exI [of _ es] exI [of _ w1]) simp
    moreover have "res = Inr report" "w' = w3" using assms now x Inr r by (auto simp: windows_cleanup_stale_files_def)
    moreover have "removed cleanup_report_default = []" by (simp add: cleanup_report_default_def)
    ultimately show ?thesis using eff now n by (simp add: swept_def)
  qed
qed

text \<open>A cleanup leaves such a file alone until its age is reached.\<close>

lemma cleanup_spares:
  assumes cl: "windows_cleanup_stale_files w32 config minimum_age w = (res, w')" and n: "nodes w q = Some (touch t n)"
    and young: "fst (system_now w32 w) < t + int minimum_age"
  shows "nodes w' q = nodes w q"
proof (cases res)
  case (Inl e)
  with cleanup_effect [OF cl] show ?thesis by simp
next
  case (Inr report)
  have "\<not> swept config (fst (system_now w32 w)) minimum_age report w q"
  proof
    assume "swept config (fst (system_now w32 w)) minimum_age report w q"
    then obtain bs mtime where "touch t n = Regular bs mtime" and old: "old_enough (fst (system_now w32 w)) minimum_age mtime"
      unfolding swept_def using n by auto
    then have "mtime = Some t" by (cases n) (simp_all add: touch_def)
    with old young show False by (simp add: old_enough_def)
  qed
  moreover from cleanup_effect [OF cl] Inr have
    "nodes w' q = nodes w q \<or> nodes w' q = None \<and> swept config (fst (system_now w32 w)) minimum_age report w q" by simp
  ultimately show ?thesis by blast
qed

text \<open>Opening creates at most the namespace directory.\<close>

lemma initialize_effect:
  assumes "windows_initialize_platform w32 root component fmt limit n w = (res, w')"
  shows "case res of
      Inl _ \<Rightarrow> nodes w' = nodes w
    | Inr conf \<Rightarrow> format conf = fmt \<and> maximum conf = limit \<and> cfg_max_concurrent conf = n
        \<and> nodes w' = (nodes w)(namespace conf \<mapsto> Directory)
        \<and> (nodes w (namespace conf) = None \<or> nodes w (namespace conf) = Some Directory)"
proof -
  obtain x w1 where x: "absolute_path w32 root w = (x, w1)" by fastforce
  note n1 = absolute_nodes [OF x]
  show ?thesis
  proof (cases x)
    case (Inl e)
    with assms x n1 show ?thesis by (auto simp: windows_initialize_platform_def)
  next
    case (Inr r)
    obtain y w2 where y: "fs_metadata r w1 = (y, w2)" by fastforce
    have n2: "nodes w2 = nodes w" using frame_dests(2) [OF y] n1 by (simp add: same_files_def)
    show ?thesis
    proof (cases "y = Inr Directory")
      case False
      with assms x y Inr n2 show ?thesis
        by (cases y) (auto simp: windows_initialize_platform_def split: if_splits)
    next
      case True
      let ?ns = "join r component"
      obtain z w3 where z: "fs_create_dir ?ns w2 = (z, w3)" by fastforce
      show ?thesis
      proof (cases z)
        case (Inr u)
        with assms x \<open>x = Inr r\<close> y True z fs_create_dir_Inr [OF z [unfolded Inr]] n2 show ?thesis
          by (auto simp: windows_initialize_platform_def Let_def)
      next
        case (Inl e)
        obtain v w4 where v: "fs_metadata ?ns w3 = (v, w4)" by fastforce
        have n4: "nodes w3 = nodes w" "nodes w4 = nodes w"
          using fs_create_dir_Inl [OF z [unfolded Inl]] frame_dests(2) [OF v] n2 by (auto simp: same_files_def)
        with assms x \<open>x = Inr r\<close> y True z Inl v lookup_Inr(1) [of ?ns w3] show ?thesis
          by (cases v) (auto simp: windows_initialize_platform_def Let_def fun_upd_idem split: if_splits)
      qed
    qed
  qed
qed

end

end
