(* ===== verification/Windows_Model.thy ===== *)
theory Windows_Model
  imports Windows_Effects
begin

text \<open>
  The Windows backend provides the store: each of its operations does what the abstract map allows,
  and a cleanup does nothing to the map. Locale \<open>windows_model\<close> is the counterpart of \<open>store_model\<close>.
\<close>

section \<open>Effects on the map\<close>

context windows_store
begin


text \<open>How the effects act on the abstract map the files represent.\<close>

lemma namespace_not_temporary: "\<not> temp (namespace config)"
  by (cases "namespace config") (auto simp: temporary_def join_def)

lemma pathk_distinct: "length k = 32 \<Longrightarrow> length k' = 32 \<Longrightarrow> k' \<noteq> k \<Longrightarrow> pathk k' \<noteq> pathk k"
  using hex_inj by (auto simp: worker_path_def in_directory_inj)

lemma represents_change:
  assumes m: "represents c b3 config m w" and k: "length k = 32"
    and fr: "\<And>q. \<not> temp q \<Longrightarrow> q \<noteq> pathk k \<Longrightarrow> q \<notin> range (quarantine_destination config (b3_to_hex b3 k)) \<Longrightarrow> nodes w' q = nodes w q"
    and e: "entry_of c config v (nodes w' (pathk k))"
  shows "represents c b3 config (m(k := v)) w'"
proof -
  have aside: "q \<notin> range (quarantine_destination config (b3_to_hex b3 k))" if "q = namespace config \<or> (\<exists>k'. q = pathk k' \<and> length k' = 32)" for q
  proof
    assume "q \<in> range (quarantine_destination config (b3_to_hex b3 k))"
    then obtain i where i: "q = quarantine_destination config (b3_to_hex b3 k) i" by blast
    from that show False
    proof
      assume "q = namespace config"
      with i show False by (cases "namespace config") (auto simp: quarantine_destination_def join_def)
    next
      assume "\<exists>k'. q = pathk k' \<and> length k' = 32"
      then obtain k' where "q = pathk k'" "length k' = 32" by blast
      with i have "length (b3_to_hex b3 k' @ sfx) = length (b3_to_hex b3 k @ sfx @ ''.quarantine-v1.'' @ i)"
        by (simp add: worker_path_def quarantine_destination_def join_def)
      with key_hex64 k \<open>length k' = 32\<close> show False by (simp add: hex64_def)
    qed
  qed
  have "nodes w' (namespace config) = Some Directory"
    using fr [OF namespace_not_temporary] aside m pathk_not_namespace by (metis represents_def)
  moreover have "entry_of c config ((m(k := v)) k') (nodes w' (pathk k'))" if "length k' = 32" for k'
  proof (cases "k' = k")
    case False
    then have "nodes w' (pathk k') = nodes w (pathk k')"
      using fr published_not_temporary(1) [OF that] pathk_distinct [OF k that False] aside that by blast
    with m that False show ?thesis by (simp add: represents_def)
  qed (simp add: e)
  ultimately show ?thesis by (simp add: represents_def)
qed

lemma represents_entry: "represents c b3 config m w \<Longrightarrow> length k = 32 \<Longrightarrow> entry_of c config (m k) (nodes w (pathk k))"
  by (simp add: represents_def)

lemma represents_keep:
  assumes "represents c b3 config m w" and "length k = 32" and "agree_aged temp (pathk k) w w'"
  shows "represents c b3 config m w'"
proof -
  have "entry_of c config (m k) (nodes w' (pathk k))"
    using represents_entry [OF assms(1,2)] assms(3)
    by (auto simp: entry_of_def agree_aged_def touch_def split: option.splits)
  from represents_change [OF assms(1,2) _ this] assms(3) show ?thesis by (simp add: agree_aged_def)
qed

lemma agree_agree_aged: "agree temp w w' \<Longrightarrow> length k = 32 \<Longrightarrow> agree_aged temp (pathk k) w w'"
  using published_not_temporary(1) by (simp add: agree_def agree_aged_def)

text \<open>An opened store represents what lies at the canonical paths.\<close>

lemma initialize_map:
  assumes "windows_initialize_platform w32 root component fmt limit n w = (res, w')"
    and "\<And>k. length k = 32 \<Longrightarrow> entry_of c config (m k) (nodes w (pathk k))"
  shows "case res of Inl _ \<Rightarrow> nodes w' = nodes w | Inr conf \<Rightarrow> conf = config \<longrightarrow> represents c b3 config m w'"
  using initialize_effect [OF assms(1)] assms(2) pathk_not_namespace
  by (auto simp: represents_def split: sum.splits)

lemma represents_kept: "represents c b3 config m w \<Longrightarrow> length (k :: bytes) = 32 \<Longrightarrow> agree temp w w' \<Longrightarrow> represents c b3 config m w'"
  using represents_keep agree_agree_aged by blast

lemma save_effect_refines:
  assumes m: "represents c b3 config m w" and k: "length k = 32" and p: "length p \<le> unat (maximum config)"
    and e: "windows_save_effect True temp (pathk k) (envelope_layout c (format config) p) w res w'"
  shows "\<exists>m'. represents c b3 config m' w' \<and>
    (case res of Inr _ \<Rightarrow> m' = m(k \<mapsto> p) | Inl e \<Rightarrow> m' = m \<or> late_save OnWindows e \<and> m' = m(k \<mapsto> p))"
proof -
  have "represents c b3 config (m(k \<mapsto> p)) w'" if "stored temp (pathk k) (envelope_layout c (format config) p) w w'"
    using represents_change [OF m k, of w' "Some p"] that p by (simp add: stored_def entry_of_def)
  with e represents_kept [OF m k] show ?thesis by (cases res) (auto simp: windows_save_effect_def ambiguous_definite)
qed

lemma save_refines:
  assumes m: "represents c b3 config m w" and k: "length k = 32"
    and sv: "windows_save_blob w32 c config (pathk k) payload w = Some (r, w')"
  shows "\<exists>m'. spec_allows OnWindows config k (Save payload s) m (SaveResult r) sent m' \<and> represents c b3 config m' w'"
proof (cases "length payload \<le> unat (maximum config)")
  case True
  with save_effect [OF k sv] have "windows_save_effect True temp (pathk k) (envelope_layout c (format config) payload) w r w'" by simp
  from save_effect_refines [OF m k True this] True show ?thesis by (cases r) auto
next
  case False
  with save_effect [OF k sv] m show ?thesis by (cases r) auto
qed

lemma save_stream_refines:
  assumes m: "represents c b3 config m w" and k: "length k = 32" and vec: "vec_chunks ms"
    and sv: "windows_save_blob_from_receiver w32 c config (pathk k) declared ms w = Some (r, w')"
  shows "\<exists>m'. spec_allows OnWindows config k (SaveStream declared ms s) m (SaveStreamResult r) sent m' \<and> represents c b3 config m' w'"
  using stream_effect [OF k vec sv]
proof (elim disjE exE conjE)
  assume "agree temp w w'" and "isl r"
  with represents_kept [OF m k] show ?thesis by (cases r) auto
next
  fix p
  assume "complete_input config declared ms p"
    and e: "windows_save_effect True temp (pathk k) (envelope_layout c (format config) p) w r w'"
  then have p: "completed ms = Some p" "length p = unat declared" "length p \<le> unat (maximum config)"
    by (simp_all add: complete_input_def)
  from save_effect_refines [OF m k p(3) e] p(1,2) show ?thesis by (cases r) auto
qed

lemma clear_refines:
  assumes m: "represents c b3 config m w" and k: "length k = 32"
    and cl: "windows_clear_blob w32 config (pathk k) w = Some (r, w')"
  shows "\<exists>m'. spec_allows OnWindows config k (Clear s) m (ClearResult r) sent m' \<and> represents c b3 config m' w'"
proof -
  have "represents c b3 config (m(k := None)) w'" if "cleared temp (pathk k) w w'"
    using represents_change [OF m k, of w' None] that by (simp add: cleared_def entry_of_def)
  with clear_effect [OF k cl] represents_keep [OF m k] show ?thesis by (cases r) (auto simp: windows_clear_effect_def)
qed

lemma quarantine_refines:
  assumes m: "represents c b3 config m w" and k: "length k = 32"
    and q: "windows_quarantine_blob w32 config (pathk k) w = Some (r, w')"
  shows "\<exists>m'. spec_allows OnWindows config k (Quarantine s) m (QuarantineResult r) sent m' \<and> represents c b3 config m' w'"
proof -
  have st: "represents c b3 config (m(k := None)) w' \<and> m k \<noteq> None"
    if "moved temp (pathk k) (quarantine_destination config (b3_to_hex b3 k) i) w w'" for i
  proof
    show "m k \<noteq> None" using that represents_entry [OF m k] by (auto simp: moved_def entry_of_def split: option.splits)
    show "represents c b3 config (m(k := None)) w'"
      by (rule represents_change [OF m k]) (use that in \<open>auto simp: moved_def entry_of_def\<close>)
  qed
  note e = quarantine_effect [OF k q, unfolded windows_quarantine_effect_def Let_def]
  show ?thesis
  proof (cases r)
    case (Inl x)
    with e consider "agree temp w w'" "x = QuarantineSourceMissing \<longrightarrow> nodes w (pathk k) = None"
      | i q y where "x = QuarantineNamespaceSync q y" "moved temp (pathk k) (quarantine_destination config (b3_to_hex b3 k) i) w w'"
      by (auto; metis)
    then show ?thesis
    proof cases
      case 1
      with represents_kept [OF m k] entry_None [OF m k] Inl show ?thesis by auto
    next
      case 2
      with st Inl show ?thesis by auto
    qed
  next
    case (Inr i)
    with e st have "represents c b3 config (m(k := None)) w' \<and> m k \<noteq> None" by (auto; metis)
    with Inr show ?thesis by auto
  qed
qed

lemma cleanup_keeps_map:
  assumes m: "represents c b3 config m w" and cl: "windows_cleanup_stale_files w32 config age w = (res, w')"
  shows "represents c b3 config m w'"
proof -
  have eq: "nodes w' q = nodes w q" if "\<not> temp q" for q
  proof (cases res)
    case (Inl e)
    with cleanup_effect [OF cl] show ?thesis by simp
  next
    case (Inr report)
    with cleanup_effect [OF cl] that show ?thesis by (auto simp: swept_def temporary_def)
  qed
  have "nodes w' (pathk k) = nodes w (pathk k)" if "length k = 32" for k
    by (rule eq [OF published_not_temporary(1) [OF that]])
  with m eq [OF namespace_not_temporary] show ?thesis by (simp add: represents_def)
qed

end

section \<open>The store on Windows\<close>

locale windows_model = windows_store w32 config opened c b3 + store_loads c b3 config usize_max
  for w32 :: "'x win32" and config :: store_config and opened :: "handle \<Rightarrow> 'x world \<Rightarrow> path option"
    and c :: crc32c and b3 :: blake3 and usize_max :: nat
begin

abbreviation envw :: "'x environment" where
  "envw \<equiv> \<lparr>env_usize_max = usize_max, env_crc = c, env_backend = Windows w32\<rparr>"

lemma operation_refines:
  assumes m: "represents c b3 config m w" and req: "proper_request (k, op)"
    and run: "run_owned_operation envw config (pathk k) op w = Some (Some (op', res), sent, w')"
  shows "\<exists>m'. spec_allows OnWindows config k op m res sent m' \<and> represents c b3 config m' w'"
proof -
  have k: "length k = 32" using req by (simp add: proper_request_def)
  show ?thesis
  proof (cases op)
    case (Load s)
    with run load_refines [OF m k] show ?thesis by (fastforce split: prod.splits simp del: spec_allows.simps)
  next
    case (LoadStream chunks ack s)
    with run stream_load_refines [OF m k] show ?thesis
      by (fastforce split: prod.splits option.splits simp del: spec_allows.simps)
  next
    case (Save payload s)
    with run save_refines [OF m k] show ?thesis
      by (fastforce split: prod.splits option.splits simp del: spec_allows.simps)
  next
    case (SaveStream declared ms s)
    with run req save_stream_refines [OF m k] show ?thesis
      by (fastforce split: prod.splits option.splits simp: proper_request_def simp del: spec_allows.simps)
  next
    case (Clear s)
    with run clear_refines [OF m k] show ?thesis
      by (fastforce split: prod.splits option.splits simp del: spec_allows.simps)
  next
    case (Inspect s)
    with run inspect_refines [OF m k] show ?thesis by (fastforce split: prod.splits simp del: spec_allows.simps)
  next
    case (Quarantine s)
    with run quarantine_refines [OF m k] show ?thesis
      by (fastforce split: prod.splits option.splits simp del: spec_allows.simps)
  qed
qed

end

sublocale windows_model \<subseteq> backed: backed_store envw b3 config
  by unfold_locales (auto dest: operation_refines cleanup_keeps_map)

context windows_model
begin

lemma is_backed: "backed_store envw b3 config"
  by unfold_locales

end

end
