(* ===== verification/Backends.thy ===== *)
theory Backends
  imports Engine Unix_Model Windows_Model
begin

text \<open>
  What the engine's properties assume of the code outside the repository: the crates of either
  backend, the checksum and the hash have their documented behaviour.
\<close>

definition documented :: "'x surroundings \<Rightarrow> store_config \<Rightarrow> bool" where
  "documented sur config \<longleftrightarrow>
    (let env = crates sur in
     case env_backend env of
       Unix ops \<Rightarrow> (\<exists>hidden staged. store_model ops hidden staged (env_crc env) (hashing sur) config (env_usize_max env))
     | Windows w32 \<Rightarrow> (\<exists>opened. windows_model w32 config opened (env_crc env) (hashing sur) (env_usize_max env)))"

lemma environment_eta:
  "env_backend env = b \<Longrightarrow> \<lparr>env_usize_max = env_usize_max env, env_crc = env_crc env, env_backend = b\<rparr> = env"
  by simp

lemma documented_backed:
  assumes "documented sur config"
  shows "backed_store (crates sur) (hashing sur) config"
proof (cases "env_backend (crates sur)")
  case (Unix ops)
  with assms obtain hidden staged where
    "store_model ops hidden staged (env_crc (crates sur)) (hashing sur) config (env_usize_max (crates sur))"
    by (auto simp: documented_def Let_def)
  from store_model.is_backed [OF this] environment_eta [OF Unix] show ?thesis by simp
next
  case (Windows w32)
  with assms obtain opened where
    "windows_model w32 config opened (env_crc (crates sur)) (hashing sur) (env_usize_max (crates sur))"
    by (auto simp: documented_def Let_def)
  from windows_model.is_backed [OF this] environment_eta [OF Windows] show ?thesis by simp
qed

abbreviation target :: "'x surroundings \<Rightarrow> platform" where
  "target sur \<equiv> platform_of (env_backend (crates sur))"

end
