(* ===== verification/Engine_Example.thy ===== *)
theory Engine_Example
  imports Engine_History Store_Instance Backends
begin

text \<open>
  A concrete run of the engine on the executable crates: a save is submitted, dispatched, run by a
  worker and answered; and a flush of an idle store.
\<close>

definition example_surroundings :: "posix surroundings" where
  "example_surroundings = \<lparr>crates = \<lparr>env_usize_max = 2 ^ 64 - 1, env_crc = crc32c_reference, env_backend = Unix posix_ops\<rparr>,
     hashing = blake3_reference, os_name = ''linux'', map_order = map fst\<rparr>"

definition example_pool :: "nat \<Rightarrow> job list \<Rightarrow> worker_pool" where
  "example_pool n js = \<lparr>sender_open = True, jobs = js, handles = n, capacity = 2, spawns = [], exit_panicked = False\<rparr>"

definition example_engine :: "posix engine" where
  "example_engine = \<lparr>coord = coordinator_init (example_pool 0 []), thread = Running, running = [], disk = example_world,
     clients = True, joined = \<lparr>join_handle = True, join_outcome = None\<rparr>, requests = [], finished = []\<rparr>"

lemma example_sound: "sound_surroundings example_surroundings sample_config"
  by (simp add: sound_surroundings_def example_surroundings_def iterates_def sample_config_def b3_ref.blake3_spec_axioms)

lemma example_opened: "from_config [] False (Inr ()) sample_config example_world = Inr example_engine"
  by (simp add: from_config_def pool_new_def example_engine_def example_pool_def sample_config_def)

abbreviation example_hash :: bytes where
  "example_hash \<equiv> key_hash blake3_reference [1]"

abbreviation example_save :: operation where
  "example_save \<equiv> Save [7] 0"

text \<open>The stages of one operation \<open>op\<close> with the reply channel \<open>0\<close> on an idle store.\<close>

definition asking :: "operation \<Rightarrow> coordinator \<Rightarrow> job list \<Rightarrow> posix_world \<Rightarrow>
    ((bytes \<times> operation) \<times> (blocking_result \<times> bytes list)) list \<Rightarrow> posix engine" where
  "asking op st run w fin = \<lparr>coord = st, thread = Running, running = run, disk = w, clients = True,
     joined = \<lparr>join_handle = True, join_outcome = None\<rparr>, requests = [Submission example_hash op], finished = fin\<rparr>"

definition stage :: "queue_map \<Rightarrow> bytes list \<Rightarrow> worker_pool \<Rightarrow> coordinator_event list \<Rightarrow> (sender \<times> reply) list \<Rightarrow> coordinator" where
  "stage qs act p ib rs = \<lparr>queues = qs, active = act, pending = [], maintenance_active = False, lifecycle = Open, pool = p,
     inbox = ib, replies = rs, dropped = []\<rparr>"

definition submitted_by :: "operation \<Rightarrow> posix engine" where
  "submitted_by op = asking op (stage [] [] (example_pool 0 []) [Submission example_hash op] []) [] example_world []"

definition dispatched_by :: "operation \<Rightarrow> posix engine" where
  "dispatched_by op = asking op (stage [(example_hash, [])] [example_hash] (example_pool 1 [OperationJob example_hash op]) [] [])
     [] example_world []"

definition taken_by :: "operation \<Rightarrow> posix engine" where
  "taken_by op = asking op (stage [(example_hash, [])] [example_hash] (example_pool 1 []) [] [])
     [OperationJob example_hash op] example_world []"

definition completed_by ::
    "operation \<Rightarrow> operation \<Rightarrow> blocking_result \<Rightarrow> bytes list \<Rightarrow> posix_world \<Rightarrow> posix engine" where
  "completed_by op op' res sent w = asking op (stage [(example_hash, [])] [example_hash] (example_pool 1 [])
     [Completion example_hash (Some (op', res))] []) [] w [((example_hash, op), (res, sent))]"

definition answered_by :: "operation \<Rightarrow> blocking_result \<Rightarrow> bytes list \<Rightarrow> reply \<Rightarrow> posix_world \<Rightarrow> posix engine" where
  "answered_by op res sent r w = asking op (stage [] [] (example_pool 1 []) [] [(0, r)]) [] w [((example_hash, op), (res, sent))]"

lemma send_example: "send_request (Submission example_hash op) example_engine = Some (submitted_by op)"
  by (simp add: send_request_def example_engine_def coordinator_init_def send_def submitted_by_def asking_def stage_def)

lemma step_dispatch: "internal example_surroundings sample_config (submitted_by op) (dispatched_by op)"
proof -
  have prep: "prepare (Suc 0) (example_pool 0 []) = (Inr (), example_pool 1 [])"
    by (simp add: example_pool_def prepare.simps)
  have idle: "dispatch_if_idle sample_config k (enqueue k op (stage [] [] (example_pool 0 []) [] []))
      = stage [(k, [])] [k] (example_pool 1 [OperationJob k op]) [] []" for k
    using prep
    by (simp add: dispatch_if_idle_def enqueue_def stage_def queue_of_def sample_config_def prepare_dispatch_def execute_def
        example_pool_def List.insert_def)
  have none: "dispatchable (map fst) (stage [(k, [])] [k] p [] []) = None" for k p
    by (simp add: dispatchable_def stage_def)
  have "scheduler_turn (map fst) sample_config (Submission k op) (stage [] [] (example_pool 0 []) [] [])
      = Some (stage [(k, [])] [k] (example_pool 1 [OperationJob k op]) [] [], False)" for k
    using idle [of k]
    by (simp add: scheduler_turn_def on_submission_def dispatch_available.simps none close_ready_def)
      (simp add: stage_def)
  then have "scheduler_turn (map_order example_surroundings) sample_config (Submission example_hash op)
      ((coord (submitted_by op))\<lparr>inbox := []\<rparr>) = Some (coord (dispatched_by op), False)"
    by (simp add: example_surroundings_def submitted_by_def asking_def dispatched_by_def stage_def)
  from internal.turn [OF _ _ this] have "internal example_surroundings sample_config (submitted_by op)
      ((submitted_by op)\<lparr>coord := coord (dispatched_by op), thread := Running\<rparr>)"
    by (simp add: submitted_by_def asking_def stage_def)
  then show ?thesis by (simp add: submitted_by_def dispatched_by_def asking_def)
qed

lemma step_take: "internal example_surroundings sample_config (dispatched_by op) (taken_by op)"
proof -
  from internal.take [of "dispatched_by op" "OperationJob example_hash op" "[]"]
  have "internal example_surroundings sample_config (dispatched_by op) ((dispatched_by op)\<lparr>coord := (coord (dispatched_by op))
      \<lparr>pool := (pool (coord (dispatched_by op)))\<lparr>jobs := []\<rparr>\<rparr>, running := running (dispatched_by op) @ [OperationJob example_hash op]\<rparr>)"
    by (simp add: dispatched_by_def asking_def stage_def example_pool_def)
  then show ?thesis by (simp add: dispatched_by_def taken_by_def asking_def stage_def example_pool_def)
qed

abbreviation example_file :: path where
  "example_file \<equiv> worker_path blake3_reference sample_config example_hash"

lemma step_finish:
  assumes "run_owned_operation (crates example_surroundings) sample_config example_file op example_world
    = Some (Some (op', res), sent, w)"
  shows "internal example_surroundings sample_config (taken_by op) (completed_by op op' res sent w)"
proof -
  have "hashing example_surroundings = blake3_reference" by (simp add: example_surroundings_def)
  with assms have "run_job example_surroundings sample_config (OperationJob example_hash op) (disk (taken_by op))
      = Some (Completion example_hash (Some (op', res)), [], [((example_hash, op), (res, sent))], w)"
    by (simp add: taken_by_def asking_def)
  from internal.finish [OF _ this, of "[]" "[]"] show ?thesis
    by (simp add: taken_by_def completed_by_def asking_def stage_def send_def)
qed

lemma step_answer:
  assumes "deliver op' res = Some (0, r)"
  shows "internal example_surroundings sample_config (completed_by op op' res sent w) (answered_by op res sent r w)"
proof -
  have none: "dispatchable (map fst) (stage [(k, [])] [] p [] rs) = None" for k p rs
    by (simp add: dispatchable_def stage_def queue_of_def)
  have idle: "dispatch_if_idle sample_config k (stage [(k, [])] [] p [] rs) = stage [(k, [])] [] p [] rs" for k p rs
    by (simp add: dispatch_if_idle_def stage_def queue_of_def)
  have rel: "release_key (map fst) sample_config k (stage [(k, [])] [k] p [] []) = stage [] [] p [] []" for k p
  proof -
    have "(stage [(k, [])] [k] p [] [])\<lparr>active := removeAll k (active (stage [(k, [])] [k] p [] []))\<rparr> = stage [(k, [])] [] p [] []"
      by (simp add: stage_def)
    moreover have "dispatch_available (map fst) sample_config (stage [(k, [])] [] p [] []) = stage [(k, [])] [] p [] []"
      by (subst dispatch_available.simps) (simp add: none)
    ultimately show ?thesis by (simp add: release_key_def Let_def idle) (simp add: stage_def prune_def)
  qed
  have "scheduler_turn (map fst) sample_config (Completion k (Some (op', res))) (stage [(k, [])] [k] p [] [])
      = Some (stage [] [] p [] [(0, r)], False)" for k p
    using rel [of k p] assms
    by (simp add: scheduler_turn_def on_completion_def)
      (simp add: stage_def answer_def advance_pending_if_ready_def advance_loop.simps close_ready_def)
  then have "scheduler_turn (map_order example_surroundings) sample_config
      (Completion example_hash (Some (op', res))) ((coord (completed_by op op' res sent w))\<lparr>inbox := []\<rparr>)
      = Some (coord (answered_by op res sent r w), False)"
    by (simp add: example_surroundings_def completed_by_def asking_def answered_by_def stage_def)
  from internal.turn [OF _ _ this] have "internal example_surroundings sample_config (completed_by op op' res sent w)
      ((completed_by op op' res sent w)\<lparr>coord := coord (answered_by op res sent r w), thread := Running\<rparr>)"
    by (simp add: completed_by_def asking_def stage_def)
  then show ?thesis by (simp add: completed_by_def answered_by_def asking_def)
qed

lemma run_taken: "reaches example_surroundings sample_config (submitted_by op) (taken_by op)"
  using engine_step.internally [OF step_dispatch] engine_step.internally [OF step_take]
  by (meson converse_rtranclp_into_rtranclp rtranclp.rtrancl_refl)

lemma run_answered:
  assumes "run_owned_operation (crates example_surroundings) sample_config example_file op example_world
      = Some (Some (op', res), sent, w)" and "deliver op' res = Some (0, r)"
  shows "reaches example_surroundings sample_config (submitted_by op) (answered_by op res sent r w)"
  using run_taken engine_step.internally [OF step_finish [OF assms(1)]] engine_step.internally [OF step_answer [OF assms(2)]]
  by (meson rtranclp.rtrancl_into_rtrancl)

lemma answered_wait: "wait_pending (pending_new f 0) (answered_by op res sent r w) = Returns r (answered_by op res sent r w)"
  by (simp add: wait_pending_def pending_new_def answered_by_def asking_def stage_def)

text \<open>The save.\<close>

abbreviation submitted :: "posix engine" where
  "submitted \<equiv> submitted_by example_save"

abbreviation dispatched :: "posix engine" where
  "dispatched \<equiv> dispatched_by example_save"

abbreviation taken :: "posix engine" where
  "taken \<equiv> taken_by example_save"

abbreviation answered :: "posix_world \<Rightarrow> posix engine" where
  "answered \<equiv> answered_by example_save (SaveResult (Inr ())) [] (Finished (Inr ()))"

lemma step_submit: "engine_step example_surroundings sample_config example_engine submitted"
proof (rule engine_step.client [where c = "CallSave [1] [7]"])
  show "perform example_surroundings sample_config (CallSave [1] [7]) example_engine = Some submitted"
    using send_example [of example_save]
    by (simp add: save_def Let_def submit_def example_engine_def coordinator_init_def example_surroundings_def)
qed (simp_all add: example_engine_def proper_call_def)

lemma example_submitted: "reaches example_surroundings sample_config example_engine submitted"
  using step_submit by blast

lemma example_taken: "reaches example_surroundings sample_config example_engine taken"
  by (rule converse_rtranclp_into_rtranclp [OF step_submit run_taken])

lemma example_run_save: "\<exists>w. run_owned_operation (crates example_surroundings) sample_config example_file example_save example_world
    = Some (Some (example_save, SaveResult (Inr ())), [], w)"
proof -
  have "1 \<le> unat (maximum sample_config)" by (simp add: sample_config_def)
  then have "\<exists>x. save_blob posix_ops crc32c_reference sample_config example_file [7] example_world =
      (Inr (), example_world\<lparr>ext := x, nodes := (nodes example_world)(example_file \<mapsto>
         Regular (envelope_layout crc32c_reference (format sample_config) [7]) None)\<rparr>)"
    by (intro posix_save_undisturbed) (simp_all add: reference.crc32c_spec_axioms)
  then show ?thesis by (auto simp: example_surroundings_def)
qed

lemma submitted_answered: "\<exists>w. reaches example_surroundings sample_config submitted (answered w)"
  using example_run_save run_answered [of example_save example_save] by fastforce

lemma example_answered: "\<exists>w. reaches example_surroundings sample_config example_engine (answered w)"
  using submitted_answered step_submit by (meson converse_rtranclp_into_rtranclp)

section \<open>Flushes\<close>

definition flush_stage :: "nat \<Rightarrow> nat \<Rightarrow> coordinator_event list \<Rightarrow> posix engine" where
  "flush_stage n m ib = example_engine\<lparr>
     coord := stage [] [] (example_pool 0 []) ib (map (\<lambda>s. (s, Finished (Inr ()))) [0..<n]), requests := map Flush [0..<m]\<rparr>"

abbreviation flushed :: "nat \<Rightarrow> posix engine" where
  "flushed n \<equiv> flush_stage n n []"

lemma step_flush: "reaches example_surroundings sample_config (flushed n) (flushed (Suc n))"
proof -
  have "engine_step example_surroundings sample_config (flushed n) (flush_stage n (Suc n) [Flush n])"
    by (rule engine_step.client [where c = CallFlush])
      (simp_all add: flush_store_def Let_def send_request_def example_engine_def send_def flush_stage_def stage_def proper_call_def)
  moreover have "advance_loop sample_config ((stage [] [] p [] rs)\<lparr>pending := [PendingFlush n]\<rparr>)
      = stage [] [] p [] (rs @ [(n, Finished (Inr ()))])" for p rs
    by (subst advance_loop.simps, simp add: stage_def queues_empty_def, subst advance_loop.simps, simp add: answer_def)
  then have "scheduler_turn (map_order example_surroundings) sample_config (Flush n)
      ((coord (flush_stage n (Suc n) [Flush n]))\<lparr>inbox := []\<rparr>) = Some (coord (flushed (Suc n)), False)"
    by (simp add: flush_stage_def stage_def scheduler_turn_def on_flush_def advance_pending_if_ready_def close_ready_def)
  from internal.turn [OF _ _ this] have "internal example_surroundings sample_config (flush_stage n (Suc n) [Flush n])
      ((flush_stage n (Suc n) [Flush n])\<lparr>coord := coord (flushed (Suc n)), thread := Running\<rparr>)"
    by (simp add: flush_stage_def example_engine_def stage_def)
  then have "engine_step example_surroundings sample_config (flush_stage n (Suc n) [Flush n]) (flushed (Suc n))"
    by (intro engine_step.internally) (simp add: flush_stage_def example_engine_def)
  ultimately show ?thesis by (meson converse_rtranclp_into_rtranclp rtranclp.rtrancl_refl)
qed

lemma example_flushed: "reaches example_surroundings sample_config example_engine (flushed n)"
proof (induction n)
  case 0
  have "flushed 0 = example_engine" by (simp add: flush_stage_def example_engine_def stage_def coordinator_init_def)
  then show ?case by simp
next
  case (Suc n)
  then show ?case using step_flush by (rule rtranclp_trans)
qed

lemma flushed_stuck: "\<not> internal example_surroundings sample_config (flushed n) en"
  by (auto simp: flush_stage_def example_engine_def stage_def example_pool_def unreferenced_def elim: internal.cases)

section \<open>A close\<close>

definition close_sent :: "posix engine" where
  "close_sent = example_engine\<lparr>coord := stage [] [] (example_pool 0 []) [Close 0] [], requests := [Close 0]\<rparr>"

definition close_done :: "posix engine" where
  "close_done = example_engine\<lparr>coord := (stage [] [] ((example_pool 0 [])\<lparr>sender_open := False\<rparr>) [] [(0, Finished (Inr ()))])
     \<lparr>lifecycle := Closed\<rparr>, thread := Exited False, requests := [Close 0]\<rparr>"

abbreviation close_pending :: pending_result where
  "close_pending \<equiv> with_after (with_disconnected (\<lambda>e. Finished (Inl e)) 0)"

lemma close_call: "close_store example_engine = Some (close_pending, close_sent)"
  by (simp add: close_store_def send_request_def example_engine_def coordinator_init_def close_sent_def stage_def send_def)

lemma close_turn: "internal example_surroundings sample_config close_sent close_done"
proof -
  have "advance_loop sample_config ((stage [] [] p [] [])\<lparr>lifecycle := Closing, pending := [PendingClose 0]\<rparr>)
      = (stage [] [] p [] [])\<lparr>lifecycle := Closing, pending := [PendingClose 0]\<rparr>" for p
    by (subst advance_loop.simps) simp
  then have "scheduler_turn (map_order example_surroundings) sample_config (Close 0) ((coord close_sent)\<lparr>inbox := []\<rparr>)
      = Some (coord close_done, True)"
    by (simp add: close_sent_def stage_def scheduler_turn_def on_close_def advance_pending_if_ready_def close_ready_def
        queues_empty_def shut_down_def pool_shutdown_def example_pool_def close_reply_def end_lifecycle_def close_done_def)
  from internal.turn [OF _ _ this] have "internal example_surroundings sample_config close_sent
      (close_sent\<lparr>coord := coord close_done, thread := Exited False\<rparr>)"
    by (simp add: close_sent_def example_engine_def stage_def)
  then show ?thesis by (simp add: close_sent_def close_done_def example_engine_def)
qed

lemma close_reaches: "reaches example_surroundings sample_config close_sent close_done"
  using engine_step.internally [OF close_turn] by (rule r_into_rtranclp)

lemma close_wait: "\<exists>en. wait_pending close_pending close_done = Returns (Finished (Inr ())) en"
  by (simp add: wait_pending_def with_after_def with_disconnected_def close_done_def stage_def finish_join_def example_engine_def Let_def)

text \<open>The executable crates are documented, and the example begins with an empty store.\<close>

lemma example_documented: "documented example_surroundings sample_config"
  unfolding documented_def using example_store.store_model_axioms by (auto simp: example_surroundings_def)

lemma example_empty: "represents (env_crc (crates example_surroundings)) (hashing example_surroundings) sample_config Map.empty example_world"
  by (simp add: represents_def entry_of_def example_surroundings_def)

end
