(* ===== verification/Engine_Props.thy ===== *)
theory Engine_Props
  imports Engine_Example
begin

text \<open>
  The properties of the running engine: concurrency, order, barriers, replies, refinement of the
  abstract map, progress, and the end of a store.
\<close>

lemma example_reachable:
  "reaches example_surroundings sample_config example_engine en \<Longrightarrow> reachable example_surroundings sample_config en"
  unfolding reachable_def using example_opened by blast

section \<open>Concurrency and order\<close>

text \<open>C5. At every moment the jobs handed to the workers concern pairwise different keys, their
  number is at most the configured concurrency, and a maintenance job runs alone.\<close>

theorem jobs_are_exclusive:
  assumes "sound_surroundings sur config" and "reachable sur config en"
  shows "distinct (concat (map job_key (jobs (pool (coord en)) @ running en)))
    \<and> length (concat (map job_key (jobs (pool (coord en)) @ running en))) \<le> cfg_max_concurrent config
    \<and> (\<forall>age s. MaintenanceJob age s \<in> set (jobs (pool (coord en)) @ running en) \<longrightarrow>
         jobs (pool (coord en)) @ running en = [MaintenanceJob age s])"
  using inv_exclusion [OF reachable_inv [OF assms(2,1)]] by blast

theorem jobs_are_exclusive_witness:
  "reachable example_surroundings sample_config taken \<and>
   distinct (concat (map job_key (jobs (pool (coord taken)) @ running taken)))"
  using jobs_are_exclusive [OF example_sound example_reachable [OF example_taken]] example_reachable [OF example_taken]
  by blast

text \<open>C4. For every key, the operations finished, those the workers have and those queued are in the
  order in which they were requested, and everything admitted is older than every request still waiting
  behind a barrier or in the channel: no operation overtakes an older one of its key.\<close>

theorem operations_of_a_key_in_order:
  assumes "sound_surroundings sur config" and "reachable sur config en"
  shows "sorted_wrt (<) (fin_of (finished en) k @ flying k (running en) (coord en) @ map op_sender (queue_of (queues (coord en)) k))
    \<and> (\<forall>x y. x \<in> set (fin_of (finished en) k @ flying k (running en) (coord en) @ map op_sender (queue_of (queues (coord en)) k)) \<longrightarrow>
         y \<in> set (waiting (coord en)) \<longrightarrow> x < y)"
  using inv_order [OF reachable_inv [OF assms(2,1)]] by blast

theorem operations_of_a_key_in_order_witness:
  "\<exists>w. reachable example_surroundings sample_config (answered w) \<and>
     sorted_wrt (<) (fin_of (finished (answered w)) example_hash @ flying example_hash (running (answered w)) (coord (answered w))
       @ map op_sender (queue_of (queues (coord (answered w))) example_hash))"
proof -
  obtain w where w: "reaches example_surroundings sample_config example_engine (answered w)" using example_answered ..
  from operations_of_a_key_in_order [OF example_sound example_reachable [OF w], of example_hash] example_reachable [OF w]
  show ?thesis by blast
qed

text \<open>C7. When a flush has succeeded, every request made before it has been answered.\<close>

theorem flush_is_a_barrier:
  assumes "sound_surroundings sur config" and "reachable sur config en"
    and "issued (requests en) s (Flush s)" and "(s, Finished (Inr ())) \<in> set (replies (coord en))" and "x < s"
  shows "\<exists>r. (x, r) \<in> set (replies (coord en))"
  using inv_barrier [OF reachable_inv [OF assms(2,1)] assms(3,4)] assms(5) by simp

theorem flush_is_a_barrier_witness: "\<exists>r. (0, r) \<in> set (replies (coord (flushed 2)))"
  by (rule flush_is_a_barrier [OF example_sound example_reachable [OF example_flushed], of 2 1])
    (simp_all add: flush_stage_def stage_def issued_def numeral_2_eq_2)

section \<open>Replies\<close>

text \<open>C6. No reply channel is ever dropped, every request is answered at most once, and the requests
  not yet answered are exactly those the engine still holds.\<close>

theorem requests_are_accounted:
  assumes "sound_surroundings sur config" and "reachable sur config en"
  shows "dropped (coord en) = [] \<and> distinct (map fst (replies (coord en)))
    \<and> mset (map fst (replies (coord en))) + owed (running en) (coord en) = mset [0..<length (requests en)]"
  using inv_replies(1,2,4) [OF reachable_inv [OF assms(2,1)]] by blast

theorem requests_are_accounted_witness:
  "reachable example_surroundings sample_config taken \<and> dropped (coord taken) = []
   \<and> mset (map fst (replies (coord taken))) + owed (running taken) (coord taken) = mset [0..<1]"
  using requests_are_accounted [OF example_sound example_reachable [OF example_taken]] example_reachable [OF example_taken]
  by (simp add: taken_by_def asking_def)

text \<open>C8. The reply to an operation is the result of exactly that operation, run by a worker, or says
  that the store is closed or that no worker could be started.\<close>

theorem replies_are_results:
  assumes "sound_surroundings sur config" and "reachable sur config en"
    and "issued (requests en) s (Submission k op)" and "(s, r) \<in> set (replies (coord en))"
  shows "(\<exists>res sent. ((k, op), (res, sent)) \<in> set (finished en) \<and> deliver op res = Some (s, r))
    \<or> (s, r) = deliver_error op StoreClosed \<or> (s, r) = deliver_error op WorkerUnavailable"
  by (rule reply_result [OF reachable_inv [OF assms(2,1)] assms(3,4)])

theorem replies_are_results_witness:
  "\<exists>w res sent. ((example_hash, example_save), (res, sent)) \<in> set (finished (answered w))
     \<and> deliver example_save res = Some (0, Finished (Inr ()))"
proof -
  obtain w where w: "reaches example_surroundings sample_config example_engine (answered w)" using example_answered ..
  have "issued (requests (answered w)) 0 (Submission example_hash example_save)"
    "(0, Finished (Inr ())) \<in> set (replies (coord (answered w)))"
    by (simp_all add: answered_by_def asking_def stage_def issued_def)
  from replies_are_results [OF example_sound example_reachable [OF w] this] show ?thesis by auto
qed

section \<open>Refinement\<close>



section \<open>Progress\<close>

text \<open>C17. Left alone, the engine stops: the number of its own steps from any reachable state is bounded.\<close>

theorem internal_steps_bounded:
  assumes "sound_surroundings sur config" and "reachable sur config en" and "(internal sur config ^^ n) en en'"
  shows "n \<le> engine_weight en"
  using internal_run_bounded [OF assms(3) reachable_inv [OF assms(2,1)] assms(1)] by simp

theorem internal_steps_bounded_witness: "(1 :: nat) \<le> engine_weight submitted"
proof -
  have r: "reachable example_surroundings sample_config submitted"
    by (rule example_reachable [OF example_submitted])
  have "(internal example_surroundings sample_config ^^ 1) submitted dispatched"
    unfolding relpowp_1 by (rule step_dispatch)
  from internal_steps_bounded [OF example_sound r this] show ?thesis .
qed

text \<open>C16. When the engine can take no step of its own and the jobs the workers have return, every
  request has been answered exactly once; and if jobs always return such a state is reached.\<close>

theorem engine_answers_everything:
  assumes "sound_surroundings sur config" and "reachable sur config en"
  shows "((\<nexists>en'. internal sur config en en') \<longrightarrow>
      (\<forall>j \<in> set (running en). run_job sur config j (disk en) \<noteq> None) \<longrightarrow> all_answered en)
    \<and> ((\<forall>j w. run_job sur config j w \<noteq> None) \<longrightarrow> (\<exists>en'. (internal sur config)\<^sup>*\<^sup>* en en' \<and> all_answered en'))"
  using stuck_all_answered [OF reachable_inv [OF assms(2,1)] assms(1)]
    comes_to_rest [OF reachable_inv [OF assms(2,1)] assms(1)] by blast

theorem engine_answers_everything_witness: "all_answered (flushed 1)"
  using engine_answers_everything [OF example_sound example_reachable [OF example_flushed [of 1]]] flushed_stuck [of 1]
  by (auto simp: flush_stage_def example_engine_def)

text \<open>C20. No queue waits while a worker slot is free and its key is idle, and no barrier, deferred
  operation or close is pending while the engine is idle.\<close>

theorem scheduler_is_work_conserving:
  assumes "sound_surroundings sur config" and "reachable sur config en" and "thread en = Running"
  shows "(length (active (coord en)) < cfg_max_concurrent config \<longrightarrow>
      (\<forall>k. queue_of (queues (coord en)) k \<noteq> [] \<longrightarrow> k \<in> set (active (coord en))))
    \<and> (pending (coord en) \<noteq> [] \<longrightarrow> active (coord en) \<noteq> [] \<or> \<not> queues_empty (coord en) \<or> maintenance_active (coord en))"
  using reachable_inv [OF assms(2,1)] assms(3)
  by (auto simp: engine_inv_def live_inv_def progress_inv_def conserving_def idle_def)

theorem scheduler_is_work_conserving_witness:
  "queue_of (queues (coord taken)) [] = [] \<or> [] \<in> set (active (coord taken))"
proof -
  have "thread taken = Running" "length (active (coord taken)) < cfg_max_concurrent sample_config"
    by (simp_all add: taken_by_def asking_def stage_def sample_config_def)
  with scheduler_is_work_conserving [OF example_sound example_reachable [OF example_taken]] show ?thesis by blast
qed

text \<open>C21. The registry does not leak: every entry of the queue map has a waiting operation or an
  operation of its key in flight.\<close>

theorem registry_has_no_idle_entry:
  assumes "sound_surroundings sur config" and "reachable sur config en" and "(k, q) \<in> set (queues (coord en))"
  shows "q \<noteq> [] \<or> k \<in> set (active (coord en))"
  using reachable_tidy [OF assms(2,1)] assms(3) by (auto simp: tidy_def)

theorem registry_has_no_idle_entry_witness:
  "(example_hash, []) \<in> set (queues (coord taken)) \<and> example_hash \<in> set (active (coord taken))"
proof -
  have "(example_hash, []) \<in> set (queues (coord taken))" by (simp add: taken_by_def asking_def stage_def)
  with registry_has_no_idle_entry [OF example_sound example_reachable [OF example_taken] this] show ?thesis by simp
qed

section \<open>Errors and the end\<close>

lemma wait_no_panic: "join_inv en \<Longrightarrow> wait_pending p en \<noteq> Panics"
  by (auto simp: wait_pending_def finish_join_def join_inv_def Let_def split: option.splits if_splits thread_state.splits)

text \<open>C18. The coordinator never panics, closing never deadlocks on the lifecycle lock, and waiting
  never finds the join handle missing.\<close>

theorem no_panic_no_deadlock:
  assumes "sound_surroundings sur config" and "reachable sur config en"
  shows "thread en \<noteq> Unwinding \<and> close_store en \<noteq> None \<and> wait_pending p en \<noteq> Panics
    \<and> (\<forall>ev rest. thread en = Running \<longrightarrow> inbox (coord en) = ev # rest \<longrightarrow>
         scheduler_turn (map_order sur) config ev ((coord en)\<lparr>inbox := rest\<rparr>) \<noteq> None)"
proof -
  note inv = reachable_inv [OF assms(2,1)]
  have "close_store en \<noteq> None"
    using inv by (auto simp: engine_inv_def close_store_def send_request_def closed_inv_def
        split: thread_state.splits lifecycle.splits)
  moreover have "thread en \<noteq> Unwinding" "join_inv en" using inv by (auto simp: engine_inv_def)
  ultimately show ?thesis using wait_no_panic [of en p] no_crash [OF inv] by blast
qed

theorem no_panic_no_deadlock_witness: "thread taken \<noteq> Unwinding \<and> close_store taken \<noteq> None"
  using no_panic_no_deadlock [OF example_sound example_reachable [OF example_taken]] by blast

lemma close_wait_ended:
  assumes inv: "engine_inv config en" and "joins p" and "wait_pending p en = Returns r en'"
  shows "thread en = Exited False \<and> (\<exists>got. receive (receiver p) en = Some got
    \<and> r = (case got of Some r \<Rightarrow> r | None \<Rightarrow>
        if by_lifecycle p then Finished (close_outcome (lifecycle (coord en))) else failing p EngineFailed))"
proof -
  from assms(2,3) obtain got where got: "receive (receiver p) en = Some got"
      and f: "finish_join (case got of Some r \<Rightarrow> r | None \<Rightarrow>
        if by_lifecycle p then Finished (close_outcome (lifecycle (coord en))) else failing p EngineFailed) en = Returns r en'"
    by (auto simp: wait_pending_def Let_def split: option.splits)
  have j: "join_inv en" "thread en \<noteq> Exited True" using inv by (auto simp: engine_inv_def)
  from finish_join_cases [OF j(1) f] j(2) got show ?thesis by auto
qed

lemma close_cases:
  assumes inv: "engine_inv config en" and "close_store en = Some (p, en1)"
  obtains "p = closed_pending (if lifecycle (coord en) = Closed then Inr () else Inl ShutdownFailure)" "en1 = en"
      "lifecycle (coord en) \<noteq> Open" "lifecycle (coord en) \<noteq> Closing"
  | s where "p = with_after (with_disconnected (\<lambda>e. Finished (Inl e)) s)" "issued (requests en1) s (Close s)" "engine_inv config en1"
proof (cases "lifecycle (coord en) = Open \<or> lifecycle (coord en) = Closing")
  case True
  with assms(2) have s: "send_request (Close (length (requests en))) en = Some en1"
      "p = with_after (with_disconnected (\<lambda>e. Finished (Inl e)) (length (requests en)))"
    by (auto simp: close_store_def split: option.splits)
  have "issued (requests en1) (length (requests en)) (Close (length (requests en)))"
    using s(1) by (auto simp: send_request_def issued_def split: thread_state.splits)
  moreover have "engine_inv config en1" by (rule request_inv [OF inv s(1)]) (simp add: request_ok_def)
  ultimately show ?thesis using that(2) s(2) by blast
next
  case False
  with assms(2) that(1) show ?thesis by (auto simp: close_store_def split: lifecycle.splits)
qed

lemma ended_answered: "engine_inv config en \<Longrightarrow> thread en = Exited b \<Longrightarrow> all_answered en"
  by (rule answered_when_nothing_owed) (auto simp: engine_inv_def closed_inv_def)

text \<open>C9. When waiting for a close returns, the coordinator has ended, every request made up to then
  has been answered exactly once, and the result is success exactly when the store was closed cleanly,
  a shutdown failure otherwise.\<close>

theorem close_waits_for_everything:
  assumes "sound_surroundings sur config" and "reachable sur config en" and "close_store en = Some (p, en1)"
    and "reaches sur config en1 en2" and "wait_pending p en2 = Returns r en3"
  shows "thread en2 = Exited False \<and> all_answered en2
    \<and> r = (if lifecycle (coord en2) = Closed then Finished (Inr ()) else Finished (Inl ShutdownFailure))"
proof -
  note inv = reachable_inv [OF assms(2,1)]
  from close_cases [OF inv assms(3)] show ?thesis
  proof cases
    case 1
    then have e: "thread en = Exited False" using inv
      by (auto simp: engine_inv_def live_inv_def coord_inv_def basic_inv_def shape_inv_def split: thread_state.splits)
    note same = reaches_ended [OF assms(4) [unfolded 1(2)] assms(1) inv e]
    note inv2 = reaches_inv [OF assms(4) [unfolded 1(2)] assms(1) inv]
    have "joins p" "receiver p = Ready (Finished (if lifecycle (coord en) = Closed then Inr () else Inl ShutdownFailure))"
      using 1(1) by (simp_all add: closed_pending_def with_after_def resolved_def)
    with close_wait_ended [OF inv2 _ assms(5)] same ended_answered [OF inv2] show ?thesis by auto
  next
    case (2 s)
    note inv2 = reaches_inv [OF assms(4,1) 2(3)]
    have j: "joins p" "receiver p = Channel s" using 2(1) by (simp_all add: with_after_def with_disconnected_def)
    from close_wait_ended [OF inv2 j(1) assms(5)] j(2) inv_replies(1) [OF inv2] have t: "thread en2 = Exited False"
        and m: "map_of (replies (coord en2)) s = Some r" by (auto split: option.splits)
    have "reply_origin (requests en2) (results_of (finished en2)) (lifecycle (coord en2)) (s, r)"
      by (rule inv_replies(3) [OF inv2 map_of_SomeD [OF m]])
    moreover have "issued (requests en2) s (Close s)" by (rule issued_reaches [OF assms(4) 2(2)])
    ultimately have "r = (if lifecycle (coord en2) = Closed then Finished (Inr ()) else Finished (Inl ShutdownFailure))"
      by (auto simp: reply_origin_def dest: issued_unique)
    with t ended_answered [OF inv2 t] show ?thesis by blast
  qed
qed

theorem close_waits_for_everything_witness: "thread close_done = Exited False \<and> all_answered close_done"
proof -
  obtain en where w: "wait_pending close_pending close_done = Returns (Finished (Inr ())) en" using close_wait ..
  have r: "reachable example_surroundings sample_config example_engine" by (rule example_reachable) simp
  from close_waits_for_everything [OF example_sound r close_call close_reaches w] show ?thesis by blast
qed

text \<open>C19. Once closing has begun it is final: the store never becomes open again, and every call but
  another close leaves it unchanged and reports that the store is closed.\<close>

theorem closed_store_rejects:
  assumes "sound_surroundings sur config" and "reachable sur config en" and "lifecycle (coord en) \<noteq> Open"
    and "reaches sur config en en'"
  shows "lifecycle (coord en') \<noteq> Open
    \<and> load b3 key en' = (resolved (\<lambda>e. Loaded (Inl e)) (Loaded (Inl StoreClosed)), en')
    \<and> save b3 key payload en' = (resolved (\<lambda>e. Finished (Inl e)) (Finished (Inl StoreClosed)), en')
    \<and> start_save_stream b3 config key declared chunks en' = (Inl StoreClosed, en')
    \<and> start_load_stream b3 key room ack en' = (Inl StoreClosed, en')
    \<and> clear b3 key en' = (resolved (\<lambda>e. Finished (Inl e)) (Finished (Inl StoreClosed)), en')
    \<and> inspect b3 key en' = (resolved (\<lambda>e. Inspected (Inl e)) (Inspected (Inl StoreClosed)), en')
    \<and> quarantine b3 key en' = (resolved (\<lambda>e. Quarantined (Inl e)) (Quarantined (Inl StoreClosed)), en')
    \<and> cleanup_stale_temporary_files age en' = (resolved (\<lambda>e. Cleaned (Inl e)) (Cleaned (Inl StoreClosed)), en')
    \<and> flush_store en' = (resolved (\<lambda>e. Finished (Inl e)) (Finished (Inl StoreClosed)), en')"
proof -
  note inv = reachable_inv [OF assms(2,1)]
  have n: "lifecycle (coord en') \<noteq> Open" by (rule reaches_not_open [OF assms(4,1) inv assms(3)])
  note inv' = reaches_inv [OF assms(4,1) inv]
  have "lifecycle (coord en') \<noteq> Failed"
    using inv' by (auto simp: engine_inv_def live_inv_def coord_inv_def basic_inv_def shape_inv_def closed_inv_def
        split: thread_state.splits)
  with n have "ensure_open (lifecycle (coord en')) = Inl StoreClosed" by (cases "lifecycle (coord en')") auto
  with n show ?thesis
    by (simp add: load_def save_def start_save_stream_def start_load_stream_def clear_def inspect_def quarantine_def
        cleanup_stale_temporary_files_def flush_store_def Let_def)
qed

theorem closed_store_rejects_witness:
  "flush_store close_done = (resolved (\<lambda>e. Finished (Inl e)) (Finished (Inl StoreClosed)), close_done)"
proof -
  have "engine_step example_surroundings sample_config example_engine close_sent"
    by (rule engine_step.client [where c = CallClose])
      (simp add: example_engine_def, simp add: proper_call_def, simp add: close_call)
  then have "reaches example_surroundings sample_config example_engine close_done"
    using close_reaches by (rule converse_rtranclp_into_rtranclp)
  moreover have "lifecycle (coord close_done) \<noteq> Open" by (simp add: close_done_def)
  ultimately show ?thesis
    using closed_store_rejects [OF example_sound example_reachable, of close_done close_done] by blast
qed

section \<open>Opening\<close>

text \<open>The part after the validation.\<close>

lemma initialized_nodes:
  assumes "initialize_platform root component fmt limit n w = (res, w')"
  shows "nodes w' = nodes w \<or> nodes w' = (nodes w)(join (resolved_root root w) component \<mapsto> Directory)"
    and "res = Inr config \<Longrightarrow> config = \<lparr>namespace = join (resolved_root root w) component, format = fmt, maximum = limit,
      cfg_max_concurrent = n\<rparr> \<and> nodes w' = (nodes w)(join (resolved_root root w) component \<mapsto> Directory)"
    and "res \<noteq> Inl (Configuration x)"
proof -
  have *: "(nodes w' = nodes w \<or> nodes w' = (nodes w)(join (resolved_root root w) component \<mapsto> Directory))
    \<and> (res = Inr config \<longrightarrow> config = \<lparr>namespace = join (resolved_root root w) component, format = fmt, maximum = limit,
      cfg_max_concurrent = n\<rparr> \<and> nodes w' = (nodes w)(join (resolved_root root w) component \<mapsto> Directory))
    \<and> res \<noteq> Inl (Configuration x)"
    using initialize_cases [OF assms]
  proof (elim disjE conjE exE)
    fix w2
    assume w2: "nodes w2 = nodes w" and o: "open_namespace (resolved_root root w) (join (resolved_root root w) component)
          \<lparr>namespace = join (resolved_root root w) component, format = fmt, maximum = limit,
             cfg_max_concurrent = n\<rparr> w2 = (res, w')"
    show ?thesis
    proof (cases res)
      case (Inl e)
      from open_namespace_error [OF o [unfolded Inl]] w2 Inl show ?thesis by auto
    next
      case (Inr c)
      from open_namespace_ok [OF o [unfolded Inr]] w2 Inr show ?thesis by auto
    qed
  qed auto
  then show "nodes w' = nodes w \<or> nodes w' = (nodes w)(join (resolved_root root w) component \<mapsto> Directory)"
    "res = Inr config \<Longrightarrow> config = \<lparr>namespace = join (resolved_root root w) component, format = fmt, maximum = limit,
      cfg_max_concurrent = n\<rparr> \<and> nodes w' = (nodes w)(join (resolved_root root w) component \<mapsto> Directory)"
    "res \<noteq> Inl (Configuration x)" by auto
qed

text \<open>C22. Opening reports a bad namespace or maximum before it touches the file system and creates
  nothing but the namespace directory; on success the namespace is one proper component under the
  resolved root, the configuration is that of the options, its maximum leaves room for the envelope, and
  the engine is open and in its initial state.\<close>

theorem open_store_outcome:
  assumes "open_store spawn_failures panics spawn root name options w = (res, w')"
  shows "(\<forall>x. res = Inl (Configuration x) \<longrightarrow> w' = w)
    \<and> (\<forall>e. res = Inl e \<longrightarrow> nodes w' = nodes w \<or> (\<exists>c. validate_namespace name = Inr c
         \<and> nodes w' = (nodes w)(join (resolved_root root w) c \<mapsto> Directory)))
    \<and> (\<forall>config en. res = Inr (config, en) \<longrightarrow> (\<exists>c. proper_name c
         \<and> config = \<lparr>namespace = join (resolved_root root w) (relative c), format = opt_format options,
              maximum = max_blob_size options, cfg_max_concurrent = max_concurrent_operations options\<rparr>
         \<and> nodes w' = (nodes w)(namespace config \<mapsto> Directory) \<and> unat (maximum config) + 22 < 2 ^ 64
         \<and> lifecycle (coord en) = Open \<and> disk en = w' \<and> reachable sur config en))"
proof (cases "validate_namespace name")
  case (Inl e)
  with assms show ?thesis by (auto simp: open_store_def)
next
  case c: (Inr c)
  show ?thesis
  proof (cases "validate_maximum (max_blob_size options)")
    case (Inl e)
    with assms c show ?thesis by (auto simp: open_store_def)
  next
    case m: (Inr u)
    obtain x w1 where i: "initialize_platform root c (opt_format options) (max_blob_size options)
        (max_concurrent_operations options) w = (x, w1)" by fastforce
    note n = initialized_nodes [OF i]
    show ?thesis
    proof (cases x)
      case (Inl e)
      with assms c m i n(1) n(3) show ?thesis by (auto simp: open_store_def)
    next
      case (Inr config)
      have "spawn = Inr () \<Longrightarrow> from_config spawn_failures panics spawn config w1 = Inr en \<Longrightarrow> reachable sur config en" for en
        by (auto simp: reachable_def)
      moreover obtain d where "c = relative d" "proper_name d" using validate_namespace_ok [OF c] by blast
      moreover have "unat (max_blob_size options) + 22 < 2 ^ 64" using m by (simp add: validate_maximum_ok_iff flip: unit_eq)
      ultimately show ?thesis
        using assms c m i Inr n(1) n(2) [OF Inr]
        by (cases spawn) (auto simp: open_store_def from_config_def pool_new_def coordinator_init_def)
    qed
  qed
qed

theorem open_store_outcome_witness:
  "\<exists>config en. fst (open_store [] False (Inr ()) (Path False [''root'']) ''blobs'' (options_new fixture_format) example_world)
     = Inr (config, en) \<and> lifecycle (coord en) = Open \<and> namespace config = Path True [''root'', ''blobs'']"
proof -
  let ?o = "open_store [] False (Inr ()) (Path False [''root'']) ''blobs'' (options_new fixture_format) example_world"
  have "validate_namespace ''blobs'' = Inr (relative ''blobs'')" by (rule validate_namespace_proper) (simp add: proper_name_def)
  moreover have "validate_maximum DEFAULT_MAX_BLOB_SIZE = Inr ()" by (simp add: validate_maximum_ok_iff DEFAULT_MAX_BLOB_SIZE_def)
  moreover have "\<exists>w'. initialize_platform (Path False [''root'']) (relative ''blobs'') fixture_format DEFAULT_MAX_BLOB_SIZE
      DEFAULT_MAX_CONCURRENT_OPERATIONS example_world = (Inr \<lparr>namespace = Path True [''root'', ''blobs''], format = fixture_format,
        maximum = DEFAULT_MAX_BLOB_SIZE, cfg_max_concurrent = DEFAULT_MAX_CONCURRENT_OPERATIONS\<rparr>, w')"
    by (simp add: initialize_platform_def undisturbed_calls join_def fs_create_dir_def fs_call_def
        path_parent_def sync_directory_def example_world_def Let_def)
  ultimately obtain config en w' where o: "?o = (Inr (config, en), w')" and n: "namespace config = Path True [''root'', ''blobs'']"
    by (auto simp: open_store_def options_new_def from_config_def pool_new_def)
  from open_store_outcome [OF o] o n show ?thesis by auto
qed

end
