(* ===== verification/Facade.thy ===== *)
theory Facade
  imports Engine
begin

text \<open>
  The two facades, \<^verbatim>\<open>src/blocking.rs\<close> and \<^verbatim>\<open>src/tokio.rs\<close>. Their loops are functions: \<open>feed\<close> and
  \<open>feed_async\<close> read the caller's input for a streaming save, \<open>drain\<close> writes the caller's output of a
  streaming load. A method that waits is a relation between the engine before the call and the engine
  when it returns: in between, the engine and the other clients take any number of steps.
\<close>

section \<open>Feeding a streaming save\<close>

text \<open>
  What the method returns after the loop: the outcome of the pending result, or, after dropping the
  channel and waiting, an error of its own.
\<close>

datatype feeding = Outcome | Abandon store_error

lemma read_some_length: "read_some n r = (Inr bs, r') \<Longrightarrow> length bs \<le> n"
  by (cases "(n, r)" rule: read_some.cases) (auto split: if_splits)

text \<open>\<open>requested\<close> is the length of the buffer of the next read; see \<open>validate_payload\<close> for \<^verbatim>\<open>usize\<close>.\<close>

definition requested :: "u64 \<Rightarrow> u64 \<Rightarrow> nat" where
  "requested declared_len so_far = min (unat (declared_len - so_far)) STREAM_CHUNK_SIZE"

lemma requested_advance:
  fixes so_far declared :: u64
  assumes "so_far < declared" and "length bs \<le> requested declared so_far"
  shows "unat (so_far + of_nat (length bs)) = unat so_far + length bs"
    and "unat so_far + length bs \<le> unat declared" and "length bs \<le> STREAM_CHUNK_SIZE"
proof -
  have "unat (declared - so_far) = unat declared - unat so_far"
    using assms(1) by (intro unat_sub) (simp add: word_le_nat_alt word_less_nat_alt)
  moreover have "unat so_far < unat declared" using assms(1) by (simp add: word_less_nat_alt)
  ultimately show le: "unat so_far + length bs \<le> unat declared" "length bs \<le> STREAM_CHUNK_SIZE"
    using assms(2) by (auto simp: requested_def)
  have l: "length bs < 2 ^ 64" using assms(2) by (simp add: requested_def STREAM_CHUNK_SIZE_def)
  show "unat (so_far + of_nat (length bs)) = unat so_far + length bs"
    by (rule chunk_step(2) [OF l le(1)])
qed

lemma feed_decreases:
  assumes "so_far < declared" and "read_some (requested declared so_far) r = (Inr chunk, r')" and "chunk \<noteq> []"
  shows "unat declared - unat (so_far + of_nat (length chunk)) < unat declared - unat so_far"
  using requested_advance [OF assms(1) read_some_length [OF assms(2)]] assms(3) by (cases chunk) auto

text \<open>
  \<open>room\<close> is the number of messages the channel still accepts before its receiver is dropped (\<open>None\<close>:
  it never is). The messages are those sent; their end stands for \<^verbatim>\<open>drop(chunks)\<close>.
\<close>

function feed :: "u64 \<Rightarrow> u64 \<Rightarrow> nat option \<Rightarrow> reader \<Rightarrow> save_stream_message list \<times> feeding" where
  "feed declared_len so_far room r =
    (if so_far < declared_len then
       (case read_some (requested declared_len so_far) r of
          (Inl source, r') \<Rightarrow> ([], Abandon (InputIo source))
        | (Inr chunk, r') \<Rightarrow>
            if chunk = [] then ([], Abandon (InputEndedEarly declared_len so_far))
            else if room = Some 0 then ([], Outcome)
            else case feed declared_len (so_far + of_nat (length chunk)) (map_option (\<lambda>n. n - 1) room) r' of
              (ms, out) \<Rightarrow> (Chunk chunk # ms, out))
     else
       (case fst (read_some 1 r) of
          Inl source \<Rightarrow> ([], Abandon (InputIo source))
        | Inr trailing \<Rightarrow>
            if trailing \<noteq> [] then ([], Abandon (InputHasTrailingData declared_len))
            else if room = Some 0 then ([], Outcome)
            else ([Complete], Outcome)))"
  by pat_completeness auto
termination
  by (relation "measure (\<lambda>(declared_len, so_far, room, r). unat declared_len - unat so_far)")
    (auto intro: feed_decreases [OF _ sym])

declare feed.simps [simp del]

text \<open>
  The Tokio facade selects, before each read, between the pending result and the reader, the result
  first: \<open>ready\<close> is the number of reads that are won by the reader (\<open>None\<close>: all of them).
\<close>

function feed_async ::
    "u64 \<Rightarrow> u64 \<Rightarrow> nat option \<Rightarrow> nat option \<Rightarrow> reader \<Rightarrow> save_stream_message list \<times> feeding" where
  "feed_async declared_len so_far room ready r =
    (if so_far < declared_len then
       (if ready = Some 0 then ([], Outcome)
        else case read_some (requested declared_len so_far) r of
          (Inl source, r') \<Rightarrow> ([], Abandon (InputIo source))
        | (Inr chunk, r') \<Rightarrow>
            if chunk = [] then ([], Abandon (InputEndedEarly declared_len so_far))
            else if room = Some 0 then ([], Outcome)
            else case feed_async declared_len (so_far + of_nat (length chunk)) (map_option (\<lambda>n. n - 1) room)
                        (map_option (\<lambda>n. n - 1) ready) r' of
              (ms, out) \<Rightarrow> (Chunk chunk # ms, out))
     else
       (if ready = Some 0 then ([], Outcome)
        else case fst (read_some 1 r) of
          Inl source \<Rightarrow> ([], Abandon (InputIo source))
        | Inr trailing \<Rightarrow>
            if trailing \<noteq> [] then ([], Abandon (InputHasTrailingData declared_len))
            else if room = Some 0 then ([], Outcome)
            else ([Complete], Outcome)))"
  by pat_completeness auto
termination
  by (relation "measure (\<lambda>(declared_len, so_far, room, ready, r). unat declared_len - unat so_far)")
    (auto intro: feed_decreases [OF _ sym])

declare feed_async.simps [simp del]

section \<open>Draining a streaming load\<close>

fun drain :: "(bytes \<Rightarrow> 'w \<Rightarrow> (io_error + unit) \<times> 'w) \<Rightarrow> bytes list \<Rightarrow> 'w \<Rightarrow> (store_error + unit) \<times> 'w" where
  "drain write_all [] wr = (Inr (), wr)"
| "drain write_all (chunk # chunks) wr =
    (case write_all chunk wr of
       (Inl source, wr') \<Rightarrow> (Inl (OutputIo source), wr')
     | (Inr _, wr') \<Rightarrow> drain write_all chunks wr')"

text \<open>What the channel of the request number \<open>s\<close> delivered: nothing unless a worker ran it.\<close>

definition delivered :: "sender \<Rightarrow> 'x engine \<Rightarrow> bytes list" where
  "delivered s en =
    (case filter (\<lambda>x. op_sender (snd (fst x)) = s) (finished en) of
       [] \<Rightarrow> []
     | x # _ \<Rightarrow> snd (snd x))"

section \<open>The blocking facade\<close>

text \<open>\<^verbatim>\<open>Pending::wait\<close>: the caller is blocked until the wait returns.\<close>

definition completes ::
    "'x surroundings \<Rightarrow> store_config \<Rightarrow> pending_result \<times> 'x engine \<Rightarrow> reply \<Rightarrow> 'x engine \<Rightarrow> bool" where
  "completes sur config call r en' \<longleftrightarrow>
     (\<exists>en. reaches sur config (snd call) en \<and> wait_pending (fst call) en = Returns r en')"

definition blocking_open ::
    "bool list \<Rightarrow> bool \<Rightarrow> io_error + unit \<Rightarrow> path \<Rightarrow> string \<Rightarrow> store_options \<Rightarrow> 'x world
     \<Rightarrow> (store_error + store_config \<times> 'x engine) \<times> 'x world" where
  "blocking_open spawn_failures panics spawn root name options w =
     open_store spawn_failures panics spawn root name options w"

definition blocking_load ::
    "'x surroundings \<Rightarrow> store_config \<Rightarrow> bytes \<Rightarrow> 'x engine \<Rightarrow> store_error + bytes option \<Rightarrow> 'x engine \<Rightarrow> bool" where
  "blocking_load sur config key en res en' \<longleftrightarrow>
     completes sur config (load (hashing sur) key en) (Loaded res) en'"

definition blocking_save ::
    "'x surroundings \<Rightarrow> store_config \<Rightarrow> bytes \<Rightarrow> bytes \<Rightarrow> 'x engine \<Rightarrow> store_error + unit \<Rightarrow> 'x engine \<Rightarrow> bool" where
  "blocking_save sur config key payload en res en' \<longleftrightarrow>
     completes sur config (save (hashing sur) key payload en) (Finished res) en'"

definition blocking_save_from ::
    "'x surroundings \<Rightarrow> store_config \<Rightarrow> bytes \<Rightarrow> reader \<Rightarrow> nat option \<Rightarrow> u64 \<Rightarrow> 'x engine
     \<Rightarrow> store_error + unit \<Rightarrow> 'x engine \<Rightarrow> bool" where
  "blocking_save_from sur config key r room declared_len en res en' \<longleftrightarrow>
    (case feed declared_len 0 room r of (chunks, out) \<Rightarrow>
     case start_save_stream (hashing sur) config key declared_len chunks en of
       (Inl e, en1) \<Rightarrow> res = Inl e \<and> en' = en1
     | (Inr p, en1) \<Rightarrow>
         \<exists>x. completes sur config (p, en1) (Finished x) en'
           \<and> res = (case out of Outcome \<Rightarrow> x | Abandon e \<Rightarrow> Inl e))"

text \<open>
  The consumer takes every chunk and acknowledges unless its writer fails; then it drops the channel,
  at any moment as far as the worker is concerned.
\<close>

definition blocking_load_into ::
    "'x surroundings \<Rightarrow> store_config \<Rightarrow> (bytes \<Rightarrow> 'w \<Rightarrow> (io_error + unit) \<times> 'w) \<Rightarrow> bytes \<Rightarrow> 'w \<Rightarrow> 'x engine
     \<Rightarrow> store_error + blob_metadata option \<Rightarrow> 'w \<Rightarrow> 'x engine \<Rightarrow> bool" where
  "blocking_load_into sur config write_all key wr en res wr' en' \<longleftrightarrow>
    (\<exists>room acknowledged.
     case start_load_stream (hashing sur) key room acknowledged en of
       (Inl e, en1) \<Rightarrow> res = Inl e \<and> wr' = wr \<and> en' = en1
     | (Inr p, en1) \<Rightarrow>
         \<exists>x. completes sur config (p, en1) (Streamed x) en'
           \<and> (case drain write_all (delivered (next_sender en) en') wr of
                (Inl e, wr1) \<Rightarrow> \<not> acknowledged \<and> res = Inl e \<and> wr' = wr1
              | (Inr _, wr1) \<Rightarrow> acknowledged \<and> room = None \<and> res = x \<and> wr' = wr1))"

definition blocking_clear ::
    "'x surroundings \<Rightarrow> store_config \<Rightarrow> bytes \<Rightarrow> 'x engine \<Rightarrow> store_error + unit \<Rightarrow> 'x engine \<Rightarrow> bool" where
  "blocking_clear sur config key en res en' \<longleftrightarrow>
     completes sur config (clear (hashing sur) key en) (Finished res) en'"

definition blocking_inspect ::
    "'x surroundings \<Rightarrow> store_config \<Rightarrow> bytes \<Rightarrow> 'x engine \<Rightarrow> store_error + blob_inspection \<Rightarrow> 'x engine \<Rightarrow> bool" where
  "blocking_inspect sur config key en res en' \<longleftrightarrow>
     completes sur config (inspect (hashing sur) key en) (Inspected res) en'"

definition blocking_quarantine ::
    "'x surroundings \<Rightarrow> store_config \<Rightarrow> bytes \<Rightarrow> 'x engine \<Rightarrow> store_error + quarantine_info \<Rightarrow> 'x engine \<Rightarrow> bool" where
  "blocking_quarantine sur config key en res en' \<longleftrightarrow>
     completes sur config (quarantine (hashing sur) key en) (Quarantined res) en'"

definition blocking_cleanup ::
    "'x surroundings \<Rightarrow> store_config \<Rightarrow> duration \<Rightarrow> 'x engine \<Rightarrow> store_error + cleanup_report \<Rightarrow> 'x engine \<Rightarrow> bool" where
  "blocking_cleanup sur config minimum_age en res en' \<longleftrightarrow>
     completes sur config (cleanup_stale_temporary_files minimum_age en) (Cleaned res) en'"

definition blocking_flush :: "'x surroundings \<Rightarrow> store_config \<Rightarrow> 'x engine \<Rightarrow> store_error + unit \<Rightarrow> 'x engine \<Rightarrow> bool" where
  "blocking_flush sur config en res en' \<longleftrightarrow> completes sur config (flush_store en) (Finished res) en'"

definition blocking_close :: "'x surroundings \<Rightarrow> store_config \<Rightarrow> 'x engine \<Rightarrow> store_error + unit \<Rightarrow> 'x engine \<Rightarrow> bool" where
  "blocking_close sur config en res en' \<longleftrightarrow>
     (\<exists>call. close_store en = Some call \<and> completes sur config call (Finished res) en')"

section \<open>The Tokio facade\<close>

text \<open>
  \<^verbatim>\<open>Operation<T>\<close>: the future of \<^verbatim>\<open>Pending::wait_async\<close>. Polling it again after it returned panics, and
  a completion that joins the coordinator stalls the polling thread until the coordinator has ended.
\<close>

datatype future_state = Suspended pending_result | Returned

datatype 'x poll = PollPending | PollReady reply "'x engine" | PollPanics | PollStalls

definition operation_new :: "pending_result \<Rightarrow> future_state" where
  "operation_new p = Suspended p"

fun operation_poll :: "future_state \<Rightarrow> 'x engine \<Rightarrow> 'x poll \<times> future_state" where
  "operation_poll (Suspended p) en =
    (case receive (receiver p) en of
       None \<Rightarrow> (PollPending, Suspended p)
     | Some _ \<Rightarrow>
         (case wait_pending p en of
            Returns r en' \<Rightarrow> (PollReady r en', Returned)
          | Panics \<Rightarrow> (PollPanics, Returned)
          | Blocks \<Rightarrow> (PollStalls, Suspended p)))"
| "operation_poll Returned en = (PollPanics, Returned)"

text \<open>An operation is submitted when it is made, before it is first polled.\<close>

definition async_load :: "blake3 \<Rightarrow> bytes \<Rightarrow> 'x engine \<Rightarrow> future_state \<times> 'x engine" where
  "async_load b3 key en = map_prod operation_new id (load b3 key en)"

definition async_save :: "blake3 \<Rightarrow> bytes \<Rightarrow> bytes \<Rightarrow> 'x engine \<Rightarrow> future_state \<times> 'x engine" where
  "async_save b3 key payload en = map_prod operation_new id (save b3 key payload en)"

definition async_clear :: "blake3 \<Rightarrow> bytes \<Rightarrow> 'x engine \<Rightarrow> future_state \<times> 'x engine" where
  "async_clear b3 key en = map_prod operation_new id (clear b3 key en)"

definition async_inspect :: "blake3 \<Rightarrow> bytes \<Rightarrow> 'x engine \<Rightarrow> future_state \<times> 'x engine" where
  "async_inspect b3 key en = map_prod operation_new id (inspect b3 key en)"

definition async_quarantine :: "blake3 \<Rightarrow> bytes \<Rightarrow> 'x engine \<Rightarrow> future_state \<times> 'x engine" where
  "async_quarantine b3 key en = map_prod operation_new id (quarantine b3 key en)"

definition async_cleanup :: "duration \<Rightarrow> 'x engine \<Rightarrow> future_state \<times> 'x engine" where
  "async_cleanup minimum_age en = map_prod operation_new id (cleanup_stale_temporary_files minimum_age en)"

definition async_flush :: "'x engine \<Rightarrow> future_state \<times> 'x engine" where
  "async_flush en = map_prod operation_new id (flush_store en)"

definition async_close :: "'x engine \<Rightarrow> (future_state \<times> 'x engine) option" where
  "async_close en = map_option (map_prod operation_new id) (close_store en)"

text \<open>Awaiting an operation: it is polled until it is ready.\<close>

definition awaited :: "'x surroundings \<Rightarrow> store_config \<Rightarrow> future_state \<times> 'x engine \<Rightarrow> reply \<Rightarrow> 'x engine \<Rightarrow> bool" where
  "awaited sur config call r en' \<longleftrightarrow>
     (\<exists>en. reaches sur config (snd call) en \<and> fst (operation_poll (fst call) en) = PollReady r en')"

text \<open>
  Opening runs on a thread of its own: \<open>start\<close> is the result of starting it and \<open>survives\<close> says whether
  it sends its result.
\<close>

definition async_open ::
    "io_error + unit \<Rightarrow> bool \<Rightarrow> bool list \<Rightarrow> bool \<Rightarrow> io_error + unit \<Rightarrow> path \<Rightarrow> string \<Rightarrow> store_options \<Rightarrow> 'x world
     \<Rightarrow> (store_error + store_config \<times> 'x engine) \<times> 'x world" where
  "async_open start survives spawn_failures panics spawn root name options w =
    (case start of
       Inl source \<Rightarrow> (Inl (Io StartInitialization source), w)
     | Inr _ \<Rightarrow>
         (case open_store spawn_failures panics spawn root name options w of
            (res, w') \<Rightarrow> (if survives then res else Inl EngineFailed, w')))"

definition async_save_from ::
    "'x surroundings \<Rightarrow> store_config \<Rightarrow> bytes \<Rightarrow> reader \<Rightarrow> nat option \<Rightarrow> nat option \<Rightarrow> u64 \<Rightarrow> 'x engine
     \<Rightarrow> store_error + unit \<Rightarrow> 'x engine \<Rightarrow> bool" where
  "async_save_from sur config key r room ready declared_len en res en' \<longleftrightarrow>
    (case feed_async declared_len 0 room ready r of (chunks, out) \<Rightarrow>
     case start_save_stream (hashing sur) config key declared_len chunks en of
       (Inl e, en1) \<Rightarrow> res = Inl e \<and> en' = en1
     | (Inr p, en1) \<Rightarrow>
         \<exists>x. awaited sur config (operation_new p, en1) (Finished x) en'
           \<and> res = (case out of Outcome \<Rightarrow> x | Abandon e \<Rightarrow> Inl e))"

definition async_load_into ::
    "'x surroundings \<Rightarrow> store_config \<Rightarrow> (bytes \<Rightarrow> 'w \<Rightarrow> (io_error + unit) \<times> 'w) \<Rightarrow> bytes \<Rightarrow> 'w \<Rightarrow> 'x engine
     \<Rightarrow> store_error + blob_metadata option \<Rightarrow> 'w \<Rightarrow> 'x engine \<Rightarrow> bool" where
  "async_load_into sur config write_all key wr en res wr' en' \<longleftrightarrow>
    (\<exists>room acknowledged.
     case start_load_stream (hashing sur) key room acknowledged en of
       (Inl e, en1) \<Rightarrow> res = Inl e \<and> wr' = wr \<and> en' = en1
     | (Inr p, en1) \<Rightarrow>
         \<exists>x. awaited sur config (operation_new p, en1) (Streamed x) en'
           \<and> (case drain write_all (delivered (next_sender en) en') wr of
                (Inl e, wr1) \<Rightarrow> \<not> acknowledged \<and> res = Inl e \<and> wr' = wr1
              | (Inr _, wr1) \<Rightarrow> acknowledged \<and> room = None \<and> res = x \<and> wr' = wr1))"

end
