(* ===== verification/Facade_Facts.thy ===== *)
theory Facade_Facts
  imports Facade Engine_History
begin

text \<open>
  Facts about the facades: what the feeding loops send for a given input, what the draining loop
  writes, and the linearisation of a waiting call: its operation takes effect on the abstract map at
  one point of the history between the call and its return.
\<close>

section \<open>Feeding\<close>

text \<open>The input of a reader: what it delivers before its first \<^verbatim>\<open>Ok(0)\<close>, if no call fails before.\<close>

fun whole_input :: "reader \<Rightarrow> bytes option" where
  "whole_input [] = Some []"
| "whole_input (Inl e # r) = None"
| "whole_input (Inr bs # r) = (if bs = [] then Some [] else map_option ((@) bs) (whole_input r))"

lemma read_some_input:
  assumes "0 < n"
  shows "read_some n r = (Inr [], r') \<Longrightarrow> whole_input r = Some []"
    and "read_some n r = (Inr bs, r') \<Longrightarrow> bs \<noteq> [] \<Longrightarrow> whole_input r = map_option ((@) bs) (whole_input r')"
    and "read_some n r = (Inl e, r') \<Longrightarrow> whole_input r = None"
  using assms
  by (cases "(n, r)" rule: read_some.cases; auto split: if_splits simp: option.map_comp comp_def simp flip: append_assoc)+

lemma requested_pos: "so_far < declared \<Longrightarrow> 0 < requested declared so_far"
proof -
  assume lt: "so_far < declared"
  then have "unat (declared - so_far) = unat declared - unat so_far"
    by (intro unat_sub) (simp add: word_le_nat_alt word_less_nat_alt)
  with lt show ?thesis by (simp add: requested_def STREAM_CHUNK_SIZE_def word_less_nat_alt)
qed

lemma feed_async_feed: "feed_async declared so_far room None r = feed declared so_far room r"
proof (induction declared so_far room r rule: feed.induct)
  case (1 declared so_far room r)
  show ?case
    by (subst feed_async.simps, subst feed.simps) (auto dest: 1 [OF _ sym] split: sum.splits prod.splits)
qed

lemma feed_async_completed:
  assumes "completed (fst (feed_async declared so_far room ready r)) = Some p" and "unat so_far \<le> unat declared"
  shows "whole_input r = Some p \<and> unat so_far + length p = unat declared
    \<and> snd (feed_async declared so_far room ready r) = Outcome"
  using assms
proof (induction declared so_far room ready r arbitrary: p rule: feed_async.induct)
  case (1 declared so_far room ready r)
  show ?case
  proof (cases "so_far < declared")
    case lt: True
    obtain x r' where x: "read_some (requested declared so_far) r = (x, r')" by fastforce
    let ?rest = "\<lambda>chunk. feed_async declared (so_far + of_nat (length chunk)) (map_option (\<lambda>n. n - 1) room)
      (map_option (\<lambda>n. n - 1) ready) r'"
    from 1(2) lt x obtain chunk where chunk: "x = Inr chunk" "chunk \<noteq> []" "ready \<noteq> Some 0" "room \<noteq> Some 0"
      by (subst (asm) feed_async.simps) (auto split: if_splits sum.splits)
    then have eq: "feed_async declared so_far room ready r = (Chunk chunk # fst (?rest chunk), snd (?rest chunk))"
      using lt x by (subst feed_async.simps) (simp split: prod.splits)
    from 1(2) eq obtain q where q: "completed (fst (?rest chunk)) = Some q" "p = chunk @ q" by auto
    note adv = requested_advance [OF lt read_some_length [OF x [unfolded chunk(1)]]]
    have "unat (so_far + of_nat (length chunk)) \<le> unat declared" using adv by simp
    from 1(1) [OF lt chunk(3) x [symmetric] chunk(1,2,4) q(1) this]
    show ?thesis
      using adv(1) eq q(2) read_some_input(2) [OF requested_pos [OF lt] x [unfolded chunk(1)] chunk(2)] by simp
  next
    case False
    then have "unat so_far = unat declared" using 1(3) by (simp add: word_less_nat_alt)
    with False 1(2) show ?thesis
      using read_some_input(1) [OF zero_less_one, of r]
      by (subst (asm) feed_async.simps, subst feed_async.simps)
        (auto split: if_splits sum.splits simp: fst_def split: prod.splits)
  qed
qed

lemma feed_async_chunks:
  "Chunk bs \<in> set (fst (feed_async declared so_far room ready r)) \<Longrightarrow> 0 < length bs \<and> length bs \<le> STREAM_CHUNK_SIZE"
proof (induction declared so_far room ready r rule: feed_async.induct)
  case (1 declared so_far room ready r)
  show ?case
  proof (cases "so_far < declared")
    case lt: True
    with 1(2) obtain chunk r' where x: "read_some (requested declared so_far) r = (Inr chunk, r')" and c: "chunk \<noteq> []"
        "ready \<noteq> Some 0" "room \<noteq> Some 0" and bs: "bs = chunk \<or> Chunk bs \<in> set (fst (feed_async declared
          (so_far + of_nat (length chunk)) (map_option (\<lambda>n. n - 1) room) (map_option (\<lambda>n. n - 1) ready) r'))"
      by (subst (asm) feed_async.simps) (auto split: if_splits sum.splits prod.splits)
    from bs show ?thesis
    proof
      assume "bs = chunk"
      with c(1) requested_advance(3) [OF lt read_some_length [OF x]] show ?thesis by simp
    next
      assume "Chunk bs \<in> set (fst (feed_async declared
          (so_far + of_nat (length chunk)) (map_option (\<lambda>n. n - 1) room) (map_option (\<lambda>n. n - 1) ready) r'))"
      with 1(1) [OF lt c(2) x [symmetric] refl c(1,3)] show ?thesis by simp
    qed
  next
    case False
    with 1(2) show ?thesis by (subst (asm) feed_async.simps) (auto split: if_splits sum.splits)
  qed
qed

lemma feed_async_vec: "vec_chunks (fst (feed_async declared so_far room ready r))"
  using feed_async_chunks unfolding vec_chunks_def by (fastforce simp: STREAM_CHUNK_SIZE_def)

text \<open>The outcome when the channel stays open, by the length of the input.\<close>

definition input_verdict :: "u64 \<Rightarrow> nat \<Rightarrow> feeding" where
  "input_verdict declared n =
    (if n < unat declared then Abandon (InputEndedEarly declared (of_nat n))
     else if n = unat declared then Outcome
     else Abandon (InputHasTrailingData declared))"

lemma feed_verdict:
  assumes "whole_input r = Some p" and "unat so_far \<le> unat declared"
  shows "snd (feed declared so_far None r) = input_verdict declared (unat so_far + length p)
    \<and> (unat so_far + length p = unat declared \<longrightarrow> completed (fst (feed declared so_far None r)) = Some p)"
  using assms
proof (induction declared so_far "None :: nat option" r arbitrary: p rule: feed.induct)
  case (1 declared so_far r)
  show ?case
  proof (cases "so_far < declared")
    case lt: True
    obtain x r' where x: "read_some (requested declared so_far) r = (x, r')" by fastforce
    note pos = requested_pos [OF lt]
    from read_some_input(3) [OF pos] x 1(2) obtain chunk where chunk: "x = Inr chunk" by (cases x) auto
    show ?thesis
    proof (cases "chunk = []")
      case True
      with read_some_input(1) [OF pos x [unfolded chunk True]] 1(2) lt x chunk show ?thesis
        by (subst feed.simps) (simp add: input_verdict_def word_less_nat_alt feed.simps)
    next
      case ne: False
      let ?rest = "feed declared (so_far + of_nat (length chunk)) None r'"
      have eq: "feed declared so_far None r = (Chunk chunk # fst ?rest, snd ?rest)"
        using lt x chunk ne by (subst feed.simps) (simp split: prod.splits)
      from read_some_input(2) [OF pos x [unfolded chunk] ne] 1(2) obtain q where
        q: "whole_input r' = Some q" "p = chunk @ q" by (cases "whole_input r'") auto
      note adv = requested_advance [OF lt read_some_length [OF x [unfolded chunk]]]
      have "unat (so_far + of_nat (length chunk)) \<le> unat declared" using adv by simp
      from 1(1) [OF lt x [symmetric] chunk ne _ _ q(1) this] adv(1) eq q(2) show ?thesis
        by (simp add: add.assoc)
    qed
  next
    case False
    then have d: "unat so_far = unat declared" using 1(3) by (simp add: word_less_nat_alt)
    obtain x r' where x: "read_some 1 r = (x, r')" by fastforce
    from read_some_input(3) [OF zero_less_one] x 1(2) obtain bs where bs: "x = Inr bs" by (cases x) auto
    show ?thesis
    proof (cases "bs = []")
      case True
      with read_some_input(1) [OF zero_less_one x [unfolded bs True]] 1(2) False x bs d show ?thesis
        by (subst feed.simps, subst feed.simps) (simp add: input_verdict_def)
    next
      case ne: False
      with read_some_input(2) [OF zero_less_one x [unfolded bs] ne] 1(2) False x bs d show ?thesis
        by (subst feed.simps, subst feed.simps) (cases "whole_input r'"; auto simp: input_verdict_def)
    qed
  qed
qed

section \<open>Draining\<close>

context writer
begin

lemma drain_ok: "drain write_all chunks wr = (Inr u, wr') \<Longrightarrow> live wr \<Longrightarrow> out wr' = out wr @ concat chunks \<and> live wr'"
proof (induction chunks arbitrary: wr)
  case (Cons c cs)
  then obtain w1 where "write_all c wr = (Inr (), w1)" "drain write_all cs w1 = (Inr u, wr')"
    by (auto split: prod.splits sum.splits)
  with write_ok [OF Cons.prems(2)] Cons.IH show ?case by fastforce
qed simp

end

lemma drain_error: "drain write_all chunks wr = (Inl e, wr') \<Longrightarrow> \<exists>x. e = OutputIo x"
  by (induction chunks arbitrary: wr) (auto split: prod.splits sum.splits)

section \<open>Waiting\<close>

text \<open>Awaiting the future of an operation and blocking on its result give the same.\<close>

lemma awaited_completes: "awaited sur config (operation_new p, en) = completes sur config (p, en)"
proof (intro ext iffI)
  fix r en'
  show "awaited sur config (operation_new p, en) r en' \<Longrightarrow> completes sur config (p, en) r en'"
    by (auto simp: awaited_def completes_def operation_new_def split: option.splits waited.splits)
  assume "completes sur config (p, en) r en'"
  then obtain en2 where r: "reaches sur config en en2" and w: "wait_pending p en2 = Returns r en'"
    by (auto simp: completes_def)
  from w have "receive (receiver p) en2 \<noteq> None" by (auto simp: wait_pending_def split: option.splits)
  with r w show "awaited sur config (operation_new p, en) r en'"
    by (auto simp: awaited_def operation_new_def intro!: exI [of _ en2])
qed

lemma awaited_call: "awaited sur config (map_prod operation_new id call) = completes sur config call"
  by (cases call) (simp add: awaited_completes)

lemmas blocking_facade_defs = blocking_load_def blocking_save_def blocking_clear_def blocking_inspect_def blocking_quarantine_def
  blocking_cleanup_def blocking_flush_def

lemmas async_facade_defs = async_load_def async_save_def async_clear_def async_inspect_def async_quarantine_def async_cleanup_def
  async_flush_def

lemma async_save_from_never_ready:
  "async_save_from sur config key r room None declared en res en' = blocking_save_from sur config key r room declared en res en'"
  unfolding async_save_from_def blocking_save_from_def feed_async_feed awaited_completes ..

lemma async_load_into_blocking: "async_load_into = blocking_load_into"
  by (intro ext) (unfold async_load_into_def blocking_load_into_def awaited_completes, rule refl)

section \<open>Linearisation\<close>

lemma spec_sequence_split:
  assumes "spec_sequence plat config reqs m rs m''" and "i < length reqs"
  shows "\<exists>m1 m2. spec_sequence plat config (take i reqs) m (take i rs) m1
    \<and> spec_allows plat config (fst (reqs ! i)) (snd (reqs ! i)) m1 (fst (rs ! i)) (snd (rs ! i)) m2
    \<and> spec_sequence plat config (drop (Suc i) reqs) m2 (drop (Suc i) rs) m''"
  using assms
proof (induction plat config reqs m rs m'' arbitrary: i rule: spec_sequence.induct)
  case (2 plat config k op ops m res sent rs m'')
  then obtain m' where m': "spec_allows plat config k op m res sent m'" "spec_sequence plat config ops m' rs m''" by auto
  show ?case
  proof (cases i)
    case 0
    with m' show ?thesis by auto
  next
    case (Suc j)
    with 2(1) [OF m'(2), of j] 2(3) m'(1) show ?thesis by fastforce
  qed
qed auto

text \<open>
  Between the engines \<open>en\<close> and \<open>en'\<close> the operation \<open>op\<close> on the key \<open>k\<close> takes effect: there is a history of
  the abstract map, with the files at its end, in which it is one of the steps made in between and leads
  from \<open>m\<close> to \<open>m'\<close>.
\<close>

definition takes_effect ::
    "platform \<Rightarrow> crc32c \<Rightarrow> blake3 \<Rightarrow> store_config \<Rightarrow> blob_map \<Rightarrow> 'x engine \<Rightarrow> 'x engine \<Rightarrow> bytes \<Rightarrow> operation
     \<Rightarrow> blocking_result \<Rightarrow> bytes list \<Rightarrow> blob_map \<Rightarrow> blob_map \<Rightarrow> bool" where
  "takes_effect plat c b3 config m0 en en' k op res sent m m' \<longleftrightarrow>
    (\<exists>i mn. length (finished en) \<le> i \<and> i < length (finished en') \<and> finished en' ! i = ((k, op), (res, sent))
      \<and> spec_sequence plat config (map fst (take i (finished en'))) m0 (map snd (take i (finished en'))) m
      \<and> spec_allows plat config k op m res sent m'
      \<and> spec_sequence plat config (map fst (drop (Suc i) (finished en'))) m' (map snd (drop (Suc i) (finished en'))) mn
      \<and> represents c b3 config mn (disk en'))"

lemma engine_step_finished:
  assumes "engine_step sur config en en'"
  shows "prefix (finished en) (finished en')"
  using assms
proof (cases rule: engine_step.cases)
  case internally
  then show ?thesis by (cases rule: internal.cases) auto
next
  case (client c)
  have "finished en' = finished en" if "send_request ev en = Some en'" for ev
    using request_frame [OF that] by simp
  with perform_sends [OF client(3)] show ?thesis by auto
next
  case (waits p r)
  then show ?thesis using wait_frame by (metis prefix_order.refl)
qed auto

lemma reaches_finished: "reaches sur config en en' \<Longrightarrow> prefix (finished en) (finished en')"
  by (induction rule: rtranclp_induct) (auto intro: prefix_order.trans engine_step_finished)

text \<open>A request that is new is not finished yet.\<close>

lemma finished_requested:
  assumes "engine_inv config en" and "x \<in> set (finished en)"
  shows "op_sender (snd (fst x)) < length (requests en)"
  using assms by (auto simp: engine_inv_def history_inv_def issued_def)

lemma finished_later:
  assumes "engine_inv config en" and "prefix (finished en) F" and "((k, op), y) \<in> set F" and "length (requests en) \<le> op_sender op"
  obtains i where "length (finished en) \<le> i" and "i < length F" and "F ! i = ((k, op), y)"
proof -
  from assms(3) obtain i where i: "i < length F" "F ! i = ((k, op), y)" by (metis in_set_conv_nth)
  have "length (finished en) \<le> i"
  proof (rule ccontr)
    assume "\<not> length (finished en) \<le> i"
    with assms(2) i have "((k, op), y) \<in> set (finished en)"
      by (metis nth_append nth_mem not_le prefixE)
    from finished_requested [OF assms(1) this] assms(4) show False by simp
  qed
  with i that show thesis by blast
qed

context backed_store
begin

lemma submitted_takes_effect:
  assumes sur: "sound_surroundings sur config" "crates sur = env" "hashing sur = b3"
    and inv: "engine_inv config en" and h: "history_refines plat c b3 config m0 en"
    and sent: "send_request (Submission k op) en = Some en1" "request_ok (length (requests en)) (Submission k op)"
    and run: "reaches sur config en1 en2" and r: "(op_sender op, r) \<in> set (replies (coord en2))"
  shows "(\<exists>res sent m m'. takes_effect plat c b3 config m0 en en2 k op res sent m m' \<and> deliver op res = Some (op_sender op, r))
    \<or> (op_sender op, r) = deliver_error op StoreClosed \<or> (op_sender op, r) = deliver_error op WorkerUnavailable"
proof -
  have s: "op_sender op = length (requests en)" using sent(2) by (simp add: request_ok_def)
  have inv1: "engine_inv config en1" by (rule request_inv [OF inv sent])
  note inv2 = reaches_inv [OF run sur(1) inv1]
  have h1: "history_refines plat c b3 config m0 en1"
    using h history_frame request_frame [OF sent(1)] by metis
  from reaches_refines [OF run sur inv1 h1] obtain mn where mn:
    "spec_sequence plat config (map fst (finished en2)) m0 (map snd (finished en2)) mn" "represents c b3 config mn (disk en2)"
    by (auto simp: history_refines_def)
  have "issued (requests en1) (op_sender op) (Submission k op)"
    using sent(1) s by (auto simp: send_request_def issued_def split: thread_state.splits)
  from issued_reaches [OF run this] have iss: "issued (requests en2) (op_sender op) (Submission k op)" .
  have pre: "prefix (finished en) (finished en2)" using reaches_finished [OF run] request_frame [OF sent(1)] by simp
  have "\<exists>m m'. takes_effect plat c b3 config m0 en en2 k op res snt m m'" if in2: "((k, op), (res, snt)) \<in> set (finished en2)" for res snt
  proof -
    have le: "length (requests en) \<le> op_sender op" using s by simp
    obtain i where i: "length (finished en) \<le> i" "i < length (finished en2)" "finished en2 ! i = ((k, op), (res, snt))"
      by (rule finished_later [OF inv pre in2 le])
    from spec_sequence_split [OF mn(1), of i] i show ?thesis
      unfolding takes_effect_def using mn(2) by (simp add: take_map drop_map) blast
  qed
  with reply_result [OF inv2 iss r] show ?thesis by blast
qed

text \<open>The same for a call that waits on the reply channel of the request.\<close>

lemma pending_takes_effect:
  assumes sur: "sound_surroundings sur config" "crates sur = env" "hashing sur = b3"
    and inv: "engine_inv config en" and h: "history_refines plat c b3 config m0 en"
    and sent: "send_request (Submission k op) en = Some en1" "request_ok (length (requests en)) (Submission k op)"
    and c: "completes sur config (pending_new f (op_sender op), en1) r en'"
  shows "((\<exists>res sent m m'. takes_effect plat c b3 config m0 en en' k op res sent m m' \<and> deliver op res = Some (op_sender op, r))
    \<or> (op_sender op, r) = deliver_error op StoreClosed \<or> (op_sender op, r) = deliver_error op WorkerUnavailable)
    \<and> engine_inv config en' \<and> issued (requests en') (op_sender op) (Submission k op)"
proof -
  from c obtain en2 where run: "reaches sur config en1 en2"
      and w: "wait_pending (pending_new f (op_sender op)) en2 = Returns r en'" by (auto simp: completes_def)
  have inv1: "engine_inv config en1" by (rule request_inv [OF inv sent])
  note inv2 = reaches_inv [OF run sur(1) inv1]
  note same = wait_frame [OF w]
  have "op_sender op = length (requests en)" using sent(2) by (simp add: request_ok_def)
  then have "issued (requests en1) (op_sender op) (Submission k op)"
    using sent(1) by (auto simp: send_request_def issued_def split: thread_state.splits)
  from issued_reaches [OF run this] have iss: "issued (requests en') (op_sender op) (Submission k op)"
    using same by simp
  have "reaches sur config en2 en'" using engine_step.waits [OF w] by (rule r_into_rtranclp)
  from reaches_inv [OF this sur(1) inv2] have inv': "engine_inv config en'" .
  have "(op_sender op, r) \<in> set (replies (coord en2))"
    using w inv_replies(1) [OF inv2]
    by (auto simp: wait_pending_def pending_new_def Let_def dest: map_of_SomeD split: option.splits if_splits)
  from submitted_takes_effect [OF sur inv h sent run this] show ?thesis
    using same iss inv' by (simp add: takes_effect_def)
qed

lemma call_takes_effect:
  assumes sur: "sound_surroundings sur config" "crates sur = env" "hashing sur = b3"
    and inv: "engine_inv config en" and h: "history_refines plat c b3 config m0 en"
    and ok: "request_ok (length (requests en)) (Submission k op)"
    and f: "\<And>e. deliver_error op e = (op_sender op, f e)"
    and c: "completes sur config (case ensure_open (lifecycle (coord en)) of
        Inl e \<Rightarrow> (resolved f (f e), en) | Inr _ \<Rightarrow> submit f k op en) r en'"
  shows "(\<exists>res sent m m'. takes_effect plat c b3 config m0 en en' k op res sent m m' \<and> deliver op res = Some (op_sender op, r))
    \<or> r = f StoreClosed \<or> r = f WorkerUnavailable"
proof (cases "lifecycle (coord en) = Open")
  case True
  then have "thread en = Running"
    using inv by (auto simp: engine_inv_def closed_inv_def split: thread_state.splits)
  then obtain en1 where s: "send_request (Submission k op) en = Some en1" by (simp add: send_request_def)
  with c True have "completes sur config (pending_new f (op_sender op), en1) r en'" by (simp add: submit_def)
  from pending_takes_effect [OF sur inv h s ok this] f show ?thesis by auto
next
  case False
  have "lifecycle (coord en) \<noteq> Failed"
    using inv by (auto simp: engine_inv_def live_inv_def coord_inv_def basic_inv_def shape_inv_def closed_inv_def
        split: thread_state.splits)
  with False have "ensure_open (lifecycle (coord en)) = Inl StoreClosed" by (cases "lifecycle (coord en)") auto
  with c show ?thesis by (auto simp: completes_def resolved_def wait_pending_def Let_def)
qed

end

text \<open>Each request is finished at most once, so what its channel delivered is what its worker sent.\<close>

lemma finished_once:
  assumes inv: "engine_inv config en" and iss: "issued (requests en) s (Submission k op)"
    and x: "((k, op), (res, sent)) \<in> set (finished en)" and s: "op_sender op = s"
  shows "delivered s en = sent"
    and "y \<in> set (finished en) \<Longrightarrow> op_sender (snd (fst y)) = s \<Longrightarrow> y = ((k, op), (res, sent))"
proof -
  let ?P = "\<lambda>x. op_sender (snd (fst x)) = s"
  have key: "fst y = (k, op)" if "y \<in> set (finished en)" "?P y" for y
  proof -
    have "issued (requests en) s (Submission (fst (fst y)) (snd (fst y)))"
      using inv that by (auto simp: engine_inv_def history_inv_def)
    from issued_unique [OF this iss] show ?thesis by (simp add: prod_eq_iff)
  qed
  have "sorted_wrt (<) (fin_of (finished en) k)"
    using inv_order(1) [OF inv, of k] by (simp add: sorted_wrt_append)
  then have d: "distinct (fin_of (finished en) k)" by (simp add: strict_sorted_iff)
  have one: "y = z" if "y \<in> set (finished en)" "?P y" "z \<in> set (finished en)" "?P z" for y z
  proof -
    have yz: "y \<in> set (filter (\<lambda>x. fst (fst x) = k) (finished en))" "z \<in> set (filter (\<lambda>x. fst (fst x) = k) (finished en))"
      using that key [OF that(1,2)] key [OF that(3,4)] by simp_all
    have "inj_on (\<lambda>x. op_sender (snd (fst x))) (set (filter (\<lambda>x. fst (fst x) = k) (finished en)))"
      using d by (simp add: fin_of_def distinct_map)
    from inj_onD [OF this _ yz] that(2,4) show ?thesis by simp
  qed
  show u: "y = ((k, op), (res, sent))" if "y \<in> set (finished en)" "?P y" for y
    using one [OF that x] s by simp
  obtain z zs where z: "filter ?P (finished en) = z # zs"
  proof -
    have "((k, op), (res, sent)) \<in> set (filter ?P (finished en))" using x s by simp
    with that show thesis by (cases "filter ?P (finished en)") auto
  qed
  then have "z \<in> set (filter ?P (finished en))" by simp
  then have "z \<in> set (finished en) \<and> ?P z" by simp
  with u [of z] z show "delivered s en = sent" by (auto simp: delivered_def)
qed

end
