(* ===== verification/Facade_Live.thy ===== *)
theory Facade_Live
  imports Facade_Facts
begin

text \<open>
  Waiting calls return: when the jobs of the workers return, the engine can go on by its own steps until
  the request of the call is answered, and the wait then gives a result of the call's type.
\<close>

definition jobs_return :: "'x surroundings \<Rightarrow> store_config \<Rightarrow> bool" where
  "jobs_return sur config \<longleftrightarrow> (\<forall>j w. run_job sur config j w \<noteq> None)"

lemma internal_reaches: "(internal sur config)\<^sup>*\<^sup>* en en' \<Longrightarrow> reaches sur config en en'"
  by (rule rtranclp_mono [THEN predicate2D, of "internal sur config"]) (auto intro: engine_step.internally)

lemma request_answered:
  assumes inv: "engine_inv config en" and sur: "sound_surroundings sur config" and jobs: "jobs_return sur config"
    and iss: "issued (requests en) s ev"
  obtains r en' where "reaches sur config en en'" and "engine_inv config en'"
    and "map_of (replies (coord en')) s = Some r"
    and "reply_origin (requests en') (results_of (finished en')) (lifecycle (coord en')) (s, r)"
    and "issued (requests en') s ev"
proof -
  obtain en' where run: "reaches sur config en en'" and all: "all_answered en'"
    using comes_to_rest [OF inv sur jobs [unfolded jobs_return_def, rule_format]] internal_reaches by blast
  have inv': "engine_inv config en'" by (rule reaches_inv [OF run sur inv])
  have iss': "issued (requests en') s ev" by (rule issued_reaches [OF run iss])
  then have "s \<in> set (map fst (replies (coord en')))"
    using all mset_eq_setD [of "map fst (replies (coord en'))" "[0..<length (requests en')]"]
    by (simp add: all_answered_def issued_def)
  then obtain r where r: "map_of (replies (coord en')) s = Some r" using map_of_eq_None_iff [of "replies (coord en')" s] by auto
  from that [OF run inv' r inv_replies(3) [OF inv' map_of_SomeD [OF r]] iss'] show thesis .
qed

lemma wait_answered: "map_of (replies (coord en)) s = Some r \<Longrightarrow> wait_pending (pending_new f s) en = Returns r en"
  by (simp add: wait_pending_def pending_new_def)

lemma resolved_completes: "completes sur config (resolved f r, en) r en"
  unfolding completes_def by (auto simp: wait_pending_def resolved_def)

lemma sent_issued: "send_request ev en = Some en' \<Longrightarrow> issued (requests en') (length (requests en)) ev"
  by (auto simp: send_request_def issued_def split: thread_state.splits)

text \<open>The calls that submit an operation: the result has the type of the operation.\<close>

lemma operation_returns:
  assumes inv: "engine_inv config en" and sur: "sound_surroundings sur config" and jobs: "jobs_return sur config"
    and ok: "request_ok (length (requests en)) (Submission k op)" and sent: "send_request (Submission k op) en = Some en1"
  shows "\<exists>r en'. completes sur config (pending_new f (op_sender op), en1) r en'
    \<and> ((\<exists>res. deliver op res = Some (op_sender op, r)) \<or> (\<exists>e. deliver_error op e = (op_sender op, r)))"
proof -
  have s: "op_sender op = length (requests en)" using ok by (simp add: request_ok_def)
  obtain r en' where "reaches sur config en1 en'" and inv': "engine_inv config en'" and r: "map_of (replies (coord en')) (op_sender op) = Some r"
    and o: "reply_origin (requests en') (results_of (finished en')) (lifecycle (coord en')) (op_sender op, r)"
    and i: "issued (requests en') (op_sender op) (Submission k op)"
    using request_answered [OF request_inv [OF inv sent ok] sur jobs sent_issued [OF sent]] unfolding s .
  then have "completes sur config (pending_new f (op_sender op), en1) r en'"
    unfolding completes_def using wait_answered by fastforce
  moreover from reply_result [OF inv' i map_of_SomeD [OF r]]
  have "(\<exists>res. deliver op res = Some (op_sender op, r)) \<or> (\<exists>e. deliver_error op e = (op_sender op, r))" by metis
  ultimately show ?thesis by blast
qed

lemma open_sends:
  assumes "engine_inv config en" and "lifecycle (coord en) = Open"
  obtains en1 where "send_request ev en = Some en1"
  using assms by (auto simp: engine_inv_def closed_inv_def send_request_def split: thread_state.splits)

lemma call_returns:
  assumes inv: "engine_inv config en" and sur: "sound_surroundings sur config" and jobs: "jobs_return sur config"
    and ok: "request_ok (length (requests en)) (Submission k op)"
    and f: "\<And>e. deliver_error op e = (op_sender op, f e)"
    and typed: "\<And>res r. deliver op res = Some (op_sender op, r) \<Longrightarrow> r \<in> range g" "\<And>e. f e \<in> range g"
  shows "\<exists>x en'. completes sur config (case ensure_open (lifecycle (coord en)) of
        Inl e \<Rightarrow> (resolved f (f e), en) | Inr _ \<Rightarrow> submit f k op en) (g x) en'"
proof (cases "lifecycle (coord en) = Open")
  case True
  obtain en1 where s: "send_request (Submission k op) en = Some en1" by (rule open_sends [OF inv True])
  then have sub: "submit f k op en = (pending_new f (op_sender op), en1)" using True by (simp add: submit_def)
  from operation_returns [OF inv sur jobs ok s] obtain r en' where
    c: "completes sur config (pending_new f (op_sender op), en1) r en'"
    and "(\<exists>res. deliver op res = Some (op_sender op, r)) \<or> (\<exists>e. deliver_error op e = (op_sender op, r))" by blast
  from this(2) have "r \<in> range g" using typed f by auto
  with c sub True show ?thesis by auto
next
  case False
  then obtain e where "ensure_open (lifecycle (coord en)) = Inl e" by (cases "lifecycle (coord en)") auto
  moreover obtain x where "f e = g x" using typed(2) [of e] by blast
  ultimately show ?thesis using resolved_completes [of sur config f "g x" en] by (intro exI [of _ x] exI [of _ en]) simp
qed

lemma delivered_types:
  "deliver (Load s) res = Some (s', r) \<Longrightarrow> r \<in> range Loaded"
  "deliver (Save payload s) res = Some (s', r) \<Longrightarrow> r \<in> range Finished"
  "deliver (Clear s) res = Some (s', r) \<Longrightarrow> r \<in> range Finished"
  "deliver (Inspect s) res = Some (s', r) \<Longrightarrow> r \<in> range Inspected"
  "deliver (Quarantine s) res = Some (s', r) \<Longrightarrow> r \<in> range Quarantined"
  subgoal by (cases res) auto
  subgoal by (cases res) auto
  subgoal by (cases res) auto
  subgoal by (cases res) auto
  subgoal by (cases res) auto
  done

lemma keyed_call_returns:
  assumes inv: "engine_inv config en" and sur: "sound_surroundings sur config" and jobs: "jobs_return sur config"
    and op: "op_sender op = length (requests en)" "owns_channels op" "\<forall>d ms s. op \<noteq> SaveStream d ms s"
    and f: "\<And>e. deliver_error op e = (op_sender op, f e)"
    and typed: "\<And>res r. deliver op res = Some (op_sender op, r) \<Longrightarrow> r \<in> range g" "\<And>e. f e \<in> range g"
  shows "\<exists>x en'. completes sur config (case ensure_open (lifecycle (coord en)) of
        Inl e \<Rightarrow> (resolved f (f e), en) | Inr _ \<Rightarrow> submit f (key_hash (hashing sur) key) op en) (g x) en'"
proof (rule call_returns [OF inv sur jobs _ f typed])
  have "length (key_hash (hashing sur) key) = 32"
    using sur by (simp add: sound_surroundings_def key_hash_def blake3_spec.hash_length)
  then show "request_ok (length (requests en)) (Submission (key_hash (hashing sur) key) op)"
    using op by (simp add: request_ok_def proper_request_def split: operation.splits)
qed

lemma load_call_returns:
  assumes "engine_inv config en" and "sound_surroundings sur config" and "jobs_return sur config"
  shows "\<exists>res en'. blocking_load sur config key en res en'"
  unfolding blocking_load_def load_def Let_def
  by (rule keyed_call_returns [OF assms, where g = Loaded])
    (simp_all add: owns_channels_def delivered_types)

lemma save_call_returns:
  assumes "engine_inv config en" and "sound_surroundings sur config" and "jobs_return sur config"
  shows "\<exists>res en'. blocking_save sur config key payload en res en'"
  unfolding blocking_save_def save_def Let_def
  by (rule keyed_call_returns [OF assms, where g = Finished])
    (simp_all add: owns_channels_def delivered_types)

lemma clear_call_returns:
  assumes "engine_inv config en" and "sound_surroundings sur config" and "jobs_return sur config"
  shows "\<exists>res en'. blocking_clear sur config key en res en'"
  unfolding blocking_clear_def clear_def Let_def
  by (rule keyed_call_returns [OF assms, where g = Finished])
    (simp_all add: owns_channels_def delivered_types)

lemma inspect_call_returns:
  assumes "engine_inv config en" and "sound_surroundings sur config" and "jobs_return sur config"
  shows "\<exists>res en'. blocking_inspect sur config key en res en'"
  unfolding blocking_inspect_def inspect_def Let_def
  by (rule keyed_call_returns [OF assms, where g = Inspected])
    (simp_all add: owns_channels_def delivered_types)

lemma quarantine_call_returns:
  assumes "engine_inv config en" and "sound_surroundings sur config" and "jobs_return sur config"
  shows "\<exists>res en'. blocking_quarantine sur config key en res en'"
  unfolding blocking_quarantine_def quarantine_def Let_def
  by (rule keyed_call_returns [OF assms, where g = Quarantined])
    (simp_all add: owns_channels_def delivered_types)

text \<open>Flush, cleanup and close.\<close>

lemma flush_call_returns:
  assumes inv: "engine_inv config en" and sur: "sound_surroundings sur config" and jobs: "jobs_return sur config"
  shows "\<exists>res en'. blocking_flush sur config en res en'"
proof (cases "lifecycle (coord en) = Open")
  case True
  obtain en1 where s: "send_request (Flush (length (requests en))) en = Some en1" by (rule open_sends [OF inv True])
  have inv1: "engine_inv config en1" by (rule request_inv [OF inv s]) (simp add: request_ok_def)
  obtain r en' where "reaches sur config en1 en'" "map_of (replies (coord en')) (length (requests en)) = Some r"
    "reply_origin (requests en') (results_of (finished en')) (lifecycle (coord en')) (length (requests en), r)"
    "issued (requests en') (length (requests en)) (Flush (length (requests en)))"
    using request_answered [OF inv1 sur jobs sent_issued [OF s]] .
  moreover from this(3,4) obtain x where "r = Finished x" by (auto simp: reply_origin_def dest: issued_unique)
  ultimately show ?thesis
    unfolding blocking_flush_def completes_def using True s by (fastforce simp: flush_store_def dest: wait_answered)
next
  case False
  then have "\<exists>e. flush_store en = (resolved (\<lambda>e. Finished (Inl e)) (Finished (Inl e)), en)"
    by (cases "lifecycle (coord en)") (auto simp: flush_store_def)
  with resolved_completes show ?thesis unfolding blocking_flush_def by metis
qed

lemma cleanup_call_returns:
  assumes inv: "engine_inv config en" and sur: "sound_surroundings sur config" and jobs: "jobs_return sur config"
  shows "\<exists>res en'. blocking_cleanup sur config age en res en'"
proof (cases "lifecycle (coord en) = Open \<and> age \<noteq> 0")
  case True
  let ?s = "length (requests en)"
  obtain en1 where s: "send_request (Maintenance (Some age) ?s) en = Some en1" using open_sends [OF inv] True by blast
  have inv1: "engine_inv config en1" by (rule request_inv [OF inv s]) (simp add: request_ok_def)
  obtain r en' where "reaches sur config en1 en'" "map_of (replies (coord en')) ?s = Some r"
    "reply_origin (requests en') (results_of (finished en')) (lifecycle (coord en')) (?s, r)"
    "issued (requests en') ?s (Maintenance (Some age) ?s)"
    using request_answered [OF inv1 sur jobs sent_issued [OF s]] .
  moreover from this(3,4) obtain x where "r = Cleaned x" by (auto simp: reply_origin_def dest: issued_unique)
  ultimately show ?thesis
    unfolding blocking_cleanup_def completes_def using True s
    by (fastforce simp: cleanup_stale_temporary_files_def dest: wait_answered)
next
  case False
  then have "\<exists>e. cleanup_stale_temporary_files age en = (resolved (\<lambda>e. Cleaned (Inl e)) (Cleaned (Inl e)), en)"
    by (cases "lifecycle (coord en)") (auto simp: cleanup_stale_temporary_files_def)
  with resolved_completes show ?thesis unfolding blocking_cleanup_def by metis
qed

lemma join_returns:
  assumes "engine_inv config en" and "thread en = Exited b"
  shows "\<exists>en'. finish_join r en = Returns r en'"
proof -
  have j: "join_inv en" "thread en = Exited False" using assms by (auto simp: engine_inv_def)
  then have "finish_join r en \<noteq> Panics"
    by (auto simp: finish_join_def join_inv_def Let_def split: option.splits if_splits)
  with finish_join_cases [OF j(1) refl, of r] j(2) show ?thesis by auto
qed

lemma close_call_returns:
  assumes inv: "engine_inv config en" and sur: "sound_surroundings sur config" and jobs: "jobs_return sur config"
  shows "\<exists>res en'. blocking_close sur config en res en'"
proof (cases "lifecycle (coord en) = Open \<or> lifecycle (coord en) = Closing")
  case True
  let ?s = "length (requests en)"
  obtain en1 where s: "send_request (Close ?s) en = Some en1"
    using inv True by (auto simp: engine_inv_def closed_inv_def send_request_def split: thread_state.splits)
  then have c: "close_store en = Some (with_after (with_disconnected (\<lambda>e. Finished (Inl e)) ?s), en1)"
    using True by (auto simp: close_store_def)
  have inv1: "engine_inv config en1" by (rule request_inv [OF inv s]) (simp add: request_ok_def)
  obtain r en2 where run: "reaches sur config en1 en2" and inv2: "engine_inv config en2"
    and r: "map_of (replies (coord en2)) ?s = Some r"
    and o: "reply_origin (requests en2) (results_of (finished en2)) (lifecycle (coord en2)) (?s, r)"
    and i: "issued (requests en2) ?s (Close ?s)"
    using request_answered [OF inv1 sur jobs sent_issued [OF s]] .
  from o i have x: "lifecycle (coord en2) = Closed \<or> lifecycle (coord en2) = ShutdownFailed" "\<exists>x. r = Finished x"
    by (auto simp: reply_origin_def dest: issued_unique)
  then obtain b where "thread en2 = Exited b"
    using inv2 by (auto simp: engine_inv_def live_inv_def coord_inv_def basic_inv_def shape_inv_def split: thread_state.splits)
  from join_returns [OF inv2 this] r have "\<exists>en'. wait_pending (with_after (with_disconnected (\<lambda>e. Finished (Inl e)) ?s)) en2 = Returns r en'"
    by (simp add: wait_pending_def with_after_def with_disconnected_def)
  with run c x(2) show ?thesis unfolding blocking_close_def completes_def by fastforce
next
  case False
  then obtain b where t: "thread en = Exited b"
    using inv by (auto simp: engine_inv_def live_inv_def coord_inv_def basic_inv_def shape_inv_def split: thread_state.splits)
  from False have "\<exists>res. close_store en = Some (closed_pending res, en)"
    by (cases "lifecycle (coord en)") (auto simp: close_store_def)
  moreover have "\<exists>en'. wait_pending (closed_pending res) en = Returns (Finished res) en'" for res
    using join_returns [OF inv t] by (simp add: wait_pending_def closed_pending_def with_after_def resolved_def)
  ultimately show ?thesis unfolding blocking_close_def completes_def by fastforce
qed

text \<open>A streaming save, whatever the caller's input and the room of the channel.\<close>

lemma save_from_returns:
  assumes inv: "engine_inv config en" and sur: "sound_surroundings sur config" and jobs: "jobs_return sur config"
  shows "\<exists>res en'. async_save_from sur config key r room ready declared en res en'"
proof -
  obtain chunks out where fd: "feed_async declared 0 room ready r = (chunks, out)" by fastforce
  let ?op = "SaveStream declared chunks (length (requests en))"
  obtain x en1 where st: "start_save_stream (hashing sur) config key declared chunks en = (x, en1)" by fastforce
  show ?thesis
  proof (cases x)
    case (Inl e)
    with fd st show ?thesis by (auto simp: async_save_from_def)
  next
    case (Inr p)
    with st have p: "p = pending_new (\<lambda>e. Finished (Inl e)) (op_sender ?op)"
        and s: "send_request (Submission (key_hash (hashing sur) key) ?op) en = Some en1"
      by (auto simp: start_save_stream_def submit_operation_def split: sum.splits if_splits option.splits)
    have "length (key_hash (hashing sur) key) = 32"
      using sur by (simp add: sound_surroundings_def key_hash_def blake3_spec.hash_length)
    moreover have "vec_chunks chunks" using feed_async_vec [of declared 0 room ready r] fd by simp
    ultimately have ok: "request_ok (length (requests en)) (Submission (key_hash (hashing sur) key) ?op)"
      by (simp add: request_ok_def proper_request_def owns_channels_def)
    from operation_returns [OF inv sur jobs ok s, of "\<lambda>e. Finished (Inl e)"] obtain rp en' where
      c: "completes sur config (p, en1) rp en'"
      and t: "(\<exists>res. deliver ?op res = Some (op_sender ?op, rp)) \<or> (\<exists>e. deliver_error ?op e = (op_sender ?op, rp))"
      unfolding p by blast
    have "\<exists>y. rp = Finished y"
      using t
    proof
      assume "\<exists>res. deliver ?op res = Some (op_sender ?op, rp)"
      then obtain res where "deliver ?op res = Some (op_sender ?op, rp)" ..
      then show ?thesis by (cases res) auto
    qed auto
    with c fd st Inr show ?thesis by (auto simp: async_save_from_def awaited_completes)
  qed
qed

end
