(* ===== verification/Failures.thy ===== *)
theory Failures
  imports Facade_Facts Backends
begin

text \<open>
  The errors that a load, a save and a clear can report, on either backend: nothing else comes from a
  worker. A finished operation of the engine was run by a worker on the files of some moment, so this is
  what the clients see besides the two coordination errors.
\<close>

section \<open>Errors of the operations\<close>

definition load_failure :: "store_error \<Rightarrow> bool" where
  "load_failure e \<longleftrightarrow> envelope_error e \<or> e = NamespacePathIsNotDirectory
     \<or> (\<exists>x. e = Io OpenBlob x \<or> e = Io ReadEnvelope x \<or> e = Io InspectNamespace x)"

definition save_failure :: "platform \<Rightarrow> store_config \<Rightarrow> bytes \<Rightarrow> store_error \<Rightarrow> bool" where
  "save_failure plat config payload e \<longleftrightarrow>
     unat (maximum config) < length payload \<and> e = BlobTooLarge (of_nat (length payload)) (maximum config)
     \<or> 2 ^ 64 \<le> length payload \<and> e = InvalidPayloadLength (- 1)
     \<or> (\<exists>x. e = Io OpenAtomicWriter x \<or> e = Io WriteEnvelope x \<or> e = AtomicCommit x)
     \<or> plat = OnWindows \<and> ((\<exists>x. e = Io SyncNamespaceDirectory x) \<or> (\<exists>g. e = IdentifierGeneration g))"

definition clear_failure :: "platform \<Rightarrow> store_error \<Rightarrow> bool" where
  "clear_failure plat e \<longleftrightarrow> e = NamespacePathIsNotDirectory
     \<or> (\<exists>x. e = Io RemoveBlob x \<or> e = Io InspectNamespace x \<or> e = Io SyncNamespaceDirectory x)
     \<or> plat = OnUnix \<and> (\<exists>x. e = Io OpenNamespaceDirectory x)
     \<or> plat = OnWindows \<and> ((\<exists>x. e = Io RefreshClearStagingAge x \<or> e = Io RemoveTemporaryFile x)
         \<or> (\<exists>g. e = IdentifierGeneration g))"

lemma read_section_failure: "read_section n s r = (Inl e, r') \<Longrightarrow> envelope_error e \<or> (\<exists>x. e = Io ReadEnvelope x)"
  by (auto simp: read_section_def split: prod.splits sum.splits if_splits)

lemma read_end_failure: "read_end r = Inl e \<Longrightarrow> envelope_error e \<or> (\<exists>x. e = Io ReadEnvelope x)"
  by (auto simp: read_end_def split: sum.splits if_splits)

lemma decode_failure:
  "fst (decode_reader usize_max c fmt r limit) = Inl e \<Longrightarrow> envelope_error e \<or> (\<exists>x. e = Io ReadEnvelope x)"
  unfolding decode_reader_def decode_reader_with_usize_limit_def Let_def
  by (auto split: prod.splits sum.splits if_splits dest: read_section_failure read_end_failure)

lemma ensure_namespace_failure:
  "ensure_namespace_available config w = (Inl e, w') \<Longrightarrow>
     e = NamespacePathIsNotDirectory \<or> (\<exists>x. e = Io InspectNamespace x)"
  by (auto simp: ensure_namespace_available_def split: prod.splits sum.splits if_splits)

lemma load_blob_failure: "load_blob usize_max c config path w = (Inl e, w') \<Longrightarrow> load_failure e"
  unfolding load_blob_def
  by (auto simp: load_failure_def split: prod.splits sum.splits if_splits
      dest: ensure_namespace_failure decode_failure)

lemma envelope_parts_failure:
  "envelope_parts c fmt payload limit = Inl e \<Longrightarrow>
     unat limit < length payload \<and> e = BlobTooLarge (of_nat (length payload)) limit
     \<or> 2 ^ 64 \<le> length payload \<and> e = InvalidPayloadLength (- 1)"
  by (auto simp: envelope_parts_def envelope_header_def u64_try_from_def u64_leq_length
      split: option.splits sum.splits if_splits)

lemma write_sections_failure: "write_sections ops fd sects w = (Inl e, w') \<Longrightarrow> \<exists>x. e = Io WriteEnvelope x"
  by (induction sects arbitrary: w) (auto split: prod.splits sum.splits)

lemma save_blob_failure:
  "save_blob ops c config path payload w = (Inl e, w') \<Longrightarrow> save_failure OnUnix config payload e"
  unfolding save_blob_def
  by (auto simp: save_failure_def split: prod.splits sum.splits
      dest: envelope_parts_failure write_sections_failure)

lemma clear_blob_failure: "clear_blob config path w = (Inl e, w') \<Longrightarrow> clear_failure OnUnix e"
  unfolding clear_blob_def sync_directory_def
  by (auto simp: clear_failure_def split: prod.splits sum.splits if_splits dest: ensure_namespace_failure)

text \<open>On Windows an error is that of a round of the retry loop.\<close>

lemma retry_round: "retry body s = Some r \<Longrightarrow> \<exists>s. body s = Inl r"
  using retry_rule [of body s r "\<lambda>_. True"] by blast

lemma random_identifier_failure: "random_identifier fill w = (Inl e, w') \<Longrightarrow> \<exists>g. e = IdentifierGeneration g"
  by (auto simp: random_identifier_hex split: prod.splits sum.splits)

lemma windows_sections_failure: "write_windows_sections w32 h sects w = (Inl e, w') \<Longrightarrow> \<exists>x. e = Io WriteEnvelope x"
  by (induction sects arbitrary: w) (auto split: prod.splits sum.splits)

lemma windows_staging_failure:
  "create_windows_staging w32 path header payload checksum w = (Inl e, w') \<Longrightarrow>
     \<exists>x. e = Io OpenAtomicWriter x \<or> e = Io WriteEnvelope x"
  by (auto simp: create_windows_staging_def create_new_def finish_staging_def
      split: prod.splits sum.splits if_splits dest: windows_sections_failure)

lemma windows_commit_failure:
  "commit_windows_staging w32 config staging path w = (Inl e, w') \<Longrightarrow>
     \<exists>x. e = AtomicCommit x \<or> e = Io SyncNamespaceDirectory x"
proof -
  have outer: "\<exists>x. e = f x \<or> e = g x" if "(case A of (Inl x, w2) \<Rightarrow> (Inl (f x), w2)
      | (Inr _, w2) \<Rightarrow> (case B w2 of (Inl x, w3) \<Rightarrow> (Inl (g x), w3) | (Inr _, w3) \<Rightarrow> (Inr (), w3))) = (Inl e, w')"
    for f g B and A :: "(io_error + unit) \<times> 'a world"
    using that by (auto split: prod.splits sum.splits)
  show "commit_windows_staging w32 config staging path w = (Inl e, w') \<Longrightarrow> ?thesis"
    unfolding commit_windows_staging_def by (rule outer)
qed

lemma windows_save_failure:
  assumes "windows_save_blob w32 c config path payload w = Some (Inl e, w')" and "file_stem path \<noteq> None"
  shows "save_failure OnWindows config payload e"
proof (cases "envelope_parts c (format config) payload (maximum config)")
  case (Inl e')
  with assms envelope_parts_failure [OF Inl] show ?thesis by (auto simp: windows_save_blob_def save_failure_def)
next
  case (Inr hc)
  obtain hash header checksum where "file_stem path = Some hash" "hc = (header, checksum)"
    using assms(2) by (cases hc) auto
  with assms(1) Inr have "retry (windows_save_round w32 config path hash header payload checksum) w = Some (Inl e, w')"
    by (simp add: windows_save_blob_def)
  from retry_round [OF this] obtain w1 where
    "windows_save_round w32 config path hash header payload checksum w1 = Inl (Inl e, w')" ..
  then show ?thesis
    by (auto simp: windows_save_round_def save_failure_def Let_def split: prod.splits sum.splits if_splits
        dest: random_identifier_failure windows_staging_failure windows_commit_failure)
qed

lemma windows_clear_failure:
  assumes "windows_clear_blob w32 config path w = Some (Inl e, w')" and "file_stem path \<noteq> None"
  shows "clear_failure OnWindows e"
proof -
  obtain x w1 where x: "refresh_windows_clear_age w32 path w = (x, w1)" by fastforce
  show ?thesis
  proof (cases x)
    case (Inl y)
    with assms x have "e = Io RefreshClearStagingAge y \<or> ensure_namespace_available config w1 = (Inl e, w')"
      by (auto simp: windows_clear_blob_def split: if_splits)
    with ensure_namespace_failure show ?thesis unfolding clear_failure_def by blast
  next
    case (Inr u)
    obtain hash where "file_stem path = Some hash" using assms(2) by blast
    with assms(1) x Inr have "retry (windows_clear_round w32 config path hash) w1 = Some (Inl e, w')"
      by (simp add: windows_clear_blob_def)
    from retry_round [OF this] obtain w2 where "windows_clear_round w32 config path hash w2 = Inl (Inl e, w')" ..
    then show ?thesis
      by (auto simp: windows_clear_round_def clear_failure_def Let_def split: prod.splits sum.splits if_splits
          dest: random_identifier_failure ensure_namespace_failure)
  qed
qed

section \<open>Results come from workers\<close>

definition ran :: "'x surroundings \<Rightarrow> store_config \<Rightarrow> (bytes \<times> operation) \<times> blocking_result \<times> bytes list \<Rightarrow> bool" where
  "ran sur config x \<longleftrightarrow> (\<exists>op' w w'. run_owned_operation (crates sur) config
     (worker_path (hashing sur) config (fst (fst x))) (snd (fst x)) w = Some (Some (op', fst (snd x)), snd (snd x), w'))"

lemma run_job_ran: "run_job sur config j w = Some (ev, lost, ops, w') \<Longrightarrow> list_all (ran sur config) ops"
  by (cases j) (fastforce simp: ran_def split: option.splits prod.splits)+

lemma engine_step_ran:
  assumes "engine_step sur config en en'" and "list_all (ran sur config) (finished en)"
  shows "list_all (ran sur config) (finished en')"
  using assms(1)
proof (cases rule: engine_step.cases)
  case internally
  then show ?thesis
  proof (cases rule: internal.cases)
    case (finish xs j ys ev lost ops w)
    with run_job_ran [OF finish(3)] assms(2) show ?thesis by simp
  qed (use assms(2) in simp_all)
next
  case (client c)
  have "finished en' = finished en" if "send_request ev en = Some en'" for ev
    using request_frame [OF that] by simp
  with perform_sends [OF client(3)] assms(2) show ?thesis by auto
next
  case (waits p r)
  then show ?thesis using wait_frame assms(2) by metis
qed (use assms(2) in auto)

lemma reaches_ran:
  "reaches sur config en en' \<Longrightarrow> list_all (ran sur config) (finished en) \<Longrightarrow> list_all (ran sur config) (finished en')"
  by (induction rule: rtranclp_induct) (auto intro: engine_step_ran)

lemma completes_ran:
  assumes "completes sur config call r en'" and "list_all (ran sur config) (finished (snd call))"
  shows "list_all (ran sur config) (finished en')"
proof -
  from assms(1) obtain en2 where "reaches sur config (snd call) en2" and w: "wait_pending (fst call) en2 = Returns r en'"
    by (auto simp: completes_def)
  with reaches_ran assms(2) wait_frame [OF w] show ?thesis by metis
qed

lemma stem_of_worker: "file_stem (worker_path b3 config k) \<noteq> None"
  by (cases "namespace config") (simp add: file_stem_def worker_path_def join_def)

lemma ran_failures:
  "ran sur config ((k, Load s), (LoadResult (Inl e), sent)) \<Longrightarrow> load_failure e"
  "ran sur config ((k, Save payload s), (SaveResult (Inl e), sent)) \<Longrightarrow>
     save_failure (platform_of (env_backend (crates sur))) config payload e"
  "ran sur config ((k, Clear s), (ClearResult (Inl e), sent)) \<Longrightarrow>
     clear_failure (platform_of (env_backend (crates sur))) e"
proof -
  let ?p = "worker_path (hashing sur) config k"
  show "load_failure e" if "ran sur config ((k, Load s), (LoadResult (Inl e), sent))"
  proof -
    from that obtain op' w w' where run: "run_owned_operation (crates sur) config ?p (Load s) w
        = Some (Some (op', LoadResult (Inl e)), sent, w')" by (auto simp: ran_def)
    obtain res w1 where "load_blob (env_usize_max (crates sur)) (env_crc (crates sur)) config ?p w = (res, w1)" by fastforce
    moreover from this run have "res = Inl e" by simp
    ultimately have "load_blob (env_usize_max (crates sur)) (env_crc (crates sur)) config ?p w = (Inl e, w1)" by simp
    then show ?thesis by (rule load_blob_failure)
  qed
  show "save_failure (target sur) config payload e" if "ran sur config ((k, Save payload s), (SaveResult (Inl e), sent))"
  proof -
    from that obtain w w' where "backend_save (env_backend (crates sur)) (env_crc (crates sur)) config ?p payload w = Some (Inl e, w')"
      by (fastforce simp: ran_def split: prod.splits option.splits)
    then show ?thesis
      by (cases "env_backend (crates sur)") (simp_all add: save_blob_failure windows_save_failure [OF _ stem_of_worker])
  qed
  show "clear_failure (target sur) e" if "ran sur config ((k, Clear s), (ClearResult (Inl e), sent))"
  proof -
    from that obtain w w' where "backend_clear (env_backend (crates sur)) config ?p w = Some (Inl e, w')"
      by (fastforce simp: ran_def split: prod.splits option.splits)
    then show ?thesis
      by (cases "env_backend (crates sur)") (simp_all add: clear_blob_failure windows_clear_failure [OF _ stem_of_worker])
  qed
qed

end
