(* ===== verification/Facade_Props.thy ===== *)
theory Facade_Props
  imports Facade_Live Failures Engine_Example
begin

text \<open>
  The properties of the facades: the waiting calls are linearisable and return, a streaming save publishes
  exactly its input, and a streaming load writes exactly the stored payload.
\<close>

section \<open>A store in use\<close>













section \<open>Linearisability\<close>



section \<open>Streaming saves\<close>







section \<open>Streaming loads\<close>




section \<open>Returning\<close>

text \<open>C12. The calls of either facade that do not stream return: if the jobs of the workers return, then from every
  reachable state, open or closed, each of the eight, blocked on or awaited, has a run in which it returns a
  result of its own type. (The streaming calls are not among them: what their channels deliver is part of the operation
  in this model, so it cannot tell whether the caller drops its end.)\<close>

theorem waiting_calls_return:
  fixes en :: "'x engine"
  assumes "sound_surroundings sur config" and "reachable sur config en" and "jobs_return sur config"
  shows "(\<exists>res en'. blocking_load sur config key en res en' \<and> awaited sur config (async_load (hashing sur) key en) (Loaded res) en')
    \<and> (\<exists>res en'. blocking_save sur config key payload en res en'
         \<and> awaited sur config (async_save (hashing sur) key payload en) (Finished res) en')
    \<and> (\<exists>res en'. blocking_clear sur config key en res en' \<and> awaited sur config (async_clear (hashing sur) key en) (Finished res) en')
    \<and> (\<exists>res en'. blocking_inspect sur config key en res en'
         \<and> awaited sur config (async_inspect (hashing sur) key en) (Inspected res) en')
    \<and> (\<exists>res en'. blocking_quarantine sur config key en res en'
         \<and> awaited sur config (async_quarantine (hashing sur) key en) (Quarantined res) en')
    \<and> (\<exists>res en'. blocking_cleanup sur config age en res en' \<and> awaited sur config (async_cleanup age en) (Cleaned res) en')
    \<and> (\<exists>res en'. blocking_flush sur config en res en' \<and> awaited sur config (async_flush en) (Finished res) en')
    \<and> (\<exists>res en' call. blocking_close sur config en res en' \<and> async_close en = Some call \<and> awaited sur config call (Finished res) en')"
proof -
  note sound = reachable_inv [OF assms(2,1)] assms(1,3)
  have "\<exists>res en' call. blocking_close sur config en res en' \<and> async_close en = Some call \<and> awaited sur config call (Finished res) en'"
  proof -
    from close_call_returns [OF sound] obtain res en' where b: "blocking_close sur config en res en'" by blast
    then obtain call where "close_store en = Some call" "completes sur config call (Finished res) en'"
      by (auto simp: blocking_close_def)
    with b show ?thesis
      by (intro exI [of _ res] exI [of _ en'] exI [of _ "map_prod operation_new id call"]) (simp add: async_close_def awaited_call)
  qed
  then show ?thesis
    using load_call_returns [OF sound] save_call_returns [OF sound] clear_call_returns [OF sound] inspect_call_returns [OF sound]
      quarantine_call_returns [OF sound] cleanup_call_returns [OF sound] flush_call_returns [OF sound]
    by (intro conjI) (simp_all add: async_facade_defs blocking_facade_defs awaited_call)
qed

text \<open>On the executable crates jobs return, because the entropy ends.\<close>

lemma posix_quarantine_returns: "\<exists>r. quarantine_loop posix_ops config path hash w = Some r"
proof (induction "length (entropy (ext w))" arbitrary: w rule: less_induct)
  case less
  show ?case
  proof (cases "quarantine_round posix_ops config path hash w")
    case (Inl r)
    then show ?thesis by (simp add: quarantine_loop.simps [of posix_ops config path hash w])
  next
    case (Inr w2)
    then obtain ident w1 where id: "random_identifier (getrandom_fill posix_ops) w = (Inr ident, w1)"
        and ex: "rename_noreplace posix_ops path (quarantine_destination config hash ident) w1 = (Inl EXIST, w2)"
      by (auto simp: quarantine_round_def Let_def split: prod.splits sum.splits errno.splits)
    have "length (entropy (ext w1)) < length (entropy (ext w))"
      using id by (auto simp: random_identifier_hex posix_ops_def posix_random_def split: prod.splits list.splits sum.splits)
    moreover have "entropy (ext w2) = entropy (ext w1)"
      using ex by (auto simp: posix_ops_def posix_rename_def fs_call_def split: prod.splits sum.splits if_splits list.splits option.splits)
    ultimately obtain r where "quarantine_loop posix_ops config path hash w2 = Some r" using less by fastforce
    with Inr show ?thesis by (simp add: quarantine_loop.simps [of posix_ops config path hash w])
  qed
qed

lemma example_jobs_return: "jobs_return example_surroundings config"
  unfolding jobs_return_def
proof (intro allI)
  fix j w
  show "run_job example_surroundings config j w \<noteq> None"
  proof (cases j)
    case (OperationJob k op)
    have "run_owned_operation (crates example_surroundings) config path op w \<noteq> None" for path
    proof (cases op)
      case (Quarantine s)
      then show ?thesis using posix_quarantine_returns [of config path _ w]
        by (auto simp: example_surroundings_def quarantine_blob_def split: option.splits)
    qed (auto simp: example_surroundings_def split: prod.splits option.splits)
    with OperationJob show ?thesis by (auto split: option.splits)
  next
    case (MaintenanceJob age s)
    then show ?thesis by (auto split: option.splits prod.splits)
  qed
qed

theorem waiting_calls_return_witness:
  "\<exists>res en'. blocking_quarantine example_surroundings sample_config [1] example_engine res en'"
proof -
  have "reachable example_surroundings sample_config example_engine"
    unfolding reachable_def using example_opened by blast
  from waiting_calls_return [OF example_sound this example_jobs_return] show ?thesis by blast
qed

end
