(* ===== verification/Windows_Instance.thy ===== *)
theory Windows_Instance
  imports Windows_Model Store_Instance
begin

text \<open>
  An executable platform for one namespace directory: handles are numbered, a call fails when the
  schedule of \<open>File_World\<close> says so, and the clock, the entropy and the directory listing are data. It
  discharges the contract \<open>win32_spec\<close>.
\<close>

record win =
  handles_open :: "(handle \<times> path) list"
  next_handle :: nat
  wall_clock :: system_time
  win_entropy :: "bytes list"
  win_names :: "string list"
  win_error :: io_error

type_synonym win_world = "win world"

abbreviation win_dir :: path where
  "win_dir \<equiv> namespace sample_config"

section \<open>Names\<close>

definition wide_char :: "char \<Rightarrow> u16" where
  "wide_char ch = of_nat (of_char ch)"

definition narrow_char :: "u16 \<Rightarrow> char" where
  "narrow_char u = char_of (unat u)"

definition win_encode :: "path \<Rightarrow> u16 list" where
  "win_encode p = map wide_char ''C:'' @ concat (map (\<lambda>c. SEPARATOR # map wide_char c) (path_components p))"

definition win_resolve :: "u16 list \<Rightarrow> path" where
  "win_resolve u = join win_dir (relative (map narrow_char
     (butlast (drop (length (VERBATIM_PREFIX @ win_encode win_dir @ [SEPARATOR])) u))))"

lemma unat_wide_char: "unat (wide_char ch) = of_char ch"
proof -
  have "of_char ch < (256 :: nat)" by (metis of_char_mod_256 mod_less_divisor zero_less_numeral)
  then have "of_char ch < (65536 :: nat)" by (rule less_le_trans) simp
  then show ?thesis by (simp add: wide_char_def unat_of_nat take_bit_eq_mod)
qed

lemma narrow_wide [simp]: "narrow_char (wide_char ch) = ch"
  by (simp add: narrow_char_def unat_wide_char)

lemma wide_char_slash: "wide_char ch = ALTERNATE_SEPARATOR \<longleftrightarrow> ch = CHR ''/''"
proof -
  have "ALTERNATE_SEPARATOR = wide_char CHR ''/''" by (simp add: wide_char_def ALTERNATE_SEPARATOR_def)
  then show ?thesis by (metis narrow_wide)
qed

lemma portable_no_slash: "portable name \<Longrightarrow> CHR ''/'' \<notin> set name"
  by (auto simp: portable_def list_all_iff suffix_byte_def is_ascii_lowercase_def is_ascii_digit_def)

lemma resolve_wide [simp]:
  assumes "portable name"
  shows "win_resolve (wide_path (win_encode (join win_dir (relative name)))) = join win_dir (relative name)"
proof -
  have enc: "win_encode (join win_dir (relative name)) = win_encode win_dir @ SEPARATOR # map wide_char name"
    by (simp add: win_encode_def join_def)
  have hd: "\<exists>r. win_encode win_dir = wide_char CHR ''C'' # r" by (simp add: win_encode_def)
  have "wide_char CHR ''C'' \<noteq> SEPARATOR" by (simp add: wide_char_def SEPARATOR_def)
  with hd have "\<not> starts_with (win_encode (join win_dir (relative name))) VERBATIM_PREFIX"
    "\<not> starts_with (win_encode (join win_dir (relative name))) DEVICE_PREFIX"
    "\<not> starts_with (win_encode (join win_dir (relative name))) [SEPARATOR, SEPARATOR]"
    by (auto simp: enc starts_with_def VERBATIM_PREFIX_def DEVICE_PREFIX_def)
  then have w: "wide_path (win_encode (join win_dir (relative name))) = VERBATIM_PREFIX
      @ map (\<lambda>unit. if unit = ALTERNATE_SEPARATOR then SEPARATOR else unit) (win_encode win_dir @ SEPARATOR # map wide_char name) @ [0]"
    by (simp add: wide_path_def enc)
  have "map (\<lambda>x. narrow_char (if wide_char x = ALTERNATE_SEPARATOR then SEPARATOR else wide_char x)) name = name"
    using portable_no_slash [OF assms] by (intro map_idI) (auto simp: wide_char_slash)
  then show ?thesis unfolding win_resolve_def w by (simp add: butlast_append comp_def)
qed

section \<open>Calls\<close>

definition set_win_error :: "io_error \<Rightarrow> win_world \<Rightarrow> win_world" where
  "set_win_error e w = w\<lparr>ext := (ext w)\<lparr>win_error := e\<rparr>\<rparr>"

definition already_there :: io_error where
  "already_there = IoError AlreadyExists (Some ERROR_ALREADY_EXISTS)"

definition win_call :: "(win_world \<Rightarrow> (io_error + unit) \<times> win_world) \<Rightarrow> win_world \<Rightarrow> win_bool \<times> win_world" where
  "win_call body w = (case fs_call body w of (Inl e, w') \<Rightarrow> (0, set_win_error e w') | (Inr _, w') \<Rightarrow> (1, w'))"

definition win_opened :: "handle \<Rightarrow> win_world \<Rightarrow> path option" where
  "win_opened h w = map_of (handles_open (ext w)) h"

definition new_handle :: "path \<Rightarrow> win_world \<Rightarrow> handle \<times> win_world" where
  "new_handle p w =
    (let h = of_nat (next_handle (ext w)) in
     if h = INVALID_HANDLE_VALUE then (INVALID_HANDLE_VALUE, set_win_error (os_error 4) w)
     else (h, w\<lparr>ext := (ext w)\<lparr>handles_open := (h, p) # handles_open (ext w), next_handle := Suc (next_handle (ext w))\<rparr>\<rparr>))"

definition win_create :: "u16 list \<Rightarrow> u32 \<Rightarrow> u32 \<Rightarrow> u32 \<Rightarrow> u32 \<Rightarrow> win_world \<Rightarrow> handle \<times> win_world" where
  "win_create u access share disposition flags w =
    (let p = win_resolve u in
     if flags = FILE_FLAG_BACKUP_SEMANTICS then new_handle win_dir w
     else case fs_call (\<lambda>w.
         if disposition = CREATE_NEW then (if nodes w p = None then (Inr (), w) else (Inl already_there, w))
         else case nodes w p of None \<Rightarrow> (Inl not_found, w) | Some Directory \<Rightarrow> (Inl (os_error 5), w) | Some _ \<Rightarrow> (Inr (), w)) w of
       (Inl e, w1) \<Rightarrow> (INVALID_HANDLE_VALUE, set_win_error e w1)
     | (Inr _, w1) \<Rightarrow>
         (case new_handle p w1 of
            (h, w2) \<Rightarrow>
              (h, if h \<noteq> INVALID_HANDLE_VALUE \<and> disposition = CREATE_NEW
                  then w2\<lparr>nodes := (nodes w2)(p \<mapsto> Regular [] None)\<rparr> else w2)))"

definition win_write :: "handle \<Rightarrow> bytes \<Rightarrow> win_world \<Rightarrow> (io_error + unit) \<times> win_world" where
  "win_write h d =
     fs_call (\<lambda>w.
       case win_opened h w of
         None \<Rightarrow> (Inl (os_error 6), w)
       | Some p \<Rightarrow>
           (case nodes w p of
              Some (Regular bs t) \<Rightarrow> (Inr (), w\<lparr>nodes := (nodes w)(p \<mapsto> Regular (bs @ d) t)\<rparr>)
            | _ \<Rightarrow> (Inl (os_error 5), w)))"

definition win_set_time :: "handle \<Rightarrow> u32 \<times> u32 \<Rightarrow> win_world \<Rightarrow> win_bool \<times> win_world" where
  "win_set_time h ft =
     win_call (\<lambda>w.
       case win_opened h w of
         None \<Rightarrow> (Inl (os_error 6), w)
       | Some p \<Rightarrow> (Inr (), w\<lparr>nodes := (nodes w)(p := map_option (touch (file_time_value ft)) (nodes w p))\<rparr>))"

definition win_move :: "u16 list \<Rightarrow> u16 list \<Rightarrow> u32 \<Rightarrow> win_world \<Rightarrow> win_bool \<times> win_world" where
  "win_move u v flags =
     win_call (\<lambda>w.
       let src = win_resolve u; dst = win_resolve v in
       if nodes w src = None then (Inl not_found, w)
       else if nodes w dst \<noteq> None \<and> and flags MOVEFILE_REPLACE_EXISTING = 0 then (Inl already_there, w)
       else if nodes w dst = Some Directory then (Inl (os_error 5), w)
       else (Inr (), w\<lparr>nodes := (nodes w)(dst := nodes w src, src := None)\<rparr>))"

definition win_delete :: "u16 list \<Rightarrow> win_world \<Rightarrow> win_bool \<times> win_world" where
  "win_delete u =
     win_call (\<lambda>w.
       case nodes w (win_resolve u) of
         None \<Rightarrow> (Inl not_found, w)
       | Some Directory \<Rightarrow> (Inl (os_error 5), w)
       | Some _ \<Rightarrow> (Inr (), w\<lparr>nodes := (nodes w)(win_resolve u := None)\<rparr>))"

definition win_fill :: "nat \<Rightarrow> win_world \<Rightarrow> (getrandom_error + bytes) \<times> win_world" where
  "win_fill n w =
    (case win_entropy (ext w) of
       [] \<Rightarrow> (Inl 38, w)
     | bs # rest \<Rightarrow> (Inr (take n (bs @ replicate n 0)), w\<lparr>ext := (ext w)\<lparr>win_entropy := rest\<rparr>\<rparr>))"

definition win_list :: "path \<Rightarrow> win_world \<Rightarrow> (io_error + (io_error + string \<times> path) list) \<times> win_world" where
  "win_list d =
     fs_call (\<lambda>w. (Inr (map (\<lambda>name. Inr (name, join d (relative name)))
       (filter (\<lambda>name. nodes w (join d (relative name)) \<noteq> None) (win_names (ext w)))), w))"

definition win_absolute :: "path \<Rightarrow> win_world \<Rightarrow> (io_error + path) \<times> win_world" where
  "win_absolute p = fs_call (\<lambda>w. (Inr (if is_absolute p then p else join (cwd w) p), w))"

definition win_ops :: "win win32" where
  "win_ops = \<lparr>encode_wide = win_encode, absolute_path = win_absolute, create_file = win_create, write_handle = win_write,
     flush_file_buffers = (\<lambda>h. win_call (\<lambda>w. (Inr (), w))), set_file_time = win_set_time,
     close_handle = (\<lambda>h w. w\<lparr>ext := (ext w)\<lparr>handles_open := filter (\<lambda>x. fst x \<noteq> h) (handles_open (ext w))\<rparr>\<rparr>),
     move_file_ex = win_move, delete_file_w = win_delete, last_os_error = (\<lambda>w. win_error (ext w)),
     system_now = (\<lambda>w. (wall_clock (ext w), w)), win_random = win_fill, read_dir = win_list\<rparr>"

lemmas win_defs = win_create_def win_write_def win_set_time_def win_move_def win_delete_def win_fill_def win_list_def
  win_absolute_def win_call_def new_handle_def set_win_error_def win_opened_def already_there_def

lemma win_ops_simps [simp]:
  "encode_wide win_ops = win_encode" "absolute_path win_ops = win_absolute" "create_file win_ops = win_create" "write_handle win_ops = win_write"
  "flush_file_buffers win_ops h = win_call (\<lambda>w. (Inr (), w))" "set_file_time win_ops = win_set_time"
  "close_handle win_ops h w = w\<lparr>ext := (ext w)\<lparr>handles_open := filter (\<lambda>x. fst x \<noteq> h) (handles_open (ext w))\<rparr>\<rparr>"
  "move_file_ex win_ops = win_move" "delete_file_w win_ops = win_delete" "last_os_error win_ops w = win_error (ext w)"
  "system_now win_ops w = (wall_clock (ext w), w)" "win_random win_ops = win_fill" "read_dir win_ops = win_list"
  by (simp_all add: win_ops_def)

text \<open>Either the scheduled failure or the body runs.\<close>

lemma fs_call_E:
  assumes "fs_call body w = (x, w')"
  obtains code where "x = Inl (os_error code)" "w' = w\<lparr>faults := tl (faults w)\<rparr>"
  | fs where "body (w\<lparr>faults := fs\<rparr>) = (x, w')"
  using fs_call_cases [OF assms] by blast

interpretation win: win32_spec win_ops win_dir win_opened True
proof
  fix n w rnd w'
  assume "win_random win_ops n w = (rnd, w')"
  then show "nodes w' = nodes w \<and> (\<forall>bs. rnd = Inr bs \<longrightarrow> length bs = n)"
    by (auto simp: win_fill_def split: list.splits)
next
  fix root w resolved w'
  assume "absolute_path win_ops root w = (resolved, w')"
  then show "nodes w' = nodes w" by (auto simp: win_absolute_def elim!: fs_call_E)
next
  fix w now w'
  assume "system_now win_ops w = (now, w')"
  then show "nodes w' = nodes w" by simp
next
  fix name w w'
  assume n: "portable name" and c: "create_file win_ops (wide win_ops (join win_dir (relative name))) GENERIC_WRITE 0 CREATE_NEW
        WRITE_THROUGH_FILE w = (INVALID_HANDLE_VALUE, w')"
  then show "nodes w' = nodes w"
    by (auto simp: win_create_def WRITE_THROUGH_FILE_def FILE_FLAG_BACKUP_SEMANTICS_def Let_def set_win_error_def new_handle_def
        split: prod.splits sum.splits if_splits elim!: fs_call_E)
next
  fix name w h w'
  assume n: "portable name" and c: "create_file win_ops (wide win_ops (join win_dir (relative name))) GENERIC_WRITE 0 CREATE_NEW
        WRITE_THROUGH_FILE w = (h, w')" and h: "h \<noteq> INVALID_HANDLE_VALUE"
  then show "nodes w (join win_dir (relative name)) = None
        \<and> (\<exists>t. nodes w' = (nodes w)(join win_dir (relative name) \<mapsto> Regular [] t)) \<and> win_opened h w' = Some (join win_dir (relative name))"
    by (auto simp: win_create_def WRITE_THROUGH_FILE_def FILE_FLAG_BACKUP_SEMANTICS_def Let_def set_win_error_def new_handle_def win_opened_def
        split: prod.splits sum.splits if_splits elim!: fs_call_E) (rule exI, rule refl)
next
  fix name w w'
  assume n: "portable name" and c: "create_file win_ops (wide win_ops (join win_dir (relative name)))
        (or GENERIC_WRITE FILE_WRITE_ATTRIBUTES) 0 OPEN_EXISTING WRITE_THROUGH_FILE w = (INVALID_HANDLE_VALUE, w')"
  then show "nodes w' = nodes w \<and> (kind (last_os_error win_ops w') = NotFound \<longrightarrow> nodes w (join win_dir (relative name)) = None)"
    by (auto simp: win_create_def WRITE_THROUGH_FILE_def FILE_FLAG_BACKUP_SEMANTICS_def OPEN_EXISTING_def CREATE_NEW_def Let_def
        set_win_error_def new_handle_def split: prod.splits sum.splits if_splits option.splits node.splits elim!: fs_call_E)
next
  fix name w h w'
  assume n: "portable name" and c: "create_file win_ops (wide win_ops (join win_dir (relative name)))
        (or GENERIC_WRITE FILE_WRITE_ATTRIBUTES) 0 OPEN_EXISTING WRITE_THROUGH_FILE w = (h, w')" and h: "h \<noteq> INVALID_HANDLE_VALUE"
  then show "nodes w' = nodes w \<and> nodes w (join win_dir (relative name)) \<noteq> None \<and> win_opened h w' = Some (join win_dir (relative name))"
    by (auto simp: win_create_def WRITE_THROUGH_FILE_def FILE_FLAG_BACKUP_SEMANTICS_def OPEN_EXISTING_def CREATE_NEW_def Let_def
        set_win_error_def new_handle_def win_opened_def split: prod.splits sum.splits if_splits option.splits node.splits elim!: fs_call_E)
next
  fix w h w'
  assume "create_file win_ops (wide win_ops win_dir) GENERIC_WRITE FILE_SHARE_ALL OPEN_EXISTING FILE_FLAG_BACKUP_SEMANTICS w = (h, w')"
  then show "nodes w' = nodes w" by (auto simp: win_create_def new_handle_def set_win_error_def Let_def split: if_splits)
next
  fix h d w e w'
  assume "write_handle win_ops h d w = (Inl e, w')"
  then show "kind e \<noteq> AlreadyExists"
    by (auto simp: win_write_def split: option.splits node.splits elim!: fs_call_E)
next
  fix h w p bs t d x w'
  assume "win_opened h w = Some p" "nodes w p = Some (Regular bs t)" "write_handle win_ops h d w = (x, w')"
  then show "win_opened h w' = Some p \<and> (\<exists>bs' t'. nodes w' = (nodes w)(p \<mapsto> Regular bs' t') \<and> (isl x \<or> bs' = bs @ d))"
    by (auto simp: win_write_def win_opened_def split: option.splits node.splits elim!: fs_call_E)
      (rule exI [of _ bs], rule exI [of _ t], simp add: fun_upd_idem, rule exI [of _ t], simp)
next
  fix h w r w'
  assume "flush_file_buffers win_ops h w = (r, w')"
  then show "nodes w' = nodes w \<and> (r = 0 \<longrightarrow> kind (last_os_error win_ops w') \<notin> {AlreadyExists, NotFound})"
    by (auto simp: win_call_def set_win_error_def split: prod.splits sum.splits elim!: fs_call_E)
next
  fix h w p ft r w'
  assume "win_opened h w = Some p" "set_file_time win_ops h ft w = (r, w')"
  then show "nodes w' = (if r = 0 then nodes w else (nodes w)(p := map_option (touch (file_time_value ft)) (nodes w p)))
      \<and> (r = 0 \<longrightarrow> kind (last_os_error win_ops w') \<noteq> NotFound)"
    by (auto simp: win_set_time_def win_call_def set_win_error_def win_opened_def split: prod.splits sum.splits elim!: fs_call_E)
next
  fix h w
  show "nodes (close_handle win_ops h w) = nodes w" by simp
next
  fix a b flags w w'
  assume "portable a" "portable b" "move_file_ex win_ops (wide win_ops (join win_dir (relative a)))
      (wide win_ops (join win_dir (relative b))) flags w = (0, w')"
  then show "nodes w' = nodes w \<and> (kind (last_os_error win_ops w') = NotFound \<longrightarrow> nodes w (join win_dir (relative a)) = None)
        \<and> (kind (last_os_error win_ops w') = AlreadyExists \<longrightarrow> nodes w (join win_dir (relative b)) \<noteq> None)
        \<or> \<not> True \<and> nodes w (join win_dir (relative a)) \<noteq> None
        \<and> nodes w' = (nodes w)(join win_dir (relative b) := nodes w (join win_dir (relative a)), join win_dir (relative a) := None)"
    by (auto simp: win_move_def win_call_def set_win_error_def already_there_def Let_def
        split: prod.splits sum.splits if_splits elim!: fs_call_E)
next
  fix a b flags w r w'
  assume "portable a" "portable b" "a \<noteq> b" "move_file_ex win_ops (wide win_ops (join win_dir (relative a)))
      (wide win_ops (join win_dir (relative b))) flags w = (r, w')" "r \<noteq> 0"
  then show "nodes w (join win_dir (relative a)) \<noteq> None
        \<and> (nodes w (join win_dir (relative b)) = None \<or> and flags MOVEFILE_REPLACE_EXISTING \<noteq> 0)
        \<and> nodes w' = (nodes w)(join win_dir (relative b) := nodes w (join win_dir (relative a)), join win_dir (relative a) := None)"
    by (auto simp: win_move_def win_call_def set_win_error_def already_there_def Let_def
        split: prod.splits sum.splits if_splits elim!: fs_call_E)
next
  fix a w r w'
  assume "portable a" "delete_file_w win_ops (wide win_ops (join win_dir (relative a))) w = (r, w')"
  then show "nodes w' = (if r = 0 then nodes w else (nodes w)(join win_dir (relative a) := None))"
    by (auto simp: win_delete_def win_call_def set_win_error_def
        split: prod.splits sum.splits option.splits node.splits elim!: fs_call_E)
next
  fix w listing w'
  assume "read_dir win_ops win_dir w = (listing, w')"
  then show "nodes w' = nodes w" by (auto simp: win_list_def elim!: fs_call_E)
next
  fix w es w' name p
  assume "read_dir win_ops win_dir w = (Inr es, w')" "Inr (name, p) \<in> set es" "portable name"
  then show "p = join win_dir (relative name)" by (auto simp: win_list_def elim!: fs_call_E)
qed

interpretation win_store: windows_store win_ops sample_config win_opened crc32c_reference blake3_reference
  by (intro windows_store.intro windows_files.intro win.win32_spec_axioms example_store.store_names_axioms)

interpretation win_model: windows_model win_ops sample_config win_opened crc32c_reference blake3_reference "2 ^ 64 - 1"
  by (intro windows_model.intro win_store.windows_store_axioms example_store.store_loads_axioms)

section \<open>A platform with late failures\<close>

text \<open>The same platform, except that every move it makes is reported as failed: nothing documented
  excludes it, and it has the contract without \<open>definite\<close>.\<close>

definition win_late_move :: "u16 list \<Rightarrow> u16 list \<Rightarrow> u32 \<Rightarrow> win_world \<Rightarrow> win_bool \<times> win_world" where
  "win_late_move u v flags w =
    (case win_move u v flags w of (b, w') \<Rightarrow> (0, if b = 0 then w' else set_win_error (os_error 1117) w'))"

definition win_late_ops :: "win win32" where
  "win_late_ops = win_ops\<lparr>move_file_ex := win_late_move\<rparr>"

lemma late_ops:
  "encode_wide win_late_ops = encode_wide win_ops" "absolute_path win_late_ops = absolute_path win_ops"
  "create_file win_late_ops = create_file win_ops" "write_handle win_late_ops = write_handle win_ops"
  "flush_file_buffers win_late_ops = flush_file_buffers win_ops" "set_file_time win_late_ops = set_file_time win_ops"
  "close_handle win_late_ops = close_handle win_ops" "move_file_ex win_late_ops = win_late_move"
  "delete_file_w win_late_ops = delete_file_w win_ops" "last_os_error win_late_ops = last_os_error win_ops"
  "system_now win_late_ops = system_now win_ops" "win_random win_late_ops = win_random win_ops" "read_dir win_late_ops = read_dir win_ops"
  by (simp_all add: win_late_ops_def)

interpretation win_late: win32_spec win_late_ops win_dir win_opened False
proof (unfold_locales, unfold late_ops)
  fix a b flags w w'
  assume p: "portable a" "portable b" and m: "win_late_move (wide win_ops (join win_dir (relative a)))
      (wide win_ops (join win_dir (relative b))) flags w = (0, w')"
  obtain r w1 where r: "move_file_ex win_ops (wide win_ops (join win_dir (relative a)))
      (wide win_ops (join win_dir (relative b))) flags w = (r, w1)" by fastforce
  show "nodes w' = nodes w \<and> (kind (last_os_error win_ops w') = NotFound \<longrightarrow> nodes w (join win_dir (relative a)) = None)
        \<and> (kind (last_os_error win_ops w') = AlreadyExists \<longrightarrow> nodes w (join win_dir (relative b)) \<noteq> None)
        \<or> \<not> False \<and> nodes w (join win_dir (relative a)) \<noteq> None
        \<and> nodes w' = (nodes w)(join win_dir (relative b) := nodes w (join win_dir (relative a)), join win_dir (relative a) := None)"
  proof (cases "r = 0")
    case True
    with m r win.move_fail [OF p r [unfolded True]] show ?thesis by (simp add: win_late_move_def)
  next
    case False
    with r p have "nodes w (join win_dir (relative a)) \<noteq> None \<and> nodes w1 = (nodes w)(join win_dir (relative b) :=
        nodes w (join win_dir (relative a)), join win_dir (relative a) := None)"
      by (auto simp: win_move_def win_call_def Let_def split: prod.splits sum.splits if_splits elim!: fs_call_E)
    moreover have "nodes w' = nodes w1" using m r False by (auto simp: win_late_move_def set_win_error_def)
    ultimately show ?thesis by simp
  qed
qed (fact win.random win.absolute_nodes win.now_nodes win.create_fail win.create_ok win.open_fail win.open_ok win.open_directory
    win.write_fail win.write_effect win.flush_effect win.set_time_effect win.close_nodes win.delete_effect win.read_dir_nodes
    win.read_dir_entries | simp add: win_late_move_def split: prod.splits)+

interpretation win_late_files: windows_files win_late_ops sample_config win_opened False crc32c_reference blake3_reference
  by (intro windows_files.intro win_late.win32_spec_axioms example_store.store_names_axioms)

section \<open>An example\<close>

definition win_example :: "node option \<Rightarrow> win_world" where
  "win_example n = \<lparr>nodes = (Map.empty(Path True [''root''] \<mapsto> Directory, win_dir \<mapsto> Directory))
       (worker_path blake3_reference sample_config example_key := n),
     faults = [], plans = [], cwd = Path True [],
     ext = \<lparr>handles_open = [], next_handle = 1, wall_clock = 1000000 * 10 ^ 9, win_entropy = [replicate 32 0xab],
       win_names = [], win_error = not_found\<rparr>\<rparr>"

abbreviation win_ident :: string where
  "win_ident \<equiv> hex (replicate 32 0xab)"

abbreviation win_hash :: string where
  "win_hash \<equiv> b3_to_hex blake3_reference example_key"

lemma win_hash64: "hex64 win_hash" and win_ident64: "hex64 win_ident"
  by (rule win_store.key_hex64, simp) (simp add: hex64_def length_hex set_hex)

lemma win_identifier:
  "win_entropy (ext w) = [replicate 32 0xab] \<Longrightarrow>
   random_identifier win_fill w = (Inr win_ident, w\<lparr>ext := (ext w)\<lparr>win_entropy := []\<rparr>\<rparr>)"
  by (simp add: random_identifier_hex win_fill_def)

lemma win_other_names [simp]:
  "join win_dir (relative x) \<noteq> win_dir" "join win_dir (relative x) \<noteq> Path True [''root'']"
  by (simp_all add: join_def sample_config_def)

lemmas win_run = win_identifier win_example_def Let_def win_store.staging_names win_store.path_of_key
  win_create_def WRITE_THROUGH_FILE_def FILE_FLAG_BACKUP_SEMANTICS_def fs_call_def new_handle_def INVALID_HANDLE_VALUE_def
  in_directory_inj win_write_def win_opened_def win_call_def win_move_def win_delete_def win_set_time_def
  move_file_def delete_file_def sync_windows_directory_def

lemma win_example_save:
  "\<exists>w'. windows_save_blob win_ops crc32c_reference sample_config (worker_path blake3_reference sample_config example_key) [7]
     (win_example None) = Some (Inr (), w')"
proof -
  have "encode_envelope crc32c_reference (format sample_config) [7] (maximum sample_config) \<noteq> Inl e" for e
    by (simp add: reference.encode_envelope_eq sample_config_def)
  then obtain h ck where parts: "envelope_parts crc32c_reference (format sample_config) [7] (maximum sample_config) = Inr (h, ck)"
    by (fastforce simp: encode_envelope_def split: sum.splits)
  obtain w' where "windows_save_round win_ops sample_config (worker_path blake3_reference sample_config example_key) win_hash h [7] ck
      (win_example None) = Inl (Inr (), w')"
    using win_store.portable_names [OF win_hash64 win_ident64]
    by (simp add: windows_save_round_def create_windows_staging_def create_new_def finish_staging_def commit_windows_staging_def win_run)
  with retry_returns show ?thesis by (fastforce simp: windows_save_blob_def parts win_store.stem)
qed

lemma win_late_save:
  "\<exists>e w'. windows_save_blob win_late_ops crc32c_reference sample_config (worker_path blake3_reference sample_config example_key) [7]
     (win_example None) = Some (Inl (AtomicCommit e), w')
   \<and> nodes w' (worker_path blake3_reference sample_config example_key) =
       Some (Regular (envelope_layout crc32c_reference (format sample_config) [7]) None)"
proof -
  have "encode_envelope crc32c_reference (format sample_config) [7] (maximum sample_config) =
      Inr (envelope_layout crc32c_reference (format sample_config) [7])"
    by (simp add: reference.encode_envelope_eq sample_config_def)
  then obtain h ck where parts: "envelope_parts crc32c_reference (format sample_config) [7] (maximum sample_config) = Inr (h, ck)"
      and env: "h @ [7] @ ck = envelope_layout crc32c_reference (format sample_config) [7]"
    by (fastforce simp: encode_envelope_def split: sum.splits)
  obtain e w' where "windows_save_round win_late_ops sample_config (worker_path blake3_reference sample_config example_key) win_hash h [7] ck
      (win_example None) = Inl (Inl (AtomicCommit e), w')"
    and "nodes w' (worker_path blake3_reference sample_config example_key) = Some (Regular (h @ [7] @ ck) None)"
    using win_store.portable_names [OF win_hash64 win_ident64]
    by (simp add: windows_save_round_def create_windows_staging_def create_new_def finish_staging_def commit_windows_staging_def
        win_late_move_def late_ops win_run set_win_error_def os_error_def
        ERROR_FILE_EXISTS_def ERROR_ALREADY_EXISTS_def)
  with retry_returns env show ?thesis by (fastforce simp: windows_save_blob_def parts win_store.stem)
qed

lemma win_example_clear:
  "\<exists>w'. windows_clear_blob win_ops sample_config (worker_path blake3_reference sample_config example_key)
     (win_example (Some (Regular [1] None))) = Some (Inr (), w')"
proof -
  have "file_time_ticks 1000000 0 \<noteq> None"
    by (simp add: file_time_ticks_def checked_mul_def checked_add_def HUNDRED_NS_PER_SECOND_def WINDOWS_EPOCH_OFFSET_100NS_def)
  then obtain t where t: "file_time_ticks 1000000 0 = Some t" by blast
  note names = win_store.portable_names [OF win_hash64 win_ident64]
  obtain w1 where w1: "refresh_windows_clear_age win_ops (worker_path blake3_reference sample_config example_key)
      (win_example (Some (Regular [1] None))) = (Inr (), w1)" and "faults w1 = []" "ext w1 = (ext (win_example None))\<lparr>next_handle := 2\<rparr>"
      "nodes w1 = (nodes (win_example None))(worker_path blake3_reference sample_config example_key \<mapsto>
         Regular [1] (Some (file_time_value (filetime_of t))))"
    using names(1)
    by (simp add: refresh_windows_clear_age_def since_epoch_def t win_run OPEN_EXISTING_def CREATE_NEW_def touch_def)
  then have "\<exists>w'. windows_clear_round win_ops sample_config (worker_path blake3_reference sample_config example_key) win_hash w1 = Inl (Inr (), w')"
    using names by (simp add: windows_clear_round_def win_run)
  with w1 retry_returns show ?thesis by (fastforce simp: windows_clear_blob_def win_store.stem)
qed

text \<open>A clear whose last step, the deletion of its staging file, fails.\<close>

definition win_stuck :: win_world where
  "win_stuck = (let w = win_example (Some (Regular [1] None))
     in w\<lparr>faults := [None, None, None, None, None, Some 5],
          ext := (ext w)\<lparr>win_names := [win_hash @ filename_suffix (format sample_config) @ ''.tmp-v1.clear.'' @ win_ident]\<rparr>\<rparr>)"

lemma win_stuck_clear:
  "\<exists>e w'. windows_clear_blob win_ops sample_config (worker_path blake3_reference sample_config example_key) win_stuck
       = Some (Inl (Io RemoveTemporaryFile e), w')
     \<and> nodes w' (staging_path sample_config win_hash ''clear'' win_ident) \<noteq> None \<and> wall_clock (ext w') = 1000000 * 10 ^ 9"
proof -
  have "file_time_ticks 1000000 0 \<noteq> None"
    by (simp add: file_time_ticks_def checked_mul_def checked_add_def HUNDRED_NS_PER_SECOND_def WINDOWS_EPOCH_OFFSET_100NS_def)
  then obtain t where t: "file_time_ticks 1000000 0 = Some t" by blast
  note names = win_store.portable_names [OF win_hash64 win_ident64]
  obtain w1 where w1: "refresh_windows_clear_age win_ops (worker_path blake3_reference sample_config example_key) win_stuck = (Inr (), w1)"
      "faults w1 = [None, None, Some 5]" "ext w1 = (ext win_stuck)\<lparr>next_handle := 2\<rparr>"
      "nodes w1 = (nodes win_stuck)(worker_path blake3_reference sample_config example_key \<mapsto>
         Regular [1] (Some (file_time_value (filetime_of t))))"
    using names(1)
    by (simp add: refresh_windows_clear_age_def since_epoch_def t win_run OPEN_EXISTING_def CREATE_NEW_def touch_def win_stuck_def)
  then have "\<exists>e w'. windows_clear_round win_ops sample_config (worker_path blake3_reference sample_config example_key) win_hash w1
       = Inl (Inl (Io RemoveTemporaryFile e), w')
     \<and> nodes w' (staging_path sample_config win_hash ''clear'' win_ident) \<noteq> None \<and> wall_clock (ext w') = 1000000 * 10 ^ 9"
    using names by (simp add: windows_clear_round_def win_run win_stuck_def set_win_error_def)
  with w1 retry_returns show ?thesis by (fastforce simp: windows_clear_blob_def win_store.stem)
qed

lemma win_example_quarantine:
  "\<exists>q w'. windows_quarantine_blob win_ops sample_config (worker_path blake3_reference sample_config example_key)
     (win_example (Some (Regular [1] None))) = Some (Inr q, w')"
proof -
  have "\<exists>q w'. windows_quarantine_round win_ops sample_config (worker_path blake3_reference sample_config example_key) win_hash
      (win_example (Some (Regular [1] None))) = Inl (Inr q, w')"
    using win_store.portable_names [OF win_hash64 win_ident64]
    by (simp add: windows_quarantine_round_def win_run)
  with retry_returns show ?thesis by (fastforce simp: windows_quarantine_blob_def win_store.stem)
qed

end
