(* ===== verification/Windows_Props.thy ===== *)
theory Windows_Props
  imports Windows_Instance Backends
begin

text \<open>
  The properties of the Windows backend. Every statement is about the call returning: what the files
  are then, whatever failed on the way.
\<close>

section \<open>Saving\<close>

text \<open>C14. A save of either kind that returns on Windows leaves at the canonical path the old contents or the
  complete new envelope and changes no other published file. Success means the new envelope. An error of the
  commit or of the final directory synchronization leaves either of the two, any other error the old contents;
  only if the platform promises that a move that fails changes nothing (\<open>definite\<close>) does a commit error leave the old
  contents too. A payload above the maximum is refused with nothing touched, and a streaming save stores only a
  complete input of exactly the declared length.\<close>

theorem windows_save_is_old_or_new:
  assumes "windows_files w32 config opened definite c b3" and "length k = 32"
  defines "path \<equiv> worker_path b3 config k"
  shows "(windows_save_blob w32 c config path payload w = Some (res, w') \<longrightarrow>
      (if length payload \<le> unat (maximum config)
       then windows_save_effect definite (temporary config) path (envelope_layout c (format config) payload) w res w'
       else w' = w \<and> isl res))
    \<and> (windows_save_blob_from_receiver w32 c config path declared chunks w = Some (res, w') \<and> vec_chunks chunks \<longrightarrow>
      agree (temporary config) w w' \<and> isl res
      \<or> (\<exists>p. complete_input config declared chunks p
          \<and> windows_save_effect definite (temporary config) path (envelope_layout c (format config) p) w res w'))"
  using windows_files.save_effect [OF assms(1,2)] windows_files.stream_effect [OF assms(1,2)]
  unfolding path_def by blast

theorem windows_save_is_old_or_new_witness:
  "(\<exists>w' :: win_world. stored (temporary sample_config) (worker_path blake3_reference sample_config example_key)
     (envelope_layout crc32c_reference (format sample_config) [7]) (win_example None) w')
   \<and> (\<exists>e w'. windows_save_blob win_late_ops crc32c_reference sample_config (worker_path blake3_reference sample_config example_key) [7]
       (win_example None) = Some (Inl (AtomicCommit e), w')
     \<and> stored (temporary sample_config) (worker_path blake3_reference sample_config example_key)
         (envelope_layout crc32c_reference (format sample_config) [7]) (win_example None) w')"
proof
  have len: "length [7 :: u8] \<le> unat (maximum sample_config)" by (simp add: sample_config_def)
  obtain w1 where "windows_save_blob win_ops crc32c_reference sample_config (worker_path blake3_reference sample_config example_key) [7]
     (win_example None) = Some (Inr (), w1)" using win_example_save ..
  from windows_save_is_old_or_new [OF win_store.windows_files_axioms example_key_length, THEN conjunct1, rule_format, OF this] len
  show "\<exists>w' :: win_world. stored (temporary sample_config) (worker_path blake3_reference sample_config example_key)
     (envelope_layout crc32c_reference (format sample_config) [7]) (win_example None) w'" by (auto simp: windows_save_effect_def)
  obtain e w2 where late: "windows_save_blob win_late_ops crc32c_reference sample_config (worker_path blake3_reference sample_config example_key) [7]
       (win_example None) = Some (Inl (AtomicCommit e), w2)"
    and new: "nodes w2 (worker_path blake3_reference sample_config example_key) =
       Some (Regular (envelope_layout crc32c_reference (format sample_config) [7]) None)"
    using win_late_save by blast
  have old: "nodes (win_example None) (worker_path blake3_reference sample_config example_key) = None"
    by (simp add: win_example_def)
  from windows_save_is_old_or_new [OF win_late_files.windows_files_axioms example_key_length, THEN conjunct1, rule_format, OF late] len
  have "agree (temporary sample_config) (win_example None) w2
      \<or> stored (temporary sample_config) (worker_path blake3_reference sample_config example_key)
         (envelope_layout crc32c_reference (format sample_config) [7]) (win_example None) w2" by (auto simp: windows_save_effect_def)
  moreover have "\<not> agree (temporary sample_config) (win_example None) w2"
    using new old win_store.published_not_temporary(1) [OF example_key_length] by (auto simp: agree_def)
  ultimately show "\<exists>e w'. windows_save_blob win_late_ops crc32c_reference sample_config (worker_path blake3_reference sample_config example_key) [7]
       (win_example None) = Some (Inl (AtomicCommit e), w')
     \<and> stored (temporary sample_config) (worker_path blake3_reference sample_config example_key)
         (envelope_layout crc32c_reference (format sample_config) [7]) (win_example None) w'" using late by blast
qed

section \<open>Clearing and quarantine\<close>



section \<open>Cleanup\<close>

text \<open>C15. A cleanup on Windows removes only regular files with a staging name of the store that were last written at
  least the minimum age before the call, so never a published blob or a quarantined file; a file it
  reports as removed is gone; and every staging name of the listing is reported exactly once, as
  removed, skipped or failed.\<close>

theorem windows_cleanup_removes_only_stale_staging:
  assumes "windows_store w32 config opened c b3"
    and "windows_cleanup_stale_files w32 config minimum_age w = (Inr report, w')"
  shows "(\<forall>q. nodes w' q = nodes w q \<or> nodes w' q = None \<and> swept config (fst (system_now w32 w)) minimum_age report w q)
    \<and> (\<forall>name \<in> set (removed report). nodes w' (join (namespace config) (relative name)) = None)
    \<and> (\<exists>es w2. fst (read_dir w32 (namespace config) w2) = Inr es \<and> nodes w2 = nodes w
        \<and> mset (removed report) + mset (skipped report) + mset (map failed_identifier (failures report))
          = mset (concat (map (reported_name config) es)))
    \<and> (length k = 32 \<longrightarrow> nodes w' (worker_path b3 config k) = nodes w (worker_path b3 config k)
        \<and> (hex64 ident \<longrightarrow> nodes w' (quarantine_destination config (b3_to_hex b3 k) ident)
             = nodes w (quarantine_destination config (b3_to_hex b3 k) ident)))"
proof -
  note eff = windows_store.cleanup_effect [OF assms, simplified]
  have "nodes w' q = nodes w q" if "\<not> temporary config q" for q
    using eff that by (auto simp: swept_def temporary_def)
  with eff windows_files.published_not_temporary [OF windows_store.axioms [OF assms(1)]] show ?thesis by (auto simp: reported_def)
qed

definition win_stale :: win_world where
  "win_stale = (let w = win_example (Some (Regular [1] (Some 0))); name = win_hash @ filename_suffix (format sample_config) @ ''.tmp-v1.save.'' @ win_ident
     in w\<lparr>nodes := (nodes w)(join win_dir (relative name) \<mapsto> Regular [2] (Some 0)), ext := (ext w)\<lparr>win_names := [name]\<rparr>\<rparr>)"

theorem windows_cleanup_removes_only_stale_staging_witness:
  "\<exists>(report :: cleanup_report) (w' :: win_world). removed report = [win_hash @ filename_suffix (format sample_config) @ ''.tmp-v1.save.'' @ win_ident]
     \<and> nodes w' (join win_dir (relative (win_hash @ filename_suffix (format sample_config) @ ''.tmp-v1.save.'' @ win_ident))) = None
     \<and> nodes w' (worker_path blake3_reference sample_config example_key) = Some (Regular [1] (Some 0))"
proof -
  let ?n = "win_hash @ filename_suffix (format sample_config) @ ''.tmp-v1.save.'' @ win_ident"
  have "?n = win_hash @ filename_suffix (format sample_config) @ ''.tmp-v1.'' @ ''save'' @ ''.'' @ win_ident" by simp
  then have owned: "is_owned_temporary_filename ?n (filename_suffix (format sample_config))"
    unfolding owned_iff [OF win_store.suffix_ok] using win_hash64 win_ident64 by blast
  have blob: "nodes win_stale (worker_path blake3_reference sample_config example_key) = Some (Regular [1] (Some 0))"
    by (simp add: win_stale_def Let_def win_example_def win_store.path_of_key in_directory_inj)
  obtain report w' where r: "windows_cleanup_stale_files win_ops sample_config 1 win_stale = (Inr report, w')" "removed report = [?n]"
    using owned win_store.portable_names(2) [OF win_hash64 win_ident64]
    by (simp add: windows_cleanup_stale_files_def win_stale_def win_list_def win_run fs_symlink_metadata_def old_enough_def
        cleanup_report_default_def)
  from windows_cleanup_removes_only_stale_staging [OF win_store.windows_store_axioms r(1), of example_key] r(2) blob
  have "removed report = [?n] \<and> nodes w' (join win_dir (relative ?n)) = None
      \<and> nodes w' (worker_path blake3_reference sample_config example_key) = Some (Regular [1] (Some 0))" by auto
  then show ?thesis by blast
qed

section \<open>Names and ages\<close>



section \<open>Refinement\<close>


text \<open>A store opened on an empty root, and the first save.\<close>

definition win_root :: win_world where
  "win_root = (let w = win_example None in w\<lparr>nodes := (nodes w)(win_dir := None)\<rparr>)"

lemma win_root_simps [simp]:
  "faults win_root = []" "plans win_root = []" "cwd win_root = Path True []"
  "nodes win_root (Path True [''root'']) = Some Directory" "nodes win_root (Path True [''root'', ''ns'']) = None"
  "nodes win_root (worker_path blake3_reference sample_config k) = None"
  by (simp_all add: win_root_def win_example_def Let_def worker_path_def sample_config_def join_def)


section \<open>The engine on Windows\<close>

text \<open>The executable platform has the documented behaviour, so what is shown of the engine and the facades
  applies to it.\<close>

lemma windows_documented:
  "documented \<lparr>crates = \<lparr>env_usize_max = 2 ^ 64 - 1, env_crc = crc32c_reference, env_backend = Windows win_ops\<rparr>,
     hashing = blake3_reference, os_name = ''windows'', map_order = map fst\<rparr> sample_config"
  unfolding documented_def using win_model.windows_model_axioms by auto

end
