(* ===== verification/Spec2Isabelle.thy ===== *)
theory Spec2Isabelle
  imports Envelope_Props Unix_Props Engine_Props Facade_Props Windows_Props
begin

text \<open>
  Verification of the crate \<^verbatim>\<open>atomic-blob-store\<close>: a store that keeps opaque byte strings under opaque
  keys, one file per key, in one directory of a local file system.

  \<^bold>\<open>The program.\<close> A blob lies in a file whose name is the BLAKE3 hash of its key in hexadecimal with a
  configured suffix, in an envelope of eight domain bytes, a version, a length, the payload and a
  CRC-32C (\<^verbatim>\<open>src/format.rs\<close>, \<^verbatim>\<open>src/path.rs\<close>). The file system backend (\<^verbatim>\<open>src/filesystem/mod.rs\<close>) replaces,
  reads, removes and sets aside such files, on Unix or on Windows. The engine (\<^verbatim>\<open>src/engine/\<close>) is one
  coordinator thread and a bounded pool of workers: the calls of the clients send requests to the
  coordinator, which keeps a queue per key, hands the head of a queue to a worker when the key is idle and a
  worker is free, runs cleanup alone, and orders flushes and closes as barriers behind older requests.
  Two facades (\<^verbatim>\<open>src/blocking.rs\<close>, \<^verbatim>\<open>src/tokio.rs\<close>) wait for the replies and move the data of streaming calls.

  \<^bold>\<open>Theories and sources.\<close>
  \<^item> \<open>Blob_Prelude\<close>: words, bytes, big-endian encodings, checked arithmetic and the facts on them that all share.
  \<^item> \<open>Blob_Config\<close> (\<^verbatim>\<open>config.rs\<close>), \<open>Blob_Error\<close> (\<^verbatim>\<open>error.rs\<close>), \<open>Blob_Path\<close> (\<^verbatim>\<open>path.rs\<close>): options and their
    validation, results and errors, names and paths.
  \<^item> \<open>Envelope\<close>, \<open>Envelope_Facts\<close>, \<open>Envelope_Stream\<close> (\<^verbatim>\<open>format.rs\<close>): encoder, decoder, validator and streaming writer;
    \<open>Crc32c\<close>: an executable checksum; \<open>Envelope_Props\<close>: their properties.
  \<^item> \<open>File_World\<close>: the part of \<^verbatim>\<open>std::fs\<close> the code uses, over a map from paths to files with scheduled failures.
  \<^item> \<open>Unix_Store\<close> (the Unix half of \<^verbatim>\<open>filesystem/mod.rs\<close> and the loaders of \<^verbatim>\<open>format.rs\<close>), \<open>Unix_Load\<close>, \<open>Unix_Facts\<close>,
    \<open>Unix_Init\<close>: its facts; \<open>Posix\<close>, \<open>Blake3\<close>: executable crates; \<open>Unix_Props\<close>: the properties.
  \<^item> \<open>Windows_Store\<close> (the Windows half of \<^verbatim>\<open>filesystem/mod.rs\<close>), \<open>Windows_Facts\<close>, \<open>Windows_Effects\<close>: its facts;
    \<open>Windows_Instance\<close>: an executable platform; \<open>Windows_Props\<close>: the properties.
  \<^item> \<open>Operation\<close> (\<^verbatim>\<open>engine/operation.rs\<close>): the choice of a backend, running an operation and delivering its result;
    \<open>Store_Model\<close>: the abstract store, what the engine asks of a backend (\<open>backed_store\<close>) and sequences of operations;
    \<open>Unix_Model\<close>, \<open>Windows_Model\<close>: either backend provides it; \<open>Store_Instance\<close>: an instance.
  \<^item> \<open>Worker_Pool\<close> (\<^verbatim>\<open>engine/workers.rs\<close>); \<open>Scheduler\<close> (\<^verbatim>\<open>engine/scheduler.rs\<close>, \<^verbatim>\<open>event.rs\<close>, \<^verbatim>\<open>lifecycle.rs\<close>) with
    \<open>Scheduler_Facts\<close>, \<open>Scheduler_Arms\<close>, \<open>Scheduler_Progress\<close>, \<open>Scheduler_Account\<close>, \<open>Scheduler_Origin\<close>: the
    invariants every turn of the event loop keeps.
  \<^item> \<open>Engine\<close> (\<^verbatim>\<open>engine/mod.rs\<close>, \<^verbatim>\<open>engine/stream.rs\<close>): the handle, pending results and the transition system of clients,
    coordinator and workers, with \<open>Engine_Facts\<close>, \<open>Engine_Inv\<close>, \<open>Engine_Live\<close>, \<open>Registry\<close>, \<open>Engine_History\<close>: its
    invariant, its rest states and its histories; \<open>Backends\<close>: what is assumed of the code outside the repository;
    \<open>Engine_Example\<close>: a run; \<open>Engine_Props\<close>: the properties.
  \<^item> \<open>Facade\<close> (\<^verbatim>\<open>blocking.rs\<close>, \<^verbatim>\<open>tokio.rs\<close>), \<open>Facade_Facts\<close>, \<open>Facade_Live\<close>, \<open>Failures\<close> (the errors each
    operation can report), \<open>Facade_Props\<close>: the facades and their properties.

  \<^bold>\<open>State.\<close> A \<open>world\<close> has the files, the schedule of failures and segmentations, the current directory and the
  private state of the crates. A \<open>coordinator\<close> has the queues (an association list for the hash map, whose
  iteration order is the parameter \<open>order\<close>), the active keys, the pending barriers, the lifecycle, the pool, the
  inbox and the replies sent. An \<open>engine\<close> adds the thread, the jobs in the hands of workers, the files, and two
  histories no code reads: the requests made (the request number \<open>s\<close> has the reply channel \<open>s\<close>) and the
  operations finished.

  \<^bold>\<open>Interfaces.\<close> What is not in the repository is a parameter with a locale for its documented behaviour and an
  interpretation on executable definitions: \<open>crc32c_spec\<close>, \<open>blake3_spec\<close>, \<open>unix_ops_spec\<close> (\<^verbatim>\<open>atomic-write-file\<close>,
  \<^verbatim>\<open>rustix\<close>, \<^verbatim>\<open>getrandom\<close>), \<open>win32_spec\<close> (\<^verbatim>\<open>windows-sys\<close>, the clock, directory listings), \<open>writer\<close> (a \<^verbatim>\<open>Write\<close>
  of the caller). \<open>store_model\<close> and \<open>windows_model\<close> put them together for one configuration, and both are
  sublocales of \<open>backed_store\<close>, under which the engine and the facades are related to the abstract map. A
  contract says nothing about when a call fails, only what a failure leaves; every theorem holds for all
  failures unless it says otherwise. The parameter \<open>definite\<close> of \<open>win32_spec\<close> says whether a \<^verbatim>\<open>MoveFileExW\<close> that reports
  failure is known to have changed nothing. Nothing is documented to that end, and \<^verbatim>\<open>README.md\<close> calls a commit error ambiguous: the property
  of the Windows saves is shown with and without it (\<open>windows_files\<close>), with an instance of either kind. The other Windows properties, and what
  the engine and the facades show of that backend, are for definite moves (\<open>windows_store\<close>, \<open>windows_model\<close>).

  \<^bold>\<open>What is shown.\<close> Of the envelope: the decoder accepts exactly the documented layout, reports the first defect,
  agrees with the validator, and inverts the encoder, whatever the segmentation and the interruptions of the
  reads before the last byte; an interruption of the one read behind it, which the code does not repeat, is reported as a read error. Of either backend: a save leaves the old or the complete new file, a load returns only a stored
  payload and changes nothing, a clear and a quarantine touch only their blob, a Windows cleanup only stale
  staging files. Of the operations: on either backend they implement a map from key hashes to payloads; the backends
  differ only in the errors that may be reported after the change is made (\<open>late_save\<close>, \<open>late_clear\<close>). Of the engine, in
  every reachable state of every interleaving: its operations are a history of that map, in request order for every
  key, with the concurrency bound respected; every request is answered exactly once with its own
  result; a flush and a close are barriers; no panic or deadlock is reachable; the engine comes to rest, and then everything
  is answered. Of the facades: the waiting calls are linearisable, with the errors of their own operation, and those that do not stream return when the jobs do; a streaming
  save stores exactly its input, and a streaming load writes exactly the stored payload.

  \<^bold>\<open>Modelling choices.\<close>
  \<^item> Machine integers are words of their width; \<^verbatim>\<open>usize::MAX\<close> is a parameter where the code depends on it.
  \<^item> Memory is not modelled: an allocation succeeds. In particular \<^verbatim>\<open>vec![0; payload_len]\<close> of the decoder does, which in Rust panics when a configured
    maximum above \<^verbatim>\<open>isize::MAX\<close> lets a header declare such a length.
  \<^item> Loops over data are structural recursion. The retry loops that draw names until one is free are partial functions
    into \<open>option\<close>: \<open>None\<close> is not returning, and \<open>quarantine_returns\<close> says when the Unix one returns. The feeding loops end by a
    measure, the loops of the coordinator by a decreasing measure on what is queued. No fuel is used.
  \<^item> A client call is one step of the engine, since it holds the lifecycle lock from its check to its send; a turn of the
    coordinator is one step; a job has its effect on the files in one step, when it ends, as the jobs in hand
    concern different files. The end of the coordinator is one step after the shutdown that precedes it.
  \<^item> A channel of a streaming call is a prophecy: an operation carries the messages it will receive, how many chunks the consumer
    will take and whether it acknowledges. The end of the messages stands for the sender being dropped (\<^verbatim>\<open>drop(chunks)\<close> in the facades), so a caller
    that kept it while waiting, and a full channel (\<^verbatim>\<open>STREAM_CHANNEL_CAPACITY\<close>), cannot be expressed; that waiting calls return is therefore claimed
    of the calls without such channels only. A waiting call is a relation between the engine before the call and
    after the return, with any steps of the engine and of other clients between.
  \<^item> The Win32 contract is for the namespace directory of one store, whose names are portable; the encoding of paths is a
    parameter, and \<open>wide_path\<close> is the code's extension of it.
  \<^item> The engine runs on either backend (\<open>env_backend\<close>, for \<^verbatim>\<open>cfg(unix)\<close> and \<^verbatim>\<open>cfg(windows)\<close>). Only \<open>open_store\<close> is that
    of Unix, because \<open>validate_namespace\<close> and \<open>join\<close> have the path syntax of Unix; \<open>windows_initialize_platform\<close> is what it calls on Windows,
    and \<open>from_config\<close>, where the properties of the engine begin, is the same on both.

  \<^bold>\<open>Not modelled.\<close> Test hooks and test constructors, the events of the \<^verbatim>\<open>bench-instrumentation\<close> feature, the
  \<^verbatim>\<open>Debug\<close> implementations and derived \<^verbatim>\<open>Error\<close> texts, accessors, the re-exports of \<^verbatim>\<open>lib.rs\<close>, platforms that are neither Unix nor
  Windows (every call reports \<^verbatim>\<open>UnsupportedPlatform\<close>), wakers, and dropping a future or a pending result before it is
  ready: for the engine an abandoned streaming save is one whose messages stop before the completion mark, which is
  modelled, and an abandoned result is one nobody waits for. Persistence under power loss is a contract of the operating system that
  the code only requests: the flushes and directory synchronizations are calls of the model, with their failures, but a crash
  is not. The tests, benchmarks, examples and scripts are not part of the program; the golden fixtures of the compatibility
  tests are evaluated in \<open>Envelope_Props\<close>.
\<close>

end
